(* ===== verification/Prelude.thy ===== *)
theory Prelude
  imports Main "HOL-Library.Word"
begin

unbundle bit_operations_syntax

text \<open>
  Shared ground of the development: the machine types of the 32-bit big-endian
  PowerPC target, byte order, C strings as NUL-free character lists, the
  error-and-state computations in which the loader's fallible functions are
  written, and the generic lemmas on words and lists that the component theories
  share.  Nothing here models a particular source file.
\<close>

named_theorems flag_defs \<open>values of the flag masks\<close>
named_theorems io_simps \<open>unfolding rules of the error-and-state combinators\<close>
named_theorems layout_defs \<open>numeric constants of the memory layout\<close>

section \<open>Machine types\<close>

type_synonym u8 = "8 word"
type_synonym u16 = "16 word"
type_synonym u32 = "32 word"
type_synonym u64 = "64 word"

type_synonym vaddr_t = u32
type_synonym offset_t = u64
type_synonym length_t = u32
type_synonym ihandle = u32
type_synonym phandle = u32
type_synonym bytes = "u8 list"

section \<open>Characters and C strings\<close>

text \<open>
  A C string is the list of its characters before the terminating NUL.  Plain
  \<open>char\<close> is unsigned on this target, so a character widens to its code.
\<close>

abbreviation NUL :: char where "NUL \<equiv> CHR 0x00"
abbreviation TAB :: char where "TAB \<equiv> CHR 0x09"
abbreviation LF :: char where "LF \<equiv> CHR 0x0A"
abbreviation CR :: char where "CR \<equiv> CHR 0x0D"
abbreviation BS :: char where "BS \<equiv> CHR 0x08"
abbreviation DQUOTE :: char where "DQUOTE \<equiv> CHR 0x22"
abbreviation BACKSLASH :: char where "BACKSLASH \<equiv> CHR 0x5C"

definition ccode :: "char \<Rightarrow> nat" where
  "ccode c = of_char c"

definition chr :: "u8 \<Rightarrow> char" where
  "chr b = char_of (unat b)"

definition byte :: "char \<Rightarrow> u8" where
  "byte c = word_of_nat (of_char c)"

definition cstr :: "bytes \<Rightarrow> string" where
  "cstr bs = takeWhile (\<lambda>c. c \<noteq> NUL) (map chr bs)"

definition cnth :: "string \<Rightarrow> nat \<Rightarrow> char" where
  "cnth s i = (if i < length s then s ! i else NUL)"

lemma chr_byte [simp]: "chr (byte c) = c"
proof -
  have "unat (word_of_nat (of_char c) :: u8) = of_char c"
    using of_char_mod_256 [of c] by (simp add: unat_of_nat take_bit_eq_mod)
  then show ?thesis by (simp add: chr_def byte_def)
qed

lemma byte_chr [simp]: "byte (chr b) = b"
proof -
  have "unat b < 256" using unsigned_less [of b, where ?'a = nat] by simp
  then show ?thesis by (simp add: chr_def byte_def of_char_of)
qed

lemma chr_0 [simp]: "chr 0 = NUL"
  by (simp add: chr_def char_of_def)

lemma chr_eq_NUL_iff [simp]: "chr b = NUL \<longleftrightarrow> b = 0"
  by (metis byte_chr chr_0)

lemma cstr_no_NUL: "NUL \<notin> set (cstr bs)"
  by (auto simp: cstr_def dest: set_takeWhileD)

lemma cstr_string [simp]: "NUL \<notin> set s \<Longrightarrow> cstr (map byte s @ 0 # rest) = s"
  by (induction s) (auto simp: cstr_def)

lemma cstr_map_byte [simp]: "NUL \<notin> set s \<Longrightarrow> cstr (map byte s) = s"
  by (induction s) (auto simp: cstr_def)

lemma length_cstr_le: "length (cstr bs) \<le> length bs"
  unfolding cstr_def by (rule order_trans [OF length_takeWhile_le]) simp

section \<open>Byte order\<close>

text \<open>
  The processor is big-endian: a struct field read from a buffer is the
  big-endian value of its bytes.  Little-endian on-disk fields are converted by
  the loader itself with \<open>swab16\<close> and \<open>swab32\<close>.
\<close>

definition be_nat :: "bytes \<Rightarrow> nat" where
  "be_nat bs = foldl (\<lambda>n b. 256 * n + unat b) 0 bs"

definition le_nat :: "bytes \<Rightarrow> nat" where
  "le_nat bs = be_nat (rev bs)"

definition slice :: "nat \<Rightarrow> nat \<Rightarrow> 'a list \<Rightarrow> 'a list" where
  "slice off n xs = take n (drop off xs)"

definition be16 :: "bytes \<Rightarrow> nat \<Rightarrow> u16" where
  "be16 bs off = word_of_nat (be_nat (slice off 2 bs))"

definition be32 :: "bytes \<Rightarrow> nat \<Rightarrow> u32" where
  "be32 bs off = word_of_nat (be_nat (slice off 4 bs))"

definition le16 :: "bytes \<Rightarrow> nat \<Rightarrow> u16" where
  "le16 bs off = word_of_nat (le_nat (slice off 2 bs))"

definition le32 :: "bytes \<Rightarrow> nat \<Rightarrow> u32" where
  "le32 bs off = word_of_nat (le_nat (slice off 4 bs))"

definition bytes32 :: "u32 \<Rightarrow> bytes" where
  "bytes32 w = map (\<lambda>k. ucast (drop_bit k w)) [24, 16, 8, 0]"

lemma length_slice [simp]: "length (slice off n xs) = min n (length xs - off)"
  by (simp add: slice_def)

lemma nth_slice: "i < n \<Longrightarrow> off + i < length xs \<Longrightarrow> slice off n xs ! i = xs ! (off + i)"
  by (simp add: slice_def)

lemma slice_slice: "a + m \<le> n \<Longrightarrow> slice a m (slice off n xs) = slice (off + a) m xs"
  by (simp add: slice_def take_drop min_def add.commute)

lemma slice_append: "slice off (m + n) xs = slice off m xs @ slice (off + m) n xs"
  by (simp add: slice_def take_add add.commute)

lemma slice_all [simp]: "slice 0 (length xs) xs = xs"
  by (simp add: slice_def)

lemma slice_0 [simp]: "slice off 0 xs = []"
  by (simp add: slice_def)

section \<open>Words\<close>

lemma unat_lt [simp]: "unat (w :: 'a::len word) < 2 ^ LENGTH('a)"
  using unsigned_less [of w, where ?'a = nat] by simp

lemma unat_lt_u32: "unat (w :: u32) < 4294967296"
  using unat_lt [of w] by simp

lemma unat_lt_u64: "unat (w :: u64) < 18446744073709551616"
  using unat_lt [of w] by simp

lemma unat_plus_no_wrap:
  fixes a b :: "'a::len word"
  assumes "unat a + unat b < 2 ^ LENGTH('a)"
  shows "unat (a + b) = unat a + unat b"
  using assms by (simp add: unat_word_ariths)

lemma unat_minus_no_wrap:
  fixes a b :: "'a::len word"
  assumes "b \<le> a"
  shows "unat (a - b) = unat a - unat b"
  using assms by (rule unat_sub)

lemma unat_word_of_nat_small:
  "n < 2 ^ LENGTH('a) \<Longrightarrow> unat (word_of_nat n :: 'a::len word) = n"
  by (simp add: unat_of_nat take_bit_eq_mod)

lemma unat_ucast_up:
  fixes w :: "'a::len word"
  assumes "LENGTH('a) \<le> LENGTH('b::len)"
  shows "unat (ucast w :: 'b word) = unat w"
proof -
  have "(2::nat) ^ LENGTH('a) \<le> 2 ^ LENGTH('b)" using assms by (rule power_increasing) simp
  then have "unat w < 2 ^ LENGTH('b)" using unat_lt [of w] by linarith
  then show ?thesis by (simp add: unsigned_ucast_eq take_bit_nat_eq_self)
qed

lemma unat_ucast_u64 [simp]: "unat (ucast (w :: u32) :: u64) = unat w"
  by (rule unat_ucast_up) simp

lemma unat_ucast_u16 [simp]: "unat (ucast (w :: u16) :: u32) = unat w"
  by (rule unat_ucast_up) simp

lemma unat_pow2:
  assumes "k < LENGTH('a)"
  shows "unat (2 ^ k :: 'a::len word) = 2 ^ k"
proof -
  have "(2::nat) ^ k < 2 ^ LENGTH('a)"
    using assms by (rule power_strict_increasing) simp
  then have "unat (word_of_nat (2 ^ k) :: 'a word) = 2 ^ k"
    by (rule unat_word_of_nat_small)
  then show ?thesis by simp
qed

lemma word_mask_align:
  fixes x :: "'a::len word"
  shows "x AND NOT (mask n) = push_bit n (drop_bit n x)"
  by (rule bit_word_eqI) (auto simp: bit_simps)

lemma unat_align_down:
  fixes x :: "'a::len word"
  assumes "n < LENGTH('a)"
  shows "unat (x AND NOT (mask n)) = unat x - unat x mod 2 ^ n"
proof -
  have "x AND NOT (mask n) = x - take_bit n x"
    by (metis add_diff_cancel_right' bits_ident push_bit_eq_mult word_mask_align)
  moreover have "unat (take_bit n x) = take_bit n (unat x)"
    by (simp add: unsigned_take_bit_eq)
  then have "unat (take_bit n x) = unat x mod 2 ^ n"
    by (simp only: take_bit_eq_mod)
  moreover from this have "take_bit n x \<le> x"
    by (simp only: word_le_nat_alt mod_less_eq_dividend)
  ultimately show ?thesis by (simp add: unat_sub)
qed

lemma or_disjoint_plus:
  fixes a b :: "'a::len word"
  assumes "take_bit n b = b" shows "push_bit n a OR b = push_bit n a + b"
proof (rule disjunctive_add [symmetric])
  fix k show "\<not> bit (push_bit n a) k \<or> \<not> bit b k"
    using assms by (metis bit_push_bit_iff bit_take_bit_iff leD)
qed

lemma unat_push_bit_small:
  fixes a :: "'a::len word"
  assumes "unat a * 2 ^ n < 2 ^ LENGTH('a)" shows "unat (push_bit n a) = unat a * 2 ^ n"
proof -
  have "push_bit n a = word_of_nat (unat a * 2 ^ n)" by (simp add: push_bit_eq_mult)
  then show ?thesis using assms by (simp only: unat_word_of_nat_small)
qed

lemma unat_take_bit_mod:
  fixes a :: "'a::len word"
  shows "unat (take_bit n a) = unat a mod 2 ^ n"
proof -
  have "unat (take_bit n a) = take_bit n (unat a)" by (simp add: unsigned_take_bit_eq)
  then show ?thesis by (simp only: take_bit_eq_mod)
qed

lemma unat_drop_bit_div:
  fixes a :: "'a::len word"
  shows "unat (drop_bit n a) = unat a div 2 ^ n"
proof -
  have "unat (drop_bit n a) = drop_bit n (unat a)" by (rule unat_drop_bit_eq)
  then show ?thesis by (simp only: drop_bit_eq_div)
qed

lemma unat_or_push:
  fixes a b :: "'a::len word"
  assumes "unat b < 2 ^ n" and "unat a * 2 ^ n + unat b < 2 ^ LENGTH('a)"
  shows "unat (push_bit n a OR b) = unat a * 2 ^ n + unat b"
proof -
  have "unat (take_bit n b) = unat b" using assms(1) by (simp only: unat_take_bit_mod) simp
  then have "take_bit n b = b" by (simp only: word_unat_eq_iff)
  moreover have "unat (push_bit n a) = unat a * 2 ^ n" using assms(2) by (intro unat_push_bit_small) simp
  ultimately show ?thesis using assms(2) by (simp add: or_disjoint_plus unat_plus_no_wrap)
qed

lemma slice4:
  assumes "off + 4 \<le> length bs"
  shows "slice off 4 bs = [bs ! off, bs ! (off + 1), bs ! (off + 2), bs ! (off + 3)]"
  using assms by (intro nth_equalityI) (auto simp: nth_slice less_Suc_eq numeral_eq_Suc)

lemma slice2:
  assumes "off + 2 \<le> length bs"
  shows "slice off 2 bs = [bs ! off, bs ! (off + 1)]"
  using assms by (intro nth_equalityI) (auto simp: nth_slice less_Suc_eq numeral_eq_Suc)

lemma be_nat_bound: "be_nat bs < 256 ^ length bs"
proof (induction bs rule: rev_induct)
  case (snoc b bs)
  have "unat b < 256" using unat_lt [of b] by simp
  with snoc show ?case by (simp add: be_nat_def)
qed (simp add: be_nat_def)

lemma be_nat_word32:
  "length bs = 4 \<Longrightarrow> unat (word_of_nat (be_nat bs) :: u32) = be_nat bs"
  using be_nat_bound [of bs] by (intro unat_word_of_nat_small) simp

lemma be_nat_word16:
  "length bs = 2 \<Longrightarrow> unat (word_of_nat (be_nat bs) :: u16) = be_nat bs"
  using be_nat_bound [of bs] by (intro unat_word_of_nat_small) simp

section \<open>Computations with errors and state\<close>

text \<open>
  A fallible C function that returns \<open>quik_err_t\<close> and fills its out parameters
  is a state transformer whose result is either the error (\<open>Inl\<close>) or the values
  of the out parameters (\<open>Inr\<close>).  State changes made before an error is returned
  persist, as they do in C.
\<close>

type_synonym ('w, 'e, 'a) io = "'w \<Rightarrow> ('e + 'a) \<times> 'w"

definition ret :: "'a \<Rightarrow> ('w, 'e, 'a) io" where
  "ret x = (\<lambda>w. (Inr x, w))"

definition throw :: "'e \<Rightarrow> ('w, 'e, 'a) io" where
  "throw e = (\<lambda>w. (Inl e, w))"

definition bnd :: "('w, 'e, 'a) io \<Rightarrow> ('a \<Rightarrow> ('w, 'e, 'b) io) \<Rightarrow> ('w, 'e, 'b) io" where
  "bnd m k = (\<lambda>w. case m w of (Inl e, w') \<Rightarrow> (Inl e, w') | (Inr x, w') \<Rightarrow> k x w')"

definition gets :: "('w \<Rightarrow> 'a) \<Rightarrow> ('w, 'e, 'a) io" where
  "gets f = (\<lambda>w. (Inr (f w), w))"

definition modify :: "('w \<Rightarrow> 'w) \<Rightarrow> ('w, 'e, unit) io" where
  "modify f = (\<lambda>w. (Inr (), f w))"

definition lift :: "('w \<Rightarrow> 'a \<times> 'w) \<Rightarrow> ('w, 'e, 'a) io" where
  "lift f = (\<lambda>w. case f w of (x, w') \<Rightarrow> (Inr x, w'))"

definition try_io :: "('w, 'e, 'a) io \<Rightarrow> ('w, 'f, 'e + 'a) io" where
  "try_io m = (\<lambda>w. case m w of (r, w') \<Rightarrow> (Inr r, w'))"

lemmas io_defs [io_simps] =
  ret_def throw_def bnd_def gets_def modify_def lift_def try_io_def

lemma bnd_Inr: "m w = (Inr x, w') \<Longrightarrow> bnd m k w = k x w'"
  by (simp add: bnd_def)

lemma bnd_Inl: "m w = (Inl e, w') \<Longrightarrow> bnd m k w = (Inl e, w')"
  by (simp add: bnd_def)

lemma bnd_InrE:
  assumes "bnd m k w = (Inr y, w')"
  obtains x w1 where "m w = (Inr x, w1)" and "k x w1 = (Inr y, w')"
  using assms by (auto simp: bnd_def split: prod.splits sum.splits)

text \<open>An invariant of the state that a computation keeps, whether it fails or not.\<close>

definition keeps :: "('w \<Rightarrow> bool) \<Rightarrow> ('w, 'e, 'a) io \<Rightarrow> bool" where
  "keeps P m \<longleftrightarrow> (\<forall>w. P w \<longrightarrow> P (snd (m w)))"

lemma keepsI: "(\<And>w. P w \<Longrightarrow> P (snd (m w))) \<Longrightarrow> keeps P m"
  by (simp add: keeps_def)

lemma keepsD: "keeps P m \<Longrightarrow> P w \<Longrightarrow> P (snd (m w))"
  by (simp add: keeps_def)

lemma keeps_ret [intro, simp]: "keeps P (ret x)"
  by (simp add: keeps_def ret_def)

lemma keeps_throw [intro, simp]: "keeps P (throw e)"
  by (simp add: keeps_def throw_def)

lemma keeps_gets [intro, simp]: "keeps P (gets f)"
  by (simp add: keeps_def gets_def)

lemma keeps_bnd [intro]: "keeps P m \<Longrightarrow> (\<And>x. keeps P (k x)) \<Longrightarrow> keeps P (bnd m k)"
  unfolding keeps_def bnd_def
  by (auto split: prod.splits sum.splits)

lemma keeps_modify [intro]: "(\<And>w. P w \<Longrightarrow> P (f w)) \<Longrightarrow> keeps P (modify f)"
  by (simp add: keeps_def modify_def)

lemma keeps_lift [intro]: "(\<And>w. P w \<Longrightarrow> P (snd (f w))) \<Longrightarrow> keeps P (lift f)"
  unfolding keeps_def lift_def by (auto split: prod.splits) (metis snd_conv)

lemma keeps_try_io [intro]: "keeps P m \<Longrightarrow> keeps P (try_io m)"
  unfolding keeps_def try_io_def by (auto split: prod.splits)

lemma keeps_if [intro]: "(b \<Longrightarrow> keeps P m) \<Longrightarrow> (\<not> b \<Longrightarrow> keeps P n) \<Longrightarrow> keeps P (if b then m else n)"
  by simp

end
