(* ===== verification/Quik.thy ===== *)
theory Quik
  imports Prelude
begin

text \<open>
  The declarations every part of the loader shares (\<^verbatim>\<open>loader/quik.h\<close> and
  \<^verbatim>\<open>include/layout.h\<close>): the error codes and their messages, the memory layout, the
  boot flags, and the structures for a device with a partition, a loaded image
  and the boot information block.
\<close>

section \<open>Error codes\<close>

datatype quik_err_t =
    ERR_NONE | ERR_NOT_READY | ERR_MALLOC_INIT | ERR_OF_INIT_NO_CHOSEN
  | ERR_OF_INIT_NO_MEMORY | ERR_OF_INIT_NO_OPTIONS | ERR_OF_INIT_NO_OPROM
  | ERR_OF_INIT_NO_ROOT | ERR_OF_OPEN | ERR_DEV_SHORT_READ | ERR_PART_NOT_MAC
  | ERR_PART_NOT_DOS | ERR_PART_NOT_PARTITIONED | ERR_PART_NOT_FOUND
  | ERR_PART_BEYOND | ERR_FS_OPEN | ERR_FS_PATH | ERR_FS_NOT_FOUND
  | ERR_FS_NOT_DIR | ERR_FS_NOT_REG | ERR_FS_NOT_EXT2 | ERR_FS_CORRUPT
  | ERR_FS_LOOP | ERR_ELF_NOT | ERR_ELF_WRONG | ERR_ELF_NOT_LOADABLE
  | ERR_KERNEL_RETURNED | ERR_KERNEL_OLD_BIG | ERR_NO_MEM
  | ERR_CONFIG_NOT_FOUND | ERR_ENV_DEFAULT_BAD | ERR_ENV_CURRENT_BAD
  | ERR_ENV_PREBOOT_BAD | ERR_CMD_UNKNOWN | ERR_CMD_BAD_PARAM | ERR_INVALID

text \<open>The enumeration's values, in declaration order.\<close>

definition quik_errs :: "quik_err_t list" where
  "quik_errs =
    [ERR_NONE, ERR_NOT_READY, ERR_MALLOC_INIT, ERR_OF_INIT_NO_CHOSEN,
     ERR_OF_INIT_NO_MEMORY, ERR_OF_INIT_NO_OPTIONS, ERR_OF_INIT_NO_OPROM,
     ERR_OF_INIT_NO_ROOT, ERR_OF_OPEN, ERR_DEV_SHORT_READ, ERR_PART_NOT_MAC,
     ERR_PART_NOT_DOS, ERR_PART_NOT_PARTITIONED, ERR_PART_NOT_FOUND,
     ERR_PART_BEYOND, ERR_FS_OPEN, ERR_FS_PATH, ERR_FS_NOT_FOUND,
     ERR_FS_NOT_DIR, ERR_FS_NOT_REG, ERR_FS_NOT_EXT2, ERR_FS_CORRUPT,
     ERR_FS_LOOP, ERR_ELF_NOT, ERR_ELF_WRONG, ERR_ELF_NOT_LOADABLE,
     ERR_KERNEL_RETURNED, ERR_KERNEL_OLD_BIG, ERR_NO_MEM,
     ERR_CONFIG_NOT_FOUND, ERR_ENV_DEFAULT_BAD, ERR_ENV_CURRENT_BAD,
     ERR_ENV_PREBOOT_BAD, ERR_CMD_UNKNOWN, ERR_CMD_BAD_PARAM, ERR_INVALID]"

fun index_of :: "'a list \<Rightarrow> 'a \<Rightarrow> nat" where
  "index_of [] x = 0"
| "index_of (y # ys) x = (if x = y then 0 else Suc (index_of ys x))"

definition err_code :: "quik_err_t \<Rightarrow> u32" where
  "err_code e = word_of_nat (index_of quik_errs e)"

text \<open>The message table \<open>errors\<close> that \<^verbatim>\<open>printf.c\<close> builds from the same list.\<close>

fun err_msg :: "quik_err_t \<Rightarrow> string" where
  "err_msg ERR_NONE = ''no error''"
| "err_msg ERR_NOT_READY = ''operation should be retried''"
| "err_msg ERR_MALLOC_INIT = ''malloc claim failed''"
| "err_msg ERR_OF_INIT_NO_CHOSEN = ''no OF /chosen''"
| "err_msg ERR_OF_INIT_NO_MEMORY = ''no OF /memory''"
| "err_msg ERR_OF_INIT_NO_OPTIONS = ''no OF /options''"
| "err_msg ERR_OF_INIT_NO_OPROM = ''no OF /openprom''"
| "err_msg ERR_OF_INIT_NO_ROOT = ''no OF /''"
| "err_msg ERR_OF_OPEN = ''cannot open device''"
| "err_msg ERR_DEV_SHORT_READ = ''short read on device''"
| "err_msg ERR_PART_NOT_MAC = ''partitioning not macintosh''"
| "err_msg ERR_PART_NOT_DOS = ''partitioning not dos''"
| "err_msg ERR_PART_NOT_PARTITIONED = ''invalid disk partitioning''"
| "err_msg ERR_PART_NOT_FOUND = ''partition not found''"
| "err_msg ERR_PART_BEYOND = ''access beyond partition size''"
| "err_msg ERR_FS_OPEN = ''cannot open volume as file system''"
| "err_msg ERR_FS_PATH = ''bad path''"
| "err_msg ERR_FS_NOT_FOUND = ''file not found''"
| "err_msg ERR_FS_NOT_DIR = ''not a directory''"
| "err_msg ERR_FS_NOT_REG = ''not a regular file''"
| "err_msg ERR_FS_NOT_EXT2 = ''FS is not ext2''"
| "err_msg ERR_FS_CORRUPT = ''FS is corrupted''"
| "err_msg ERR_FS_LOOP = ''symlink loop detected''"
| "err_msg ERR_ELF_NOT = ''invalid kernel image''"
| "err_msg ERR_ELF_WRONG = ''invalid kernel architecture''"
| "err_msg ERR_ELF_NOT_LOADABLE = ''not a loadable image''"
| "err_msg ERR_KERNEL_RETURNED = ''kernel returned''"
| "err_msg ERR_KERNEL_OLD_BIG = ''pre-2.4 kernel too large ''"
| "err_msg ERR_NO_MEM = ''malloc failed''"
| "err_msg ERR_CONFIG_NOT_FOUND = ''no configuration file found''"
| "err_msg ERR_ENV_DEFAULT_BAD = ''bad default device path''"
| "err_msg ERR_ENV_CURRENT_BAD = ''bad current device path''"
| "err_msg ERR_ENV_PREBOOT_BAD = ''no boot-file set by preboot script''"
| "err_msg ERR_CMD_UNKNOWN = ''unknown command''"
| "err_msg ERR_CMD_BAD_PARAM = ''invalid parameters''"
| "err_msg ERR_INVALID = ''invalid error, likely a bug''"

section \<open>Memory layout\<close>

definition PREBOOT_MAGIC :: u32 where [layout_defs]: "PREBOOT_MAGIC = 0x00B007ED"
definition IQUIK_BASE :: u32 where [layout_defs]: "IQUIK_BASE = 0x3e0000"
definition IQUIK_SIZE :: u32 where [layout_defs]: "IQUIK_SIZE = 0x20000"
definition MALLOC_BASE :: u32 where [layout_defs]: "MALLOC_BASE = 0x500000"
definition MALLOC_SIZE :: u32 where [layout_defs]: "MALLOC_SIZE = 0x300000"
definition LOAD_BASE :: u32 where [layout_defs]: "LOAD_BASE = 0x800000"
definition SIZE_1M :: u32 where [layout_defs]: "SIZE_1M = 0x100000"
definition SIZE_4K :: u32 where [layout_defs]: "SIZE_4K = 0x1000"

definition ALIGN_UP :: "u32 \<Rightarrow> u32 \<Rightarrow> u32" where
  "ALIGN_UP addr align = (addr + align - 1) AND NOT (align - 1)"

section \<open>Boot flags\<close>

definition CONFIG_VALID :: u32 where [flag_defs]: "CONFIG_VALID = 2"
definition PAUSE_BEFORE_BOOT :: u32 where [flag_defs]: "PAUSE_BEFORE_BOOT = 4"
definition DEBUG_BEFORE_BOOT :: u32 where [flag_defs]: "DEBUG_BEFORE_BOOT = 8"
definition TRIED_AUTO :: u32 where [flag_defs]: "TRIED_AUTO = 16"
definition BOOT_PRE_2_4 :: u32 where [flag_defs]: "BOOT_PRE_2_4 = 32"
definition SHIM_OF :: u32 where [flag_defs]: "SHIM_OF = 64"
definition WITH_PREBOOT :: u32 where [flag_defs]: "WITH_PREBOOT = 128"
definition HAVE_IMAGES :: u32 where [flag_defs]: "HAVE_IMAGES = 256"

definition flag_set :: "u32 \<Rightarrow> u32 \<Rightarrow> bool" where
  "flag_set flags m \<longleftrightarrow> flags AND m \<noteq> 0"

section \<open>Structures\<close>

text \<open>A null \<open>char *\<close> field is \<open>None\<close>.\<close>

record env_dev_t =
  dev_device :: "string option"
  dev_part :: u32
  dev_part_valid :: bool

text \<open>A file on a partition of a device (\<^verbatim>\<open>loader/file.h\<close>).\<close>

record path_t =
  pt_device :: "string option"
  pt_part :: u32
  pt_path :: "string option"

record load_state_t =
  ls_buf :: vaddr_t
  ls_linked_base :: vaddr_t
  ls_text_offset :: vaddr_t
  ls_text_len :: length_t
  ls_entry :: vaddr_t

record boot_info_t =
  bi_prom_entry :: vaddr_t
  bi_prom_shim :: vaddr_t
  bi_flags :: u32
  bi_config_file :: "string option"
  bi_of_bootargs_buf :: "string option"
  bi_of_bootfile_buf :: "string option"
  bi_default_dev :: env_dev_t
  bi_bootargs :: "string option"
  bi_pause_message :: "string option"
  bi_initrd_base :: vaddr_t
  bi_initrd_len :: length_t

definition env_dev_zero :: env_dev_t where
  "env_dev_zero = \<lparr>dev_device = None, dev_part = 0, dev_part_valid = False\<rparr>"

definition bi_zero :: boot_info_t where
  "bi_zero = \<lparr>bi_prom_entry = 0, bi_prom_shim = 0, bi_flags = 0, bi_config_file = None,
     bi_of_bootargs_buf = None, bi_of_bootfile_buf = None, bi_default_dev = env_dev_zero,
     bi_bootargs = None, bi_pause_message = None, bi_initrd_base = 0, bi_initrd_len = 0\<rparr>"

section \<open>Facts about flags and alignment\<close>

lemma flag_set_OR: "flag_set (f OR g) m \<longleftrightarrow> flag_set f m \<or> flag_set g m"
  by (simp add: flag_set_def bit.conj_disj_distrib2 or_eq_0_iff)

lemma align_mask_pow2: "k < 32 \<Longrightarrow> (2 ^ k - 1 :: u32) = mask k"
  by (simp add: mask_eq_exp_minus_1)

lemma ALIGN_UP_pow2:
  assumes "k < 32"
  shows "ALIGN_UP a (2 ^ k) = (a + (2 ^ k - 1)) AND NOT (mask k)"
  using assms by (simp add: ALIGN_UP_def mask_eq_exp_minus_1 algebra_simps)

text \<open>
  Aligning up to a power of two, when the sum does not wrap: the result is the
  least multiple of the alignment that is not below the address.
\<close>

lemma unat_mask_pow2:
  assumes "k < 32"
  shows "unat (2 ^ k - 1 :: u32) = 2 ^ k - 1"
proof -
  have p: "unat (2 ^ k :: u32) = 2 ^ k" using assms by (simp add: unat_pow2)
  then have "1 \<le> (2 ^ k :: u32)" by (simp add: word_le_nat_alt)
  then show ?thesis by (simp add: unat_sub p)
qed

lemma unat_ALIGN_UP:
  assumes k: "k < 32" and small: "unat a + (2 ^ k - 1) < 2 ^ 32"
  shows "unat (ALIGN_UP a (2 ^ k)) = (unat a + (2 ^ k - 1)) div 2 ^ k * 2 ^ k"
proof -
  have "unat (a + (2 ^ k - 1)) = unat a + (2 ^ k - 1)"
    using small unat_mask_pow2 [OF k] unat_plus_no_wrap [of a "2 ^ k - 1"] by simp
  then show ?thesis
    using k by (simp add: ALIGN_UP_pow2 unat_align_down minus_mod_eq_div_mult)
qed

lemma ALIGN_UP_bounds:
  assumes "k < 32" and "unat a + (2 ^ k - 1) < 2 ^ 32"
  shows "unat a \<le> unat (ALIGN_UP a (2 ^ k))"
    and "unat (ALIGN_UP a (2 ^ k)) < unat a + 2 ^ k"
    and "2 ^ k dvd unat (ALIGN_UP a (2 ^ k))"
proof -
  let ?m = "unat a + (2 ^ k - 1)"
  have eq: "unat (ALIGN_UP a (2 ^ k)) + ?m mod 2 ^ k = ?m"
    by (simp only: unat_ALIGN_UP [OF assms] div_mult_mod_eq)
  have "?m mod 2 ^ k < 2 ^ k" by simp
  then have "?m mod 2 ^ k \<le> 2 ^ k - 1" by linarith
  with eq show "unat a \<le> unat (ALIGN_UP a (2 ^ k))" by linarith
  have "?m < unat a + 2 ^ k" by simp
  with eq show "unat (ALIGN_UP a (2 ^ k)) < unat a + 2 ^ k" by linarith
  show "2 ^ k dvd unat (ALIGN_UP a (2 ^ k))"
    by (simp only: unat_ALIGN_UP [OF assms]) simp
qed

end
