(* ===== verification/Util.thy ===== *)
theory Util
  imports Quik
begin

text \<open>
  The loader's small C library: the string routines of \<^verbatim>\<open>loader/string.S\<close> on
  NUL-free character lists, and \<^verbatim>\<open>loader/util.c\<close> (\<open>chomp\<close>, \<open>word_split\<close>,
  \<open>strcasecmp\<close>, \<open>strstr\<close>, \<open>strtol\<close>, and the byte swaps written with the
  processor's rotate-and-insert instruction).

  A pointer into a string is the suffix of the string it points at; the NUL
  bytes that \<open>word_split\<close> stores into its line only cut the first word off, so
  the words are returned as values.
\<close>

section \<open>string.S\<close>

definition strlen :: "string \<Rightarrow> nat" where
  "strlen s = length s"

text \<open>\<open>strcmp\<close>: the difference of the first bytes that differ, 0 at a common end.\<close>

fun strcmp :: "string \<Rightarrow> string \<Rightarrow> int" where
  "strcmp [] s2 = 0 - int (ccode (cnth s2 0))"
| "strcmp (c # s1) [] = int (ccode c)"
| "strcmp (c # s1) (d # s2) =
     (if ccode c = ccode d then strcmp s1 s2 else int (ccode c) - int (ccode d))"

text \<open>\<open>strchr\<close> and \<open>strrchr\<close> for a character other than NUL; the null pointer is \<open>None\<close>.\<close>

fun strchr :: "string \<Rightarrow> char \<Rightarrow> string option" where
  "strchr [] c = None"
| "strchr (d # s) c = (if d = c then Some (d # s) else strchr s c)"

fun strrchr :: "string \<Rightarrow> char \<Rightarrow> string option" where
  "strrchr [] c = None"
| "strrchr (d # s) c =
     (case strrchr s c of Some t \<Rightarrow> Some t | None \<Rightarrow> if d = c then Some (d # s) else None)"

text \<open>
  \<open>memcmp\<close> against a literal of the same length: it stops at the first
  difference, and the NUL after a shorter string differs from every character.
\<close>

definition memcmp_prefix :: "string \<Rightarrow> string \<Rightarrow> bool" where
  "memcmp_prefix s lit \<longleftrightarrow> take (length lit) s = lit"

text \<open>\<open>strncpy\<close> copies at most \<open>n\<close> characters and does not pad.\<close>

definition strncpy :: "string \<Rightarrow> nat \<Rightarrow> string" where
  "strncpy src n = take n src"

section \<open>util.c: words of a line\<close>

fun chomp :: "string \<Rightarrow> string" where
  "chomp [] = []"
| "chomp (c # s) = (if c = CHR '' '' then chomp s else c # s)"

fun scan_word :: "string \<Rightarrow> string \<times> string" where
  "scan_word [] = ([], [])"
| "scan_word (c # s) =
     (if c = CHR '' '' then ([], c # s)
      else (case scan_word s of (w, r) \<Rightarrow> (c # w, r)))"

text \<open>The results are the new \<open>*linep\<close> (a null pointer is \<open>None\<close>) and \<open>*paramsp\<close>.\<close>

definition word_split :: "string option \<Rightarrow> string option \<times> string" where
  "word_split linep =
     (case linep of
        None \<Rightarrow> (None, [])
      | Some line \<Rightarrow>
          (let p = chomp line in
           if p = [] then (None, [])
           else (case scan_word p of (w, r) \<Rightarrow> (Some w, chomp r))))"

section \<open>util.c: case-insensitive comparison and search\<close>

definition tolower :: "int \<Rightarrow> int" where
  "tolower c = (if int (ccode CHR ''A'') \<le> c \<and> c \<le> int (ccode CHR ''Z'')
     then c + (int (ccode CHR ''a'') - int (ccode CHR ''A'')) else c)"

definition fold_case :: "char \<Rightarrow> int" where
  "fold_case c = tolower (int (ccode c))"

function strcasecmp :: "string \<Rightarrow> string \<Rightarrow> int" where
  "strcasecmp s1 s2 =
     (let c1 = fold_case (cnth s1 0); c2 = fold_case (cnth s2 0) in
      if c1 \<noteq> c2 \<or> c1 = 0 then c1 - c2 else strcasecmp (tl s1) (tl s2))"
  by pat_completeness auto
termination
proof (relation "measure (\<lambda>(s1, s2). length s1)")
  fix s1 s2 :: string and x xa :: int
  assume "x = fold_case (cnth s1 0)" and "\<not> (x \<noteq> xa \<or> x = 0)"
  then have "fold_case (cnth s1 0) \<noteq> 0" by simp
  then have "s1 \<noteq> []" by (auto simp: cnth_def fold_case_def tolower_def ccode_def)
  then show "((tl s1, tl s2), (s1, s2)) \<in> measure (\<lambda>(s1, s2). length s1)" by simp
qed simp

declare strcasecmp.simps [simp del]

text \<open>The loop of \<open>strstr\<close>: \<open>l1\<close> is the length of what is left of the first string.\<close>

fun strstr_loop :: "string \<Rightarrow> string \<Rightarrow> string option" where
  "strstr_loop s1 s2 =
     (if length s1 \<ge> length s2 then
        if take (length s2) s1 = s2 then Some s1
        else (case s1 of [] \<Rightarrow> None | _ # r \<Rightarrow> strstr_loop r s2)
      else None)"

declare strstr_loop.simps [simp del]

definition strstr :: "string \<Rightarrow> string \<Rightarrow> string option" where
  "strstr s1 s2 = (if length s2 = 0 then Some s1 else strstr_loop s1 s2)"

section \<open>util.c: byte swaps\<close>

text \<open>
  \<open>rlwimi rA,rS,SH,MB,ME\<close>: the source rotated left by \<open>SH\<close> is inserted into the
  destination under the mask of bits \<open>MB\<close> to \<open>ME\<close>, counted from the most
  significant bit.
\<close>

definition rotl32 :: "nat \<Rightarrow> u32 \<Rightarrow> u32" where
  "rotl32 n x = push_bit n x OR drop_bit (32 - n) x"

definition ppc_mask :: "nat \<Rightarrow> nat \<Rightarrow> u32" where
  "ppc_mask mb me = push_bit (31 - me) (mask (me + 1 - mb))"

definition rlwimi :: "u32 \<Rightarrow> u32 \<Rightarrow> nat \<Rightarrow> nat \<Rightarrow> nat \<Rightarrow> u32" where
  "rlwimi ra rs sh mb me =
     (rotl32 sh rs AND ppc_mask mb me) OR (ra AND NOT (ppc_mask mb me))"

definition swab16 :: "u16 \<Rightarrow> u16" where
  "swab16 value = ucast (rlwimi (drop_bit 8 (ucast value)) (ucast value) 8 16 23)"

definition swab32 :: "u32 \<Rightarrow> u32" where
  "swab32 value =
     (let r = drop_bit 24 value;
          r = rlwimi r value 24 16 23;
          r = rlwimi r value 8 8 15
      in rlwimi r value 24 0 7)"

section \<open>util.c: strtol\<close>

definition is_space :: "char \<Rightarrow> bool" where
  "is_space c \<longleftrightarrow> ccode c \<le> 32 \<and> c \<noteq> NUL"

text \<open>The value of a digit or letter; \<open>None\<close> where the loop breaks on the character itself.\<close>

definition digit_val :: "char \<Rightarrow> nat option" where
  "digit_val c =
     (if ccode CHR ''0'' \<le> ccode c \<and> ccode c \<le> ccode CHR ''9''
        then Some (ccode c - ccode CHR ''0'')
      else if ccode CHR ''A'' \<le> ccode c \<and> ccode c \<le> ccode CHR ''Z''
        then Some (ccode c - ccode CHR ''A'' + 10)
      else if ccode CHR ''a'' \<le> ccode c \<and> ccode c \<le> ccode CHR ''z''
        then Some (ccode c - ccode CHR ''a'' + 10)
      else None)"

text \<open>The conversion loop: accumulator, overflow flag and the pointer where it stopped.\<close>

fun strtol_loop :: "nat \<Rightarrow> u32 \<Rightarrow> bool \<Rightarrow> string \<Rightarrow> u32 \<times> bool \<times> string" where
  "strtol_loop base i overflow [] = (i, overflow, [])"
| "strtol_loop base i overflow (c # s) =
     (case digit_val c of
        None \<Rightarrow> (i, overflow, c # s)
      | Some d \<Rightarrow>
          if d \<ge> base then (i, overflow, c # s)
          else
            (let cutoff = 0x7FFFFFFF div word_of_nat base :: u32;
                 cutlim = 0x7FFFFFFF mod word_of_nat base :: u32
             in if i > cutoff \<or> (i = cutoff \<and> word_of_nat d > cutlim)
                then strtol_loop base i True s
                else strtol_loop base (i * word_of_nat base + word_of_nat d) overflow s))"

definition hex_prefix :: "string \<Rightarrow> bool" where
  "hex_prefix s \<longleftrightarrow> cnth s 0 = CHR ''0'' \<and> (cnth s 1 = CHR ''X'' \<or> cnth s 1 = CHR ''x'')"

text \<open>Where \<open>noconv\<close> leaves the end pointer, for a \<open>save\<close> that is a suffix of \<open>nptr\<close>.\<close>

definition noconv_end :: "string \<Rightarrow> string \<Rightarrow> string" where
  "noconv_end nptr save =
     (let n = length nptr - length save in
      if n \<ge> 2 \<and> tolower (int (ccode (nptr ! (n - 1)))) = int (ccode CHR ''x'')
         \<and> nptr ! (n - 2) = CHR ''0''
      then drop (n - 1) nptr else nptr)"

text \<open>The result is the \<open>int\<close> returned and the string at \<open>*endptr\<close>.\<close>

definition strtol :: "string \<Rightarrow> int \<Rightarrow> u32 \<times> string" where
  "strtol nptr base0 =
     (let base1 = (if base0 < 0 \<or> base0 = 1 \<or> base0 > 36 then 10 else base0);
          s = dropWhile is_space nptr
      in if s = [] then (0, noconv_end nptr nptr)
         else
           (let negative = (hd s = CHR ''-'');
                s = (if hd s = CHR ''-'' \<or> hd s = CHR ''+'' then tl s else s);
                s = (if base1 = 16 \<and> hex_prefix s then drop 2 s else s);
                (s, base) =
                  (if base1 = 0 then
                     if cnth s 0 = CHR ''0'' then
                       if cnth s 1 = CHR ''X'' \<or> cnth s 1 = CHR ''x''
                       then (drop 2 s, 16) else (s, 8)
                     else (s, 10)
                   else (s, base1));
                save = s;
                (i, overflow, s) = strtol_loop (nat base) 0 False s
            in if length s = length save then (0, noconv_end nptr save)
               else if overflow
               then (if negative then 0x80000000 else 0x7FFFFFFF, s)
               else (if negative then - i else i, s)))"

section \<open>Comparison\<close>

lemma ccode_eq_iff [simp]: "ccode c = ccode d \<longleftrightarrow> c = d"
  by (simp add: ccode_def)

lemma ccode_NUL [simp]: "ccode NUL = 0"
  by (simp add: ccode_def)

lemma ccode_eq_0_iff [simp]: "ccode c = 0 \<longleftrightarrow> c = NUL"
  using ccode_eq_iff [of c NUL] by (simp del: ccode_eq_iff)

lemma ccode_lt [simp]: "ccode c < 256"
  using of_char_mod_256 [of c, where ?'a = nat] by (simp add: ccode_def)

lemma cnth_Nil [simp]: "cnth [] i = NUL"
  by (simp add: cnth_def)

lemma cnth_Cons_0 [simp]: "cnth (c # s) 0 = c"
  by (simp add: cnth_def)

lemma cnth_Cons_Suc [simp]: "cnth (c # s) (Suc i) = cnth s i"
  by (simp add: cnth_def)

lemma cnth_one [simp]: "cnth (c # s) 1 = cnth s 0"
  by (simp add: cnth_def)

lemma strcmp_eq_0_iff:
  "NUL \<notin> set s1 \<Longrightarrow> NUL \<notin> set s2 \<Longrightarrow> strcmp s1 s2 = 0 \<longleftrightarrow> s1 = s2"
proof (induction s1 s2 rule: strcmp.induct)
  case (1 s2)
  then show ?case by (cases s2) auto
qed auto

lemma fold_case_eq_0_iff [simp]: "fold_case c = 0 \<longleftrightarrow> c = NUL"
  by (auto simp: fold_case_def tolower_def) (auto simp: ccode_def)

lemma fold_case_NUL [simp]: "fold_case NUL = 0"
  by simp

lemma strcasecmp_Nil: "strcasecmp [] s2 = 0 - fold_case (cnth s2 0)"
  by (subst strcasecmp.simps) (simp add: Let_def fold_case_def tolower_def ccode_def)

lemma strcasecmp_Cons_Nil: "c \<noteq> NUL \<Longrightarrow> strcasecmp (c # s1) [] = fold_case c"
  by (subst strcasecmp.simps) (simp add: Let_def fold_case_def tolower_def ccode_def)

lemma strcasecmp_Cons_Cons:
  "c \<noteq> NUL \<Longrightarrow> strcasecmp (c # s1) (d # s2) =
     (if fold_case c = fold_case d then strcasecmp s1 s2 else fold_case c - fold_case d)"
  by (subst strcasecmp.simps) (simp add: Let_def)

lemmas strcasecmp_simps = strcasecmp_Nil strcasecmp_Cons_Nil strcasecmp_Cons_Cons

lemma strcasecmp_eq_0_iff:
  "NUL \<notin> set s1 \<Longrightarrow> NUL \<notin> set s2 \<Longrightarrow>
     strcasecmp s1 s2 = 0 \<longleftrightarrow> map fold_case s1 = map fold_case s2"
proof (induction s1 arbitrary: s2)
  case Nil
  then show ?case by (cases s2) (auto simp: strcasecmp_simps)
next
  case (Cons c s1)
  then show ?case by (cases s2) (auto simp: strcasecmp_simps split: if_splits)
qed

lemma strcasecmp_eq_0_iff_cut:
  "strcasecmp s1 s2 = 0 \<longleftrightarrow>
     map fold_case (takeWhile (\<lambda>c. c \<noteq> NUL) s1) = map fold_case (takeWhile (\<lambda>c. c \<noteq> NUL) s2)"
proof (induction s1 arbitrary: s2)
  case Nil
  then show ?case by (cases s2) (auto simp: strcasecmp_Nil)
next
  case (Cons c s1)
  show ?case
  proof (cases "c = NUL")
    case True
    then have "strcasecmp (c # s1) s2 = 0 - fold_case (cnth s2 0)"
      by (subst strcasecmp.simps) (simp add: Let_def)
    with True show ?thesis by (cases s2) auto
  next
    case False
    have "fold_case c \<noteq> 0" using False by simp
    with False Cons.IH show ?thesis
      by (cases s2) (auto simp: strcasecmp_Cons_Nil strcasecmp_Cons_Cons split: if_splits)
  qed
qed

lemma strcasecmp_sym: "strcasecmp s1 s2 = 0 \<Longrightarrow> strcasecmp s2 s1 = 0"
  and strcasecmp_trans: "strcasecmp s1 s2 = 0 \<Longrightarrow> strcasecmp s2 s3 = 0 \<Longrightarrow> strcasecmp s1 s3 = 0"
  by (simp_all add: strcasecmp_eq_0_iff_cut)

lemma strchr_Some_iff:
  "strchr s c = Some t \<longleftrightarrow> (\<exists>p. s = p @ t \<and> c \<notin> set p \<and> t \<noteq> [] \<and> hd t = c)"
proof (induction s)
  case Nil
  then show ?case by auto
next
  case (Cons d s)
  show ?case
  proof (cases "d = c")
    case True
    then show ?thesis
      by (auto simp: Cons_eq_append_conv)
  next
    case False
    then show ?thesis using Cons.IH by (auto simp: Cons_eq_append_conv)
  qed
qed

lemma strchr_None_iff: "strchr s c = None \<longleftrightarrow> c \<notin> set s"
  by (induction s) auto

lemma strrchr_None_iff: "strrchr s c = None \<longleftrightarrow> c \<notin> set s"
  by (induction s) (auto split: option.splits)

lemma strrchr_last: "c \<notin> set r \<Longrightarrow> strrchr (p @ c # r) c = Some (c # r)"
proof (induction p)
  case Nil
  then show ?case using strrchr_None_iff [of r c] by simp
next
  case (Cons d p)
  then show ?case by simp
qed

section \<open>Words of a line\<close>

lemma chomp_eq: "chomp s = dropWhile (\<lambda>c. c = CHR '' '') s"
  by (induction s) auto

lemma scan_word_eq: "scan_word s = (takeWhile (\<lambda>c. c \<noteq> CHR '' '') s, dropWhile (\<lambda>c. c \<noteq> CHR '' '') s)"
  by (induction s) auto

lemma length_chomp: "length (chomp s) \<le> length s"
  by (induction s) auto

lemma chomp_head: "chomp s \<noteq> [] \<Longrightarrow> hd (chomp s) \<noteq> CHR '' ''"
  by (induction s) auto

lemma chomp_idem [simp]: "chomp (chomp s) = chomp s"
  by (induction s) auto

lemma set_chomp: "set (chomp s) \<subseteq> set s"
  by (induction s) auto

lemma word_split_None [simp]: "word_split None = (None, [])"
  by (simp add: word_split_def)

lemma word_split_word:
  assumes "w \<noteq> []" and "CHR '' '' \<notin> set w" and "rest = [] \<or> hd rest = CHR '' ''"
  shows "word_split (Some (replicate n CHR '' '' @ w @ rest)) = (Some w, chomp rest)"
proof -
  have 1: "chomp (replicate n CHR '' '' @ w @ rest) = w @ rest"
    using assms(1,2) by (induction n; cases w) auto
  have "takeWhile (\<lambda>c. c \<noteq> CHR '' '') (w @ rest) = w"
    "dropWhile (\<lambda>c. c \<noteq> CHR '' '') (w @ rest) = rest"
    using assms(2,3) by (cases rest; force simp: takeWhile_append dropWhile_append)+
  then show ?thesis
    using assms(1) 1 by (simp add: word_split_def scan_word_eq)
qed

section \<open>Byte swaps\<close>

text \<open>The rotate-and-insert sequences reverse the bytes of a word.\<close>

lemmas swab_defs = swab32_def swab16_def rlwimi_def rotl32_def ppc_mask_def Let_def

lemma swab32_bytes:
  "swab32 v = push_bit 24 (take_bit 8 v) OR push_bit 16 (take_bit 8 (drop_bit 8 v))
     OR push_bit 8 (take_bit 8 (drop_bit 16 v)) OR drop_bit 24 v"
proof (rule bit_word_eqI)
  fix n assume "n < LENGTH(32)"
  then consider "n < 8" | "8 \<le> n" "n < 16" | "16 \<le> n" "n < 24" | "24 \<le> n" "n < 32" by fastforce
  then show "bit (swab32 v) n = bit (push_bit 24 (take_bit 8 v) OR push_bit 16 (take_bit 8 (drop_bit 8 v))
     OR push_bit 8 (take_bit 8 (drop_bit 16 v)) OR drop_bit 24 v) n"
    by cases (auto simp: swab_defs bit_simps less_diff_conv2 dest: bit_imp_le_length)
qed

lemma swab16_bytes:
  "swab16 v = push_bit 8 (take_bit 8 v) OR drop_bit 8 v"
proof (rule bit_word_eqI)
  fix n assume "n < LENGTH(16)"
  then consider "n < 8" | "8 \<le> n" "n < 16" by fastforce
  then show "bit (swab16 v) n = bit (push_bit 8 (take_bit 8 v) OR drop_bit 8 v) n"
    by cases (auto simp: swab_defs bit_simps less_diff_conv2 dest: bit_imp_le_length)
qed

lemma unat_swab32:
  "unat (swab32 v) = unat v mod 256 * 16777216 + unat v div 256 mod 256 * 65536
     + unat v div 65536 mod 256 * 256 + unat v div 16777216"
proof -
  let ?a = "take_bit 8 v" and ?b = "take_bit 8 (drop_bit 8 v)"
  let ?c = "take_bit 8 (drop_bit 16 v)" and ?d = "drop_bit 24 v"
  have a: "unat ?a = unat v mod 256" and b: "unat ?b = unat v div 256 mod 256"
    and c: "unat ?c = unat v div 65536 mod 256" and d: "unat ?d = unat v div 16777216"
    by (simp_all only: unat_take_bit_mod unat_drop_bit_div) simp_all
  have d': "unat ?d < 256" using unat_lt [of v] unfolding d by simp
  have cd: "unat (push_bit 8 ?c OR ?d) = unat ?c * 256 + unat ?d"
    using unat_or_push [of ?d 8 ?c] d' unfolding c by simp
  have bcd: "unat (push_bit 16 ?b OR (push_bit 8 ?c OR ?d)) = unat ?b * 65536 + (unat ?c * 256 + unat ?d)"
    using unat_or_push [of "push_bit 8 ?c OR ?d" 16 ?b] d' unfolding cd unfolding b c by simp
  show ?thesis
    using unat_or_push [of "push_bit 16 ?b OR (push_bit 8 ?c OR ?d)" 24 ?a] d'
    unfolding bcd swab32_bytes unfolding a b c d by (simp add: or.assoc)
qed

lemma unat_swab16: "unat (swab16 v) = unat v mod 256 * 256 + unat v div 256"
proof -
  have d: "unat (drop_bit 8 v) = unat v div 256" and a: "unat (take_bit 8 v) = unat v mod 256"
    by (simp_all only: unat_take_bit_mod unat_drop_bit_div) simp_all
  have "unat (drop_bit 8 v) < 256" using unat_lt [of v] unfolding d by simp
  then show ?thesis
    using unat_or_push [of "drop_bit 8 v" 8 "take_bit 8 v"] unfolding swab16_bytes a d by simp
qed

lemma div_65536: "(n::nat) div 65536 = n div 256 div 256"
  by (simp add: div_mult2_eq [symmetric])

lemma div_16777216: "(n::nat) div 16777216 = n div 256 div 256 div 256"
  by (simp add: div_mult2_eq [symmetric])

lemma digits4:
  fixes a b c d :: nat
  assumes "a < 256" "b < 256" "c < 256" "d < 256" and v: "v = 256 * (256 * (256 * a + b) + c) + d"
  shows "v mod 256 = d" "v div 256 mod 256 = c" "v div 65536 mod 256 = b" "v div 16777216 = a"
proof -
  have dm: "(256 * x + y) div 256 = x" "(256 * x + y) mod 256 = y" if "y < 256" for x y :: nat
    using that by simp_all
  note 1 = dm [OF assms(4)] dm [OF assms(3)] dm [OF assms(2)]
  show "v mod 256 = d" "v div 256 mod 256 = c" "v div 65536 mod 256 = b" "v div 16777216 = a"
    by (simp_all only: v div_65536 div_16777216 1)
qed

lemma length_bytes32 [simp]: "length (bytes32 v) = 4"
  by (simp add: bytes32_def)

lemma be_nat_bytes32: "be_nat (bytes32 v) = unat v"
proof -
  have u: "unat (ucast x :: u8) = unat x mod 256" for x :: u32
    by (simp add: unsigned_ucast_eq take_bit_eq_mod)
  have d: "unat (drop_bit 24 v) = unat v div 16777216" "unat (drop_bit 16 v) = unat v div 65536" "unat (drop_bit 8 v) = unat v div 256"
    by (simp_all only: unat_drop_bit_div) simp_all
  have top: "unat v div 256 div 256 div 256 < 256"
    using unat_lt_u32 [of v] by (simp add: div_mult2_eq [symmetric] less_mult_imp_div_less)
  have "be_nat (bytes32 v) = 256 * (256 * (256 * (unat v div 256 div 256 div 256) + unat v div 256 div 256 mod 256) + unat v div 256 mod 256) + unat v mod 256"
    using top by (simp only: bytes32_def list.map be_nat_def foldl.simps u d div_65536 div_16777216 drop_bit_0 id_apply mod_less) simp
  then show ?thesis by simp
qed

lemma be32_slice_bytes32: "slice off 4 bs = bytes32 v \<Longrightarrow> be32 bs off = v"
  by (simp add: be32_def be_nat_bytes32)

lemma swab32_be32:
  assumes "off + 4 \<le> length bs"
  shows "swab32 (be32 bs off) = le32 bs off"
proof -
  obtain a b c d where s: "slice off 4 bs = [a, b, c, d]" using slice4 [OF assms] by simp
  have lt: "unat a < 256" "unat b < 256" "unat c < 256" "unat d < 256"
    using unat_lt [of a] unat_lt [of b] unat_lt [of c] unat_lt [of d] by simp_all
  let ?v = "256 * (256 * (256 * unat a + unat b) + unat c) + unat d"
  have "be_nat [a, b, c, d] = ?v" by (simp add: be_nat_def)
  moreover have "unat (be32 bs off) = be_nat [a, b, c, d]"
    unfolding be32_def s by (rule be_nat_word32) simp
  ultimately have v: "unat (be32 bs off) = ?v" by simp
  have "unat (le32 bs off) = be_nat [d, c, b, a]"
    unfolding le32_def s le_nat_def by (simp only: rev.simps append.simps) (rule be_nat_word32, simp)
  then have "unat (le32 bs off) = 256 * (256 * (256 * unat d + unat c) + unat b) + unat a"
    by (simp add: be_nat_def)
  then have "unat (swab32 (be32 bs off)) = unat (le32 bs off)"
    unfolding unat_swab32 by (simp only: digits4 [OF lt v]) simp
  then show ?thesis by (simp only: word_unat_eq_iff)
qed

lemma swab16_be16:
  assumes "off + 2 \<le> length bs"
  shows "swab16 (be16 bs off) = le16 bs off"
proof -
  obtain a b where s: "slice off 2 bs = [a, b]" using slice2 [OF assms] by simp
  have lt: "unat a < 256" "unat b < 256"
    using unat_lt [of a] unat_lt [of b] by simp_all
  have "unat (be16 bs off) = be_nat [a, b]"
    unfolding be16_def s by (rule be_nat_word16) simp
  then have v: "unat (be16 bs off) = 256 * unat a + unat b" by (simp add: be_nat_def)
  have "unat (le16 bs off) = be_nat [b, a]"
    unfolding le16_def s le_nat_def by (simp only: rev.simps append.simps) (rule be_nat_word16, simp)
  then have "unat (le16 bs off) = 256 * unat b + unat a" by (simp add: be_nat_def)
  then have "unat (swab16 (be16 bs off)) = unat (le16 bs off)"
    unfolding unat_swab16 v using lt by simp
  then show ?thesis by (simp only: word_unat_eq_iff)
qed

lemma swab32_swab32: "swab32 (swab32 v) = v"
proof -
  have lt: "unat v mod 256 < 256" "unat v div 256 mod 256 < 256" "unat v div 65536 mod 256 < 256"
    "unat v div 16777216 < 256" using unat_lt [of v] by simp_all
  have "unat (swab32 v) = 256 * (256 * (256 * (unat v mod 256) + unat v div 256 mod 256)
     + unat v div 65536 mod 256) + unat v div 16777216"
    by (simp add: unat_swab32)
  note d = digits4 [OF lt this]
  have "unat (swab32 (swab32 v)) = unat v"
    unfolding unat_swab32 [of "swab32 v"] d
    using div_mult_mod_eq [of "unat v" 256] div_mult_mod_eq [of "unat v div 256" 256]
      div_mult_mod_eq [of "unat v div 256 div 256" 256]
    unfolding div_65536 div_16777216 by linarith
  then show ?thesis by (simp only: word_unat_eq_iff)
qed

section \<open>Decimal conversion\<close>

text \<open>
  The reference for \<open>strtol\<close>: a run of digits has the value that Horner's rule
  gives over the natural numbers, and a value that does not fit a signed word is
  clamped to its largest or smallest value.
\<close>

definition digit_of :: "nat \<Rightarrow> char \<Rightarrow> bool" where
  "digit_of base c \<longleftrightarrow> (case digit_val c of None \<Rightarrow> False | Some d \<Rightarrow> d < base)"

definition digits_value :: "nat \<Rightarrow> nat \<Rightarrow> string \<Rightarrow> nat" where
  "digits_value base n ds = foldl (\<lambda>n c. n * base + the (digit_val c)) n ds"

lemma digits_value_Nil [simp]: "digits_value base n [] = n"
  by (simp add: digits_value_def)

lemma digits_value_Cons [simp]:
  "digits_value base n (c # ds) = digits_value base (n * base + the (digit_val c)) ds"
  by (simp add: digits_value_def)

lemma digits_value_mono: "1 \<le> base \<Longrightarrow> n \<le> digits_value base n ds"
proof (induction ds arbitrary: n)
  case (Cons c ds)
  then have "n \<le> n * base" by simp
  then have "n \<le> n * base + the (digit_val c)" by linarith
  then show ?case using Cons.IH [OF Cons.prems, of "n * base + the (digit_val c)"]
    by simp
qed simp

lemma cutoff_iff:
  fixes n b d M :: nat
  assumes "d < b"
  shows "n > M div b \<or> (n = M div b \<and> d > M mod b) \<longleftrightarrow> n * b + d > M"
proof -
  have M: "M = M div b * b + M mod b" by simp
  have mb: "M mod b < b" using assms by simp
  consider "n < M div b" | "n = M div b" | "n > M div b" by linarith
  then show ?thesis
  proof cases
    case 1
    then have "Suc n * b \<le> M div b * b" by (intro mult_le_mono1) simp
    also have "M div b * b \<le> M" by simp
    finally have "n * b + d \<le> M" using assms by simp
    then show ?thesis using 1 by simp
  next
    case 2
    have "M < M div b * b + d \<longleftrightarrow> M mod b < d" by (metis M nat_add_left_cancel_less)
    with 2 show ?thesis by simp
  next
    case 3
    then have "Suc (M div b) * b \<le> n * b" by (intro mult_le_mono1) simp
    moreover have "M < M div b * b + b" using M mb by linarith
    ultimately have "M < n * b + d" by simp
    then show ?thesis using 3 by simp
  qed
qed

lemma cutoff_word_iff:
  fixes i :: u32
  assumes "d < base" and "base \<le> 36"
  shows "i > 0x7FFFFFFF div word_of_nat base \<or>
      (i = 0x7FFFFFFF div word_of_nat base \<and> word_of_nat d > (0x7FFFFFFF mod word_of_nat base :: u32))
    \<longleftrightarrow> unat i * base + d > 0x7FFFFFFF"
proof -
  have b: "unat (word_of_nat base :: u32) = base" and d: "unat (word_of_nat d :: u32) = d"
    using assms by (simp_all add: unat_word_of_nat_small)
  show ?thesis
    using cutoff_iff [OF assms(1), of "0x7FFFFFFF" "unat i"]
    by (simp add: word_less_nat_alt word_unat_eq_iff unat_div_distrib unat_mod_distrib b d)
qed

lemma strtol_loop_overflowed:
  "set ds \<subseteq> Collect (digit_of base) \<Longrightarrow> rest = [] \<or> \<not> digit_of base (hd rest) \<Longrightarrow>
   \<exists>j. strtol_loop base i True (ds @ rest) = (j, True, rest)"
proof (induction ds arbitrary: i)
  case Nil
  then show ?case by (cases rest) (auto simp: digit_of_def split: option.splits)
next
  case (Cons c ds)
  then show ?case by (auto simp: digit_of_def Let_def split: option.splits)
qed

lemma strtol_loop_digits:
  assumes "1 \<le> base" and "base \<le> 36"
    and "set ds \<subseteq> Collect (digit_of base)" and "rest = [] \<or> \<not> digit_of base (hd rest)"
    and "unat i \<le> 0x7FFFFFFF"
  shows "if digits_value base (unat i) ds \<le> 0x7FFFFFFF
    then strtol_loop base i False (ds @ rest) = (word_of_nat (digits_value base (unat i) ds), False, rest)
    else \<exists>j. strtol_loop base i False (ds @ rest) = (j, True, rest)"
  using assms(3,5)
proof (induction ds arbitrary: i)
  case Nil
  then show ?case using assms(4) by (cases rest) (auto simp: digit_of_def split: option.splits)
next
  case (Cons c ds)
  then obtain d where d: "digit_val c = Some d" "d < base"
    by (auto simp: digit_of_def split: option.splits)
  let ?n = "unat i * base + d"
  show ?case
  proof (cases "?n > 0x7FFFFFFF")
    case True
    then have "digits_value base (unat i) (c # ds) > 0x7FFFFFFF"
      using digits_value_mono [OF assms(1), of ?n ds] d by simp
    moreover have "strtol_loop base i False ((c # ds) @ rest) = strtol_loop base i True (ds @ rest)"
      using True d cutoff_word_iff [OF d(2) assms(2), of i] by (simp add: Let_def)
    ultimately show ?thesis
      using strtol_loop_overflowed [of ds base rest i] Cons.prems(1) assms(4) by simp
  next
    case False
    have "i * word_of_nat base + word_of_nat d = word_of_nat ?n" by simp
    then have n: "unat (i * word_of_nat base + word_of_nat d) = ?n"
      using False by (simp add: unat_word_of_nat_small del: of_nat_add of_nat_mult)
    have "strtol_loop base i False ((c # ds) @ rest)
        = strtol_loop base (i * word_of_nat base + word_of_nat d) False (ds @ rest)"
      using False d cutoff_word_iff [OF d(2) assms(2), of i] by (auto simp: Let_def)
    then show ?thesis
      using Cons.IH [of "i * word_of_nat base + word_of_nat d"] Cons.prems(1) False d
      unfolding n by simp
  qed
qed

lemma digit_of_not_space: "digit_of base c \<Longrightarrow> \<not> is_space c"
  by (auto simp: digit_of_def digit_val_def is_space_def ccode_def split: if_splits option.splits)

lemma digit_of_not_sign: "digit_of base c \<Longrightarrow> c \<noteq> CHR ''-'' \<and> c \<noteq> CHR ''+''"
  by (auto simp: digit_of_def digit_val_def ccode_def split: if_splits option.splits)

definition strtol_clamp :: "bool \<Rightarrow> nat \<Rightarrow> u32" where
  "strtol_clamp neg n =
     (if n \<le> 0x7FFFFFFF then if neg then - word_of_nat n else word_of_nat n
      else if neg then 0x80000000 else 0x7FFFFFFF)"

lemma strtol_base10:
  assumes "dropWhile is_space nptr = sg @ t" and "sg = [] \<or> sg = ''-'' \<or> sg = ''+''"
    and "t \<noteq> []" and "hd t \<noteq> CHR ''-''" and "hd t \<noteq> CHR ''+''"
    and "strtol_loop 10 0 False t = (i, ov, r)" and "length r \<noteq> length t"
  shows "strtol nptr 10 =
    (if ov then (if sg = ''-'' then 0x80000000 else 0x7FFFFFFF, r)
     else (if sg = ''-'' then - i else i, r))"
  using assms by (elim disjE) (simp_all add: strtol_def Let_def)

lemma strtol_decimal_core:
  assumes ws: "list_all is_space ws" and sg: "sg = [] \<or> sg = ''-'' \<or> sg = ''+''"
    and ds: "ds \<noteq> []" "list_all (digit_of 10) ds" and rest: "rest = [] \<or> \<not> digit_of 10 (hd rest)"
  shows "strtol (ws @ sg @ ds @ rest) 10
    = (strtol_clamp (sg = ''-'') (digits_value 10 0 ds), rest)"
proof -
  obtain c cs where ds': "ds = c # cs" using ds(1) by (cases ds) auto
  have c: "digit_of 10 c" using ds ds' by simp
  note c' = digit_of_not_space [OF c] digit_of_not_sign [OF c]
  have sgn: "\<not> is_space CHR ''-''" "\<not> is_space CHR ''+''" by (simp_all add: is_space_def ccode_def)
  have drop: "dropWhile is_space (ws @ sg @ ds @ rest) = sg @ ds @ rest"
    using ws sg c' sgn ds' by (auto simp: dropWhile_append list_all_iff)
  have sub: "set ds \<subseteq> Collect (digit_of 10)" using ds(2) by (auto simp: list_all_iff)
  have loop: "if digits_value 10 0 ds \<le> 0x7FFFFFFF
    then strtol_loop 10 0 False (ds @ rest) = (word_of_nat (digits_value 10 0 ds), False, rest)
    else \<exists>j. strtol_loop 10 0 False (ds @ rest) = (j, True, rest)"
    using strtol_loop_digits [OF _ _ sub rest, of 0] by simp
  have t: "ds @ rest \<noteq> []" "hd (ds @ rest) \<noteq> CHR ''-''" "hd (ds @ rest) \<noteq> CHR ''+''"
    "length rest \<noteq> length (ds @ rest)"
    using ds' c' by auto
  show ?thesis
  proof (cases "digits_value 10 0 ds \<le> 0x7FFFFFFF")
    case True
    with loop have "strtol_loop 10 0 False (ds @ rest)
      = (word_of_nat (digits_value 10 0 ds), False, rest)" by simp
    with True strtol_base10 [OF drop sg t(1-3) this t(4)] show ?thesis
      by (simp add: strtol_clamp_def)
  next
    case False
    with loop obtain j where "strtol_loop 10 0 False (ds @ rest) = (j, True, rest)" by auto
    with False strtol_base10 [OF drop sg t(1-3) this t(4)] show ?thesis
      by (simp add: strtol_clamp_def)
  qed
qed
text \<open>
  Property C22: base-10 \<open>strtol\<close> on white space, an optional sign, a non-empty run of
  digits and a tail that does not start with a digit returns the value of the
  digits with that sign, clamped to the range of a 32-bit \<open>int\<close> on overflow, and
  leaves the end pointer at the tail.
\<close>

theorem strtol_decimal:
  assumes "list_all is_space ws" and "sg = [] \<or> sg = ''-'' \<or> sg = ''+''"
    and "ds \<noteq> []" and "list_all (digit_of 10) ds"
    and "rest = [] \<or> \<not> digit_of 10 (hd rest)"
  shows "strtol (ws @ sg @ ds @ rest) 10
    = (strtol_clamp (sg = ''-'') (digits_value 10 0 ds), rest)"
  using assms by (rule strtol_decimal_core)

theorem strtol_decimal_witness:
  "strtol (''  '' @ ''-'' @ ''42'' @ ''/x'') 10 = (- 42, ''/x'')"
proof -
  have "digits_value 10 0 ''42'' = 42"
    by (simp add: digit_val_def ccode_def)
  then show ?thesis
    using strtol_decimal [of "''  ''" "''-''" "''42''" "''/x''"]
    by (simp add: is_space_def digit_of_def digit_val_def ccode_def strtol_clamp_def)
qed

end
