(* ===== verification/Malloc.thy ===== *)
theory Malloc
  imports Util
begin

text \<open>
  The bump allocator of \<^verbatim>\<open>loader/malloc.c\<close>: a block is a header word with its size
  followed by its bytes, blocks are handed out upwards from \<open>malloc_ptr\<close>, and
  \<open>free\<close> gives space back only for the most recent allocation.  Addresses are
  32-bit words with their wrap-around.

  The locale \<open>allocator\<close> states what the rest of the loader relies on; its
  interpretation on \<open>malloc\<close> and \<open>free\<close> discharges the laws for the code, under
  the condition the code itself does not check: that the requested size does not
  wrap the address sum.
\<close>

section \<open>Memory\<close>

type_synonym ram = "u32 \<Rightarrow> u8"

definition load32 :: "ram \<Rightarrow> u32 \<Rightarrow> u32" where
  "load32 m a = be32 [m a, m (a + 1), m (a + 2), m (a + 3)] 0"

definition store32 :: "u32 \<Rightarrow> u32 \<Rightarrow> ram \<Rightarrow> ram" where
  "store32 a v m = m(a := ucast (drop_bit 24 v), a + 1 := ucast (drop_bit 16 v),
     a + 2 := ucast (drop_bit 8 v), a + 3 := ucast v)"

definition memcpy :: "u32 \<Rightarrow> u32 \<Rightarrow> u32 \<Rightarrow> ram \<Rightarrow> ram" where
  "memcpy dest src n m = (\<lambda>a. if a - dest < n then m (src + (a - dest)) else m a)"

section \<open>The allocator\<close>

record heap =
  malloc_ptr :: u32
  malloc_end :: u32
  last_alloc :: u32
  ram :: ram

definition malloc :: "u32 \<Rightarrow> heap \<Rightarrow> u32 \<times> heap" where
  "malloc sz h =
     (if malloc_ptr h + sz + 4 \<ge> malloc_end h then (0, h)
      else
        (let caddr = malloc_ptr h + 4;
             p = malloc_ptr h + (sz + 4)
         in (caddr, h\<lparr>ram := store32 (malloc_ptr h) sz (ram h),
                      last_alloc := caddr,
                      malloc_ptr := (p + 3) AND NOT 3\<rparr>)))"

definition realloc :: "u32 \<Rightarrow> u32 \<Rightarrow> heap \<Rightarrow> u32 \<times> heap" where
  "realloc ptr sz h =
     (if ptr = last_alloc h then
        (ptr, h\<lparr>ram := store32 (ptr - 4) sz (ram h), malloc_ptr := ptr + sz\<rparr>)
      else
        (case malloc sz h of (caddr, h') \<Rightarrow>
           (caddr,
            if caddr \<noteq> 0 \<and> ptr \<noteq> 0
            then h'\<lparr>ram := memcpy caddr ptr (load32 (ram h') (ptr - 4)) (ram h')\<rparr>
            else h')))"

definition free :: "u32 \<Rightarrow> heap \<Rightarrow> heap" where
  "free m h = (if m = last_alloc h then h\<lparr>malloc_ptr := last_alloc h - 4\<rparr> else h)"

definition mark :: "heap \<Rightarrow> u32" where
  "mark h = malloc_ptr h"

definition release :: "u32 \<Rightarrow> heap \<Rightarrow> heap" where
  "release ptr h = h\<lparr>malloc_ptr := ptr\<rparr>"

text \<open>
  \<open>strdup\<close> of \<^verbatim>\<open>util.c\<close> does not test the allocation: a null result has been
  copied through.  The model keeps the value of the string and the address.
\<close>

definition strdup :: "string \<Rightarrow> heap \<Rightarrow> u32 \<times> heap" where
  "strdup s h = malloc (word_of_nat (length s + 1)) h"

section \<open>The contract of an allocator\<close>

text \<open>A block is its address and its size; live blocks are listed newest first.\<close>

type_synonym block = "nat \<times> nat"

definition disjoint_blocks :: "block \<Rightarrow> block \<Rightarrow> bool" where
  "disjoint_blocks b c \<longleftrightarrow> fst b + snd b \<le> fst c \<or> fst c + snd c \<le> fst b"

datatype heap_op = Alloc u32 | Free u32

definition live_after :: "block list \<Rightarrow> u32 \<Rightarrow> block list" where
  "live_after L p = filter (\<lambda>b. fst b \<noteq> unat p) L"

text \<open>
  A client runs allocations of small sizes and frees of live blocks.  A failed
  allocation leaves the live blocks as they are; a free of an address that is not
  live is not a run.
\<close>

fun run_ops :: "(u32 \<Rightarrow> 'h \<Rightarrow> u32 \<times> 'h) \<Rightarrow> (u32 \<Rightarrow> 'h \<Rightarrow> 'h) \<Rightarrow> (u32 \<Rightarrow> bool) \<Rightarrow>
    heap_op list \<Rightarrow> 'h \<times> block list \<Rightarrow> ('h \<times> block list) option" where
  "run_ops alloc dealloc small [] s = Some s"
| "run_ops alloc dealloc small (Alloc n # ops) (h, L) =
     (if small n then
        (case alloc n h of (p, h') \<Rightarrow>
           run_ops alloc dealloc small ops (h', if p = 0 then L else (unat p, unat n) # L))
      else None)"
| "run_ops alloc dealloc small (Free p # ops) (h, L) =
     (if unat p \<in> fst ` set L
      then run_ops alloc dealloc small ops (dealloc p h, live_after L p) else None)"

locale allocator =
  fixes alloc :: "u32 \<Rightarrow> 'h \<Rightarrow> u32 \<times> 'h"
    and dealloc :: "u32 \<Rightarrow> 'h \<Rightarrow> 'h"
    and small :: "u32 \<Rightarrow> bool"
    and arena :: "nat \<times> nat"
    and inv :: "'h \<Rightarrow> block list \<Rightarrow> bool"
  assumes alloc_block: "inv h L \<Longrightarrow> small n \<Longrightarrow> alloc n h = (p, h') \<Longrightarrow> p \<noteq> 0 \<Longrightarrow>
      inv h' ((unat p, unat n) # L)"
    and alloc_null: "alloc n h = (0, h') \<Longrightarrow> inv h L \<Longrightarrow> inv h' L"
    and dealloc_block: "inv h L \<Longrightarrow> unat p \<in> fst ` set L \<Longrightarrow> inv (dealloc p h) (live_after L p)"
    and inv_disjoint: "inv h L \<Longrightarrow> sorted_wrt disjoint_blocks L"
    and inv_inside: "inv h L \<Longrightarrow> (a, k) \<in> set L \<Longrightarrow> fst arena \<le> a \<and> a + k \<le> snd arena \<and> 4 dvd a"
begin

lemma run_inv: "inv h L \<Longrightarrow> run_ops alloc dealloc small ops (h, L) = Some (h', L') \<Longrightarrow> inv h' L'"
proof (induction ops arbitrary: h L)
  case (Cons x ops)
  then show ?case
    by (cases x)
      (auto split: if_splits prod.splits dest: alloc_block alloc_null dealloc_block)
qed simp

lemma run_safe:
  assumes "inv h L" and "run_ops alloc dealloc small ops (h, L) = Some (h', L')"
  shows "sorted_wrt disjoint_blocks L'"
    and "(a, n) \<in> set L' \<Longrightarrow> fst arena \<le> a \<and> a + n \<le> snd arena \<and> 4 dvd a"
  using run_inv [OF assms] by (simp_all add: inv_disjoint inv_inside)

end

section \<open>The loader's allocator keeps the contract\<close>

text \<open>
  Blocks lie below the bump pointer, each above the header of the next older one.
  The most recent allocation, if it is still live, is the newest block.
\<close>

fun blocks_below :: "nat \<Rightarrow> nat \<Rightarrow> block list \<Rightarrow> bool" where
  "blocks_below lo p [] \<longleftrightarrow> lo \<le> p"
| "blocks_below lo p (b # L) \<longleftrightarrow>
     fst b + snd b \<le> p \<and> 4 \<le> fst b \<and> 4 dvd fst b \<and> blocks_below lo (fst b - 4) L"

definition heap_inv :: "nat \<Rightarrow> nat \<Rightarrow> heap \<Rightarrow> block list \<Rightarrow> bool" where
  "heap_inv lo hi h L \<longleftrightarrow>
     unat (malloc_end h) = hi \<and> hi \<le> 0x7FFFFFF0 \<and> 4 dvd hi
     \<and> 4 dvd unat (malloc_ptr h) \<and> unat (malloc_ptr h) \<le> hi
     \<and> blocks_below lo (unat (malloc_ptr h)) L
     \<and> (unat (last_alloc h) \<in> fst ` set L \<longrightarrow> fst (hd L) = unat (last_alloc h))"

definition small_size :: "u32 \<Rightarrow> bool" where
  "small_size n \<longleftrightarrow> unat n < 0x80000000"

lemma blocks_below_mono: "blocks_below lo p L \<Longrightarrow> p \<le> q \<Longrightarrow> blocks_below lo q L"
  by (cases L) auto

lemma blocks_below_lo: "blocks_below lo p L \<Longrightarrow> lo \<le> p"
proof (induction L arbitrary: p)
  case (Cons b L)
  from Cons.prems have "lo \<le> fst b - 4" by (intro Cons.IH) simp
  moreover from Cons.prems have "fst b + snd b \<le> p" by simp
  ultimately show ?case by linarith
qed simp

lemma blocks_below_mem:
  "blocks_below lo p L \<Longrightarrow> b \<in> set L \<Longrightarrow> lo + 4 \<le> fst b \<and> fst b + snd b \<le> p \<and> 4 dvd fst b"
proof (induction L arbitrary: p)
  case (Cons c L)
  show ?case
  proof (cases "b = c")
    case True
    from Cons.prems have "lo \<le> fst c - 4" "4 \<le> fst c" by (auto intro: blocks_below_lo)
    with True Cons.prems show ?thesis by auto
  next
    case False
    with Cons.prems have "lo + 4 \<le> fst b \<and> fst b + snd b \<le> fst c - 4 \<and> 4 dvd fst b"
      by (intro Cons.IH) auto
    with Cons.prems show ?thesis by auto
  qed
qed simp

lemma blocks_below_disjoint: "blocks_below lo p L \<Longrightarrow> sorted_wrt disjoint_blocks L"
proof (induction L arbitrary: p)
  case (Cons c L)
  have "disjoint_blocks c b" if "b \<in> set L" for b
  proof -
    have "fst b + snd b \<le> fst c - 4"
      using blocks_below_mem [of lo "fst c - 4" L b] Cons.prems that by simp
    then have "fst b + snd b \<le> fst c" by linarith
    then show ?thesis by (simp add: disjoint_blocks_def)
  qed
  moreover have "sorted_wrt disjoint_blocks L"
    using Cons.prems by (intro Cons.IH [of "fst c - 4"]) simp
  ultimately show ?case by simp
qed simp

lemma blocks_below_filter: "blocks_below lo p L \<Longrightarrow> blocks_below lo p (filter P L)"
proof (induction L arbitrary: p)
  case (Cons c L)
  then have "blocks_below lo (fst c - 4) (filter P L)" by simp
  then show ?case
    using Cons.prems by (auto intro: blocks_below_mono)
qed simp

lemma unat_round4:
  fixes p :: u32
  assumes "unat p + 3 < 2 ^ 32"
  shows "unat ((p + 3) AND NOT 3) = (unat p + 3) div 4 * 4"
proof -
  have "unat (p + 3) = unat p + 3" using assms unat_plus_no_wrap [of p 3] by simp
  moreover have "(3 :: u32) = mask 2" by (simp add: mask_eq_exp_minus_1)
  ultimately show ?thesis
    using unat_align_down [of 2 "p + 3"] by (simp add: minus_mod_eq_div_mult)
qed

lemma malloc_result:
  assumes inv: "heap_inv lo hi h L" and small: "small_size n" and m: "malloc n h = (p, h')" and "p \<noteq> 0"
  shows "unat p = unat (malloc_ptr h) + 4" and "unat p + unat n < hi"
    and "unat (malloc_ptr h') = (unat p + unat n + 3) div 4 * 4"
    and "last_alloc h' = p" and "malloc_end h' = malloc_end h"
proof -
  let ?q = "malloc_ptr h"
  have bnd: "unat ?q \<le> hi" "hi \<le> 0x7FFFFFF0" "unat n < 0x80000000" "unat (malloc_end h) = hi"
    using inv small by (auto simp: heap_inv_def small_size_def)
  have qn: "unat (?q + n) = unat ?q + unat n" using bnd by (intro unat_plus_no_wrap) simp
  have qn4: "unat (?q + n + 4) = unat ?q + unat n + 4"
    using bnd qn unat_plus_no_wrap [of "?q + n" 4] by simp
  have lt: "\<not> ?q + n + 4 \<ge> malloc_end h" and h': "p = ?q + 4"
    "h' = h\<lparr>ram := store32 ?q n (ram h), last_alloc := ?q + 4, malloc_ptr := (?q + (n + 4) + 3) AND NOT 3\<rparr>"
    using m \<open>p \<noteq> 0\<close> by (auto simp: malloc_def Let_def split: if_splits)
  then show "last_alloc h' = p" "malloc_end h' = malloc_end h" by simp_all
  show p: "unat p = unat ?q + 4" using bnd h'(1) unat_plus_no_wrap [of ?q 4] by simp
  show "unat p + unat n < hi" using lt qn4 p bnd(4) by (simp add: word_le_nat_alt)
  then show "unat (malloc_ptr h') = (unat p + unat n + 3) div 4 * 4"
    using h'(2) qn4 p bnd unat_round4 [of "?q + n + 4"] by (simp add: ac_simps)
qed

interpretation bump: allocator malloc free small_size "(lo, hi)" "heap_inv lo hi" for lo hi
proof
  fix h h' :: heap and L :: "block list" and n p :: u32
  assume inv: "heap_inv lo hi h L" and "small_size n" and "malloc n h = (p, h')" and "p \<noteq> 0"
  note r = malloc_result [OF this]
  have q: "4 dvd unat (malloc_ptr h)" "4 dvd hi" using inv by (auto simp: heap_inv_def)
  have "4 dvd unat p" using q(1) r(1) by simp
  moreover have "unat p + unat n \<le> unat (malloc_ptr h')" unfolding r(3) by presburger
  moreover have "unat (malloc_ptr h') \<le> hi" using r(2) q(2) unfolding r(3) by presburger
  moreover have "4 dvd unat (malloc_ptr h')" unfolding r(3) by simp
  ultimately show "heap_inv lo hi h' ((unat p, unat n) # L)"
    using inv r by (auto simp: heap_inv_def)
next
  fix h h' :: heap and L :: "block list" and n :: u32
  assume inv: "heap_inv lo hi h L" and m: "malloc n h = (0, h')"
  show "heap_inv lo hi h' L"
  proof (cases "malloc_ptr h + n + 4 \<ge> malloc_end h")
    case True
    with m inv show ?thesis by (simp add: malloc_def)
  next
    case False
    with m have "malloc_ptr h + 4 = 0" by (simp add: malloc_def Let_def)
    moreover have "unat (malloc_ptr h + 4) = unat (malloc_ptr h) + 4"
      using inv unat_plus_no_wrap [of "malloc_ptr h" 4] by (simp add: heap_inv_def)
    ultimately show ?thesis by simp
  qed
next
  fix h :: heap and L :: "block list" and p :: u32
  assume inv: "heap_inv lo hi h L" and p: "unat p \<in> fst ` set L"
  show "heap_inv lo hi (free p h) (live_after L p)"
  proof (cases "p = last_alloc h")
    case False
    then have "fst (hd L) = unat (last_alloc h) \<Longrightarrow> hd (live_after L p) = hd L"
      using p by (cases L) (auto simp: live_after_def word_unat_eq_iff)
    with inv p False show ?thesis
      by (auto simp: heap_inv_def free_def live_after_def intro: blocks_below_filter)
  next
    case True
    with inv p obtain b L' where L: "L = b # L'" and b: "fst b = unat p"
      by (cases L) (auto simp: heap_inv_def)
    have bb: "blocks_below lo (unat p - 4) L'" "fst b + snd b \<le> unat (malloc_ptr h)" "4 \<le> unat p" "4 dvd unat p"
      using inv L b by (auto simp: heap_inv_def)
    have old: "fst c \<noteq> unat p" if "c \<in> set L'" for c
      using blocks_below_mem [OF bb(1) that] bb(3) by linarith
    then have "live_after L p = L'" using L b by (auto simp: live_after_def filter_id_conv)
    moreover have "unat (p - 4) = unat p - 4" using bb(3) by (simp add: unat_sub word_le_nat_alt)
    moreover have "unat p \<notin> fst ` set L'" using old by fastforce
    ultimately show ?thesis
      using inv True bb(1,3,4) b unfolding heap_inv_def free_def L by auto
  qed
next
  fix h :: heap and L :: "block list"
  assume "heap_inv lo hi h L"
  then show "sorted_wrt disjoint_blocks L"
    by (auto simp: heap_inv_def intro: blocks_below_disjoint)
next
  fix h :: heap and L :: "block list" and a n :: nat
  assume "heap_inv lo hi h L" and "(a, n) \<in> set L"
  then show "fst (lo, hi) \<le> a \<and> a + n \<le> snd (lo, hi) \<and> 4 dvd a"
    using blocks_below_mem [of lo "unat (malloc_ptr h)" L "(a, n)"] by (auto simp: heap_inv_def)
qed

section \<open>Room in the heap\<close>

text \<open>At least \<open>k\<close> bytes are left, and the last allocation is not ahead of the pointer.\<close>

definition roomy :: "nat \<Rightarrow> heap \<Rightarrow> bool" where
  "roomy k h \<longleftrightarrow> unat (malloc_ptr h) + k < unat (malloc_end h)
     \<and> (last_alloc h = 0 \<or> 4 \<le> unat (last_alloc h)) \<and> unat (last_alloc h) \<le> unat (malloc_ptr h) + 4"

lemma roomy_mono: "roomy k h \<Longrightarrow> j \<le> k \<Longrightarrow> roomy j h"
  by (simp add: roomy_def)

lemma malloc_roomy:
  assumes "roomy (k + unat n + 8) h"
  obtains h' where "malloc n h = (malloc_ptr h + 4, h')" "malloc_ptr h + 4 \<noteq> 0" "roomy k h'"
proof -
  let ?q = "malloc_ptr h"
  have b: "unat ?q + k + unat n + 8 < unat (malloc_end h)" using assms by (simp add: roomy_def)
  note e = unat_lt_u32 [of "malloc_end h"]
  have q4: "unat (?q + 4) = unat ?q + 4" using b e unat_plus_no_wrap [of ?q 4] by simp
  have qn: "unat (?q + n) = unat ?q + unat n" using b e by (intro unat_plus_no_wrap) simp
  have qn4: "unat (?q + n + 4) = unat ?q + unat n + 4"
    using b e qn unat_plus_no_wrap [of "?q + n" 4] by simp
  let ?h = "h\<lparr>ram := store32 ?q n (ram h), last_alloc := ?q + 4, malloc_ptr := (?q + n + 4 + 3) AND NOT 3\<rparr>"
  have "malloc n h = (?q + 4, ?h)"
    using b qn4 by (simp add: malloc_def Let_def word_le_nat_alt ac_simps)
  moreover have "?q + 4 \<noteq> 0" using q4 by (metis add_is_0 unat_0 zero_neq_numeral)
  moreover have "unat ((?q + n + 4 + 3) AND NOT 3) = (unat ?q + unat n + 7) div 4 * 4"
    using b e qn4 unat_round4 [of "?q + n + 4"] by simp
  then have "roomy k ?h" using b q4 by (auto simp: roomy_def)
  ultimately show thesis by (rule that)
qed

lemma free_roomy: "roomy k h \<Longrightarrow> p \<noteq> 0 \<Longrightarrow> roomy k (free p h)"
  by (auto simp: roomy_def free_def unat_sub word_le_nat_alt)

section \<open>Properties\<close>

text \<open>The heap as \<open>malloc_init\<close> leaves it.\<close>

definition heap_start :: "ram \<Rightarrow> heap" where
  "heap_start m = \<lparr>malloc_ptr = MALLOC_BASE, malloc_end = MALLOC_BASE + MALLOC_SIZE,
     last_alloc = 0, ram = m\<rparr>"

lemma heap_start_inv: "heap_inv 0x500000 0x800000 (heap_start m) []"
  by (simp add: heap_inv_def heap_start_def layout_defs)

text \<open>
  Property C9: from the initial heap, after any sequence of allocations of sizes
  below 2 GB and frees of live blocks, the live blocks are pairwise disjoint,
  word-aligned and inside the claimed arena.
\<close>

theorem malloc_blocks_disjoint:
  assumes "run_ops malloc free small_size ops (heap_start m, []) = Some (h, L)"
  shows "sorted_wrt disjoint_blocks L
    \<and> (\<forall>(a, n) \<in> set L. 0x500000 \<le> a \<and> a + n \<le> 0x800000 \<and> 4 dvd a)"
  using bump.run_safe [OF heap_start_inv assms] by auto

theorem malloc_blocks_disjoint_witness:
  "\<exists>h L. run_ops malloc free small_size [Alloc 5, Alloc 100, Free 0x500004, Alloc 7]
       (heap_start (\<lambda>_. 0), []) = Some (h, L)
     \<and> L = [(0x500078, 7), (0x500010, 100)] \<and> sorted_wrt disjoint_blocks L"
proof -
  obtain h L where r: "run_ops malloc free small_size [Alloc 5, Alloc 100, Free 0x500004, Alloc 7]
        (heap_start (\<lambda>_. 0), []) = Some (h, L)"
    and L: "L = [(0x500078, 7), (0x500010, 100)]"
    by (simp add: malloc_def free_def heap_start_def small_size_def layout_defs live_after_def Let_def)
  then show ?thesis using malloc_blocks_disjoint [OF r] by blast
qed

text \<open>
  The out-of-memory test computes \<open>malloc_ptr + size + 4\<close> in 32 bits, so
  every request whose sum wraps passes it: the request succeeds although no arena
  could hold it.
\<close>

lemma malloc_size_wraps:
  assumes "unat (malloc_ptr h) + unat n + 4 \<ge> 2 ^ 32"
    and "unat (malloc_ptr h) \<le> unat (malloc_end h)"
    and "unat n < 2 ^ 32 - 4"
  shows "fst (malloc n h) = malloc_ptr h + 4"
proof -
  let ?q = "unat (malloc_ptr h)"
  have "unat (malloc_ptr h + n + 4) = (?q + unat n + 4) mod 2 ^ 32"
    by (simp add: unat_word_ariths mod_simps)
  also have "\<dots> < ?q"
    using assms(1,3) unat_lt_u32 [of "malloc_ptr h"] by (simp add: le_mod_geq mod_less)
  finally have "\<not> malloc_end h \<le> malloc_ptr h + n + 4"
    using assms(2) by (simp add: word_le_nat_alt)
  then show ?thesis by (simp add: malloc_def Let_def)
qed

end
