(* ===== verification/Cfg.thy ===== *)
theory Cfg
  imports Malloc
begin

text \<open>
  The configuration file (\<^verbatim>\<open>loader/cfg.c\<close>): the tokenizer with its one character of
  push-back, the item parser, the option tables and the lookups.

  A character read is \<open>None\<close> at end of input.  A token is its address and its
  text.  \<open>cfg_error\<close> leaves the parser through \<open>longjmp\<close>: it is the error value
  \<open>Cfg_error\<close>, with the state as it was when it was raised.  Where the code would
  write through the null result of a failed allocation the model stops with
  \<open>Null_write\<close>.  A read through a null pointer reads the string that lies at address
  0, which is the parameter \<open>nul0\<close>.
\<close>

section \<open>Tables and parser state\<close>

datatype CONFIG_TYPE = cft_strg | cft_flag

record CONFIG =
  cf_type :: CONFIG_TYPE
  cf_name :: string
  cf_data :: "string option"

type_synonym tok = "u32 \<times> string"

definition strg :: "string \<Rightarrow> CONFIG" where
  "strg n = \<lparr>cf_type = cft_strg, cf_name = n, cf_data = None\<rparr>"

definition flg :: "string \<Rightarrow> CONFIG" where
  "flg n = \<lparr>cf_type = cft_flag, cf_name = n, cf_data = None\<rparr>"

definition cf_options0 :: "CONFIG list" where
  "cf_options0 =
    [strg ''device'', strg ''partition'', strg ''default'', strg ''timeout'',
     strg ''message'', strg ''root'', strg ''ramdisk'', flg ''read-only'',
     flg ''read-write'', strg ''append'', strg ''initrd'', strg ''initrd-size'',
     flg ''pause-after'', strg ''pause-message'', strg ''init-code'',
     strg ''init-message'']"

definition cf_image0 :: "CONFIG list" where
  "cf_image0 =
    [strg ''image'', strg ''label'', strg ''alias'', strg ''device'',
     strg ''partition'', strg ''root'', strg ''ramdisk'', flg ''read-only'',
     flg ''read-write'', strg ''append'', strg ''literal'', strg ''initrd'',
     flg ''old-kernel'', flg ''pause-after'', strg ''pause-message'']"

text \<open>
  \<open>curr_table\<close> is false while it points at the global options and true once it points
  at the table of the last image.  \<open>cfg_bits\<close> stands for \<open>bi->flags\<close>, into which an
  image sets \<open>HAVE_IMAGES\<close>.  Diagnostics are collected with their kind and line number.
\<close>

record cfg =
  file_name :: "string option"
  cf_options :: "CONFIG list"
  images :: "CONFIG list list"
  curr_image :: bool
  last_token :: "tok option"
  last_item :: "tok option"
  last_value :: "tok option"
  line_num :: nat
  pback :: "char option option"
  inp :: string
  cfg_heap :: heap
  cfg_bits :: u32
  cfg_msgs :: "(string \<times> string \<times> nat) list"

datatype cfg_fail = Cfg_error string | Null_write

definition cfg_start :: "heap \<Rightarrow> u32 \<Rightarrow> string \<Rightarrow> cfg" where
  "cfg_start h bits text =
     \<lparr>file_name = None, cf_options = cf_options0, images = [], curr_image = False, last_token = None,
      last_item = None, last_value = None, line_num = 0, pback = None, inp = text,
      cfg_heap = h, cfg_bits = bits, cfg_msgs = []\<rparr>"

definition cfg_error :: "string \<Rightarrow> cfg \<Rightarrow> (cfg_fail + 'a) \<times> cfg" where
  "cfg_error msg s = (Inl (Cfg_error msg), s\<lparr>cfg_msgs := cfg_msgs s @ [(''Config file error: '', msg, line_num s)]\<rparr>)"

definition cfg_warn :: "string \<Rightarrow> cfg \<Rightarrow> cfg" where
  "cfg_warn msg s = s\<lparr>cfg_msgs := cfg_msgs s @ [(''Config file warning: '', msg, line_num s)]\<rparr>"

section \<open>Characters\<close>

definition getc :: "cfg \<Rightarrow> char option \<times> cfg" where
  "getc s = (case inp s of [] \<Rightarrow> (None, s) | c # r \<Rightarrow> (Some c, s\<lparr>inp := r\<rparr>))"

definition next_ch :: "cfg \<Rightarrow> char option \<times> cfg" where
  "next_ch s = (case pback s of None \<Rightarrow> getc s | Some ch \<Rightarrow> (ch, s\<lparr>pback := None\<rparr>))"

text \<open>\<open>back\<close> is an \<open>int\<close> whose 0 means that nothing was pushed back, so a NUL is lost.\<close>

definition again :: "char option \<Rightarrow> cfg \<Rightarrow> cfg" where
  "again ch s = s\<lparr>pback := (if ch = Some NUL then None else Some ch)\<rparr>"

text \<open>How many characters are still to be read.\<close>

definition todo :: "cfg \<Rightarrow> nat" where
  "todo s = length (inp s) + (case pback s of Some (Some c) \<Rightarrow> 1 | _ \<Rightarrow> 0)"

lemma next_ch_todo:
  "next_ch s = (ch, s') \<Longrightarrow> todo s' + (case ch of None \<Rightarrow> 0 | Some c \<Rightarrow> 1) \<le> todo s"
  by (auto simp: next_ch_def getc_def todo_def split: option.splits list.splits)

lemma next_ch_todo_Some: "next_ch s = (Some c, s') \<Longrightarrow> todo s' < todo s"
  using next_ch_todo [of s "Some c" s'] by simp

lemma todo_again: "pback s = None \<Longrightarrow> todo (again ch s) \<le> todo s + (case ch of None \<Rightarrow> 0 | Some c \<Rightarrow> 1)"
  by (auto simp: again_def todo_def split: option.splits)

lemma next_ch_pback: "next_ch s = (ch, s') \<Longrightarrow> pback s' = None"
  by (auto simp: next_ch_def getc_def split: option.splits list.splits)

lemma todo_simps [simp]:
  "todo (s\<lparr>line_num := n\<rparr>) = todo s" "todo (s\<lparr>last_token := t\<rparr>) = todo s"
  "todo (s\<lparr>last_item := t\<rparr>) = todo s" "todo (s\<lparr>last_value := t\<rparr>) = todo s"
  "todo (s\<lparr>cfg_heap := h\<rparr>) = todo s" "todo (s\<lparr>cfg_msgs := m\<rparr>) = todo s"
  "todo (s\<lparr>cfg_bits := b\<rparr>) = todo s" "todo (s\<lparr>images := i\<rparr>) = todo s"
  "todo (s\<lparr>file_name := f\<rparr>) = todo s" "todo (s\<lparr>curr_image := c\<rparr>) = todo s" "todo (s\<lparr>cf_options := c'\<rparr>) = todo s"
  by (simp_all add: todo_def)

section \<open>Tokens\<close>

definition is_blank :: "char option \<Rightarrow> bool" where
  "is_blank ch \<longleftrightarrow> ch = Some CHR '' '' \<or> ch = Some TAB \<or> ch = Some LF"

function skip_blank :: "cfg \<Rightarrow> char option \<times> cfg" where
  "skip_blank s =
     (case next_ch s of (ch, s') \<Rightarrow>
        if is_blank ch
        then skip_blank (if ch = Some LF then s'\<lparr>line_num := line_num s' + 1\<rparr> else s')
        else (ch, s'))"
  by pat_completeness auto
termination
  by (relation "measure todo") (auto simp: is_blank_def dest!: sym [of _ "next_ch _"] next_ch_todo_Some)

text \<open>The rest of a comment line; false at end of input.\<close>

function skip_comment :: "cfg \<Rightarrow> bool \<times> cfg" where
  "skip_comment s =
     (case next_ch s of (ch, s') \<Rightarrow>
        if ch = Some LF then (True, s'\<lparr>line_num := line_num s' + 1\<rparr>)
        else if ch = None then (False, s')
        else skip_comment s')"
  by pat_completeness auto
termination
  by (relation "measure todo") (auto dest!: sym [of _ "next_ch _"] next_ch_todo_Some)

declare skip_blank.simps [simp del] skip_comment.simps [simp del]

lemma skip_blank_todo:
  "skip_blank s = (ch, s') \<Longrightarrow> todo s' + (case ch of None \<Rightarrow> 0 | Some c \<Rightarrow> 1) \<le> todo s"
proof (induction s rule: skip_blank.induct)
  case (1 s)
  obtain c t where n: "next_ch s = (c, t)" by fastforce
  note le = next_ch_todo [OF n]
  show ?case
  proof (cases "is_blank c")
    case True
    then have "todo s' + (case ch of None \<Rightarrow> 0 | Some c \<Rightarrow> 1) \<le> todo t"
      using "1.IH" [OF n [symmetric]] "1.prems" n
      by (simp add: skip_blank.simps [of s] split: if_splits)
    with le show ?thesis by linarith
  next
    case False
    with n "1.prems" le show ?thesis by (simp add: skip_blank.simps [of s])
  qed
qed

lemma skip_comment_todo: "skip_comment s = (b, s') \<Longrightarrow> todo s' \<le> todo s"
proof (induction s rule: skip_comment.induct)
  case (1 s)
  obtain c t where n: "next_ch s = (c, t)" by fastforce
  have "todo t \<le> todo s" using next_ch_todo [OF n] by linarith
  then show ?case
    using "1.IH" [OF n [symmetric]] "1.prems" n
    by (cases c) (auto simp: skip_comment.simps [of s] split: if_splits)
qed

function skip_to_token :: "cfg \<Rightarrow> char option \<times> cfg" where
  "skip_to_token s =
     (case skip_blank s of (ch, s') \<Rightarrow>
        if ch = Some CHR ''#'' then
          (case skip_comment s' of (cont, s'') \<Rightarrow>
             if cont then skip_to_token s'' else (None, s''))
        else (ch, s'))"
  by pat_completeness auto
termination
proof (relation "measure todo")
  fix s x s' xa s''
  assume "(x, s') = skip_blank s" and "x = Some CHR ''#''" and "(xa, s'') = skip_comment s'"
  then show "(s'', s) \<in> measure todo"
    using skip_blank_todo [of s x s'] skip_comment_todo [of s' xa s''] by simp
qed simp

declare skip_to_token.simps [simp del]

lemma skip_to_token_todo:
  "skip_to_token s = (ch, s') \<Longrightarrow> todo s' + (case ch of None \<Rightarrow> 0 | Some c \<Rightarrow> 1) \<le> todo s"
proof (induction s rule: skip_to_token.induct)
  case (1 s)
  obtain c t where b: "skip_blank s = (c, t)" by fastforce
  obtain m u where k: "skip_comment t = (m, u)" by fastforce
  note le = skip_blank_todo [OF b] skip_comment_todo [OF k]
  show ?case
  proof (cases "c = Some CHR ''#'' \<and> m")
    case True
    then have "todo s' + (case ch of None \<Rightarrow> 0 | Some c \<Rightarrow> 1) \<le> todo u"
      using "1.IH" [OF b [symmetric] _ k [symmetric]] "1.prems" b k
      by (simp add: skip_to_token.simps [of s])
    with le show ?thesis by linarith
  next
    case False
    with b k "1.prems" le show ?thesis
      by (auto simp: skip_to_token.simps [of s] split: if_splits)
  qed
qed

definition MAX_TOKEN :: nat where
  "MAX_TOKEN = 200"

text \<open>Blanks after a line continuation in a quoted string.\<close>

function skip_sp :: "cfg \<Rightarrow> char option \<times> cfg" where
  "skip_sp s =
     (case next_ch s of (ch, s') \<Rightarrow>
        if ch = Some CHR '' '' \<or> ch = Some TAB then skip_sp s' else (ch, s'))"
  by pat_completeness auto
termination
  by (relation "measure todo") (auto dest!: sym [of _ "next_ch _"] next_ch_todo_Some)

declare skip_sp.simps [simp del]

lemma skip_sp_todo:
  "skip_sp s = (ch, s') \<Longrightarrow>
     todo s' + (case ch of None \<Rightarrow> 0 | Some c \<Rightarrow> 1) \<le> todo s \<and> pback s' = None"
proof (induction s rule: skip_sp.induct)
  case (1 s)
  obtain c t where n: "next_ch s = (c, t)" by fastforce
  note le = next_ch_todo [OF n]
  show ?case
  proof (cases "c = Some CHR '' '' \<or> c = Some TAB")
    case True
    then have "todo s' + (case ch of None \<Rightarrow> 0 | Some c \<Rightarrow> 1) \<le> todo t \<and> pback s' = None"
      using "1.IH" [OF n [symmetric]] "1.prems" n by (simp add: skip_sp.simps [of s])
    with le show ?thesis by linarith
  next
    case False
    with n "1.prems" le next_ch_pback [OF n] show ?thesis by (simp add: skip_sp.simps [of s])
  qed
qed

text \<open>
  The body of a quoted string after its opening quote; \<open>acc\<close> is what has been stored
  in the token buffer.
\<close>

function quoted :: "string \<Rightarrow> cfg \<Rightarrow> (cfg_fail + string) \<times> cfg" where
  "quoted acc s =
     (if length acc \<ge> MAX_TOKEN then cfg_error ''Quoted string is too long'' s
      else
        (case next_ch s of (ch, s1) \<Rightarrow>
           case ch of
             None \<Rightarrow> cfg_error ''EOF in quoted string'' s1
           | Some c \<Rightarrow>
               if c = DQUOTE then (Inr acc, s1)
               else if c = BACKSLASH then
                 (case next_ch s1 of (ch2, s2) \<Rightarrow>
                    if ch2 = Some DQUOTE \<or> ch2 = Some BACKSLASH
                    then quoted (acc @ [the ch2]) s2
                    else if ch2 = Some LF then
                      (case skip_sp s2 of (ch3, s3) \<Rightarrow>
                         if ch3 = Some NUL then quoted acc s3
                         else quoted (acc @ '' '') (again ch3 s3))
                    else if ch2 = Some CHR ''n'' then quoted (acc @ [LF]) s2
                    else cfg_error (''Bad use of '' @ [BACKSLASH] @ '' in quoted string'') s2)
               else if c = LF
               then cfg_error ''newline is not allowed in quoted strings'' s1
               else quoted (acc @ [c]) s1))"
  by pat_completeness auto
termination
proof (relation "measure (\<lambda>(acc, s). todo s)", goal_cases)
  case 1
  show ?case by simp
next
  case (2 acc s x s1 c xa s2)
  then show ?case
    using next_ch_todo [of s x s1] next_ch_todo [of s1 xa s2] by (auto split: option.splits)
next
  case (3 acc s x s1 c xa s2 xb s3)
  then show ?case
    using next_ch_todo [of s x s1] next_ch_todo [of s1 xa s2] skip_sp_todo [of s2 xb s3]
    by (auto split: option.splits)
next
  case (4 acc s x s1 c xa s2 xb s3)
  then show ?case
    using next_ch_todo [of s x s1] next_ch_todo [of s1 xa s2] skip_sp_todo [of s2 xb s3]
      todo_again [of s3 xb]
    by (auto split: option.splits)
next
  case (5 acc s x s1 c xa s2)
  then show ?case
    using next_ch_todo [of s x s1] next_ch_todo [of s1 xa s2] by (auto split: option.splits)
next
  case (6 acc s x s1 c)
  then show ?case using next_ch_todo [of s x s1] by simp
qed

definition ends_token :: "char option \<Rightarrow> bool" where
  "ends_token ch \<longleftrightarrow> ch = Some CHR '' '' \<or> ch = Some TAB \<or> ch = Some LF \<or> ch = Some CHR ''#''
     \<or> ch = Some CHR ''='' \<or> ch = None"

function unquoted :: "char option \<Rightarrow> bool \<Rightarrow> string \<Rightarrow> cfg \<Rightarrow> (cfg_fail + string) \<times> cfg" where
  "unquoted ch escaped acc s =
     (if length acc \<ge> MAX_TOKEN then cfg_error ''Token is too long'' s
      else if escaped then
        (case ch of
           None \<Rightarrow> cfg_error (BACKSLASH # '' precedes EOF'') s
         | Some c \<Rightarrow>
             (let s1 = (if c = LF then s\<lparr>line_num := line_num s + 1\<rparr> else s);
                  acc1 = (if c = LF then acc else acc @ [if c = TAB then CHR '' '' else c])
              in case next_ch s1 of (ch', s') \<Rightarrow> unquoted ch' False acc1 s'))
      else if ends_token ch then (Inr acc, again ch s)
      else
        (let esc = (ch = Some BACKSLASH);
             acc1 = (if esc then acc else acc @ [the ch])
         in case next_ch s of (ch', s') \<Rightarrow> unquoted ch' esc acc1 s'))"
  by pat_completeness auto
termination
proof (relation "measure (\<lambda>(ch, esc, acc, s). todo s + (case ch of None \<Rightarrow> 0 | Some c \<Rightarrow> 1))", goal_cases)
  case 1
  show ?case by simp
next
  case (2 ch escaped acc s c s1 acc1 x s')
  have "todo s1 = todo s" using 2(4) by simp
  moreover have "todo s' + (case x of None \<Rightarrow> 0 | Some c \<Rightarrow> 1) \<le> todo s1"
    using 2(6) by (intro next_ch_todo) simp
  ultimately show ?case using 2(3) by simp
next
  case (3 ch escaped acc s esc acc1 x s')
  have "todo s' + (case x of None \<Rightarrow> 0 | Some c \<Rightarrow> 1) \<le> todo s"
    using 3(6) by (intro next_ch_todo) simp
  moreover have "ch \<noteq> None" using 3(3) by (simp add: ends_token_def)
  ultimately show ?case by auto
qed

declare quoted.simps [simp del] unquoted.simps [simp del]

text \<open>\<open>strdup\<close> of the token buffer, which is a C string: a NUL in the file cuts it short.\<close>

definition token_dup :: "string \<Rightarrow> cfg \<Rightarrow> (cfg_fail + tok option) \<times> cfg" where
  "token_dup t s =
     (let t' = takeWhile (\<lambda>c. c \<noteq> NUL) t in
      case strdup t' (cfg_heap s) of (p, h) \<Rightarrow>
        if p = 0 then (Inl Null_write, s\<lparr>cfg_heap := h\<rparr>)
        else (Inr (Some (p, t')), s\<lparr>cfg_heap := h\<rparr>))"

definition cfg_get_token :: "cfg \<Rightarrow> (cfg_fail + tok option) \<times> cfg" where
  "cfg_get_token s =
     (case last_token s of
        Some t \<Rightarrow> (Inr (Some t), s\<lparr>last_token := None\<rparr>)
      | None \<Rightarrow>
          (case skip_to_token s of (ch, s1) \<Rightarrow>
             case ch of
               None \<Rightarrow> (Inr None, s1)
             | Some c \<Rightarrow>
                 if c = CHR ''='' then token_dup ''='' s1
                 else bnd (if c = DQUOTE then quoted [] else unquoted (Some c) False [])
                        token_dup s1))"

definition cfg_return_token :: "tok \<Rightarrow> cfg \<Rightarrow> cfg" where
  "cfg_return_token t s = s\<lparr>last_token := Some t\<rparr>"

section \<open>Items\<close>

text \<open>The result is \<open>None\<close> at end of input, else the item and its value (null is \<open>None\<close>).\<close>

definition cfg_next :: "cfg \<Rightarrow> (cfg_fail + (tok \<times> tok option) option) \<times> cfg" where
  "cfg_next s =
     (case last_item s of
        Some i \<Rightarrow> (Inr (Some (i, last_value s)), s\<lparr>last_item := None\<rparr>)
      | None \<Rightarrow>
          bnd cfg_get_token (\<lambda>item.
            case item of
              None \<Rightarrow> ret None
            | Some i \<Rightarrow>
                if strcmp (snd i) ''='' = 0 then cfg_error ''Syntax error''
                else bnd cfg_get_token (\<lambda>this.
                  case this of
                    None \<Rightarrow> ret (Some (i, None))
                  | Some t \<Rightarrow>
                      if strcmp (snd t) ''='' \<noteq> 0
                      then bnd (modify (cfg_return_token t)) (\<lambda>_. ret (Some (i, None)))
                      else bnd cfg_get_token (\<lambda>value.
                        case value of
                          None \<Rightarrow> cfg_error ''Value expected at EOF''
                        | Some v \<Rightarrow>
                            if strcmp (snd v) ''='' = 0
                            then cfg_error (''Syntax error after '' @ snd i)
                            else ret (Some (i, Some v))))) s)"

definition cfg_return :: "tok \<Rightarrow> tok option \<Rightarrow> cfg \<Rightarrow> cfg" where
  "cfg_return item val s = s\<lparr>last_item := Some item, last_value := val\<rparr>"

abbreviation APOS :: char where "APOS \<equiv> CHR 0x27"

definition squote :: "string \<Rightarrow> string" where
  "squote n = [APOS] @ n @ [APOS]"

text \<open>
  One matching entry: the new entry and the warnings.  A flag's data is the address
  of a zero byte, so it reads as the empty string.
\<close>

definition set_entry :: "CONFIG \<Rightarrow> string option \<Rightarrow> CONFIG \<times> string list" where
  "set_entry e val =
     (if val \<noteq> None \<and> cf_type e \<noteq> cft_strg
      then (e, [squote (cf_name e) @ '' doesn'' @ [APOS] @ ''t have a value''])
      else if val = None \<and> cf_type e = cft_strg
      then (e, [''Value expected for '' @ squote (cf_name e)])
      else
        (e\<lparr>cf_data := (case cf_type e of cft_flag \<Rightarrow> Some [] | cft_strg \<Rightarrow> val)\<rparr>,
         if cf_data e \<noteq> None then [''Duplicate entry '' @ squote (cf_name e)] else []))"

fun set_table :: "CONFIG list \<Rightarrow> string \<Rightarrow> string option \<Rightarrow> (CONFIG list \<times> string list) option" where
  "set_table [] item val = None"
| "set_table (e # es) item val =
     (if strcasecmp (cf_name e) item = 0
      then (case set_entry e val of (e', ws) \<Rightarrow> Some (e' # es, ws))
      else map_option (\<lambda>(es', ws). (e # es', ws)) (set_table es item val))"

text \<open>\<open>sizeof (struct IMAGES)\<close>: sixteen 12-byte entries and the link.\<close>

definition sizeof_IMAGES :: u32 where
  "sizeof_IMAGES = 196"

definition new_image :: "cfg \<Rightarrow> (cfg_fail + unit) \<times> cfg" where
  "new_image s =
     (case malloc sizeof_IMAGES (cfg_heap s) of (p, h) \<Rightarrow>
        if p = 0 then (Inl Null_write, s\<lparr>cfg_heap := h\<rparr>)
        else (Inr (), s\<lparr>cfg_heap := h, images := images s @ [cf_image0],
                        cfg_bits := cfg_bits s OR HAVE_IMAGES, curr_image := True\<rparr>))"

definition curr_table :: "cfg \<Rightarrow> CONFIG list" where
  "curr_table s = (if curr_image s then last (images s) else cf_options s)"

definition put_table :: "CONFIG list \<Rightarrow> cfg \<Rightarrow> cfg" where
  "put_table t s =
     (if curr_image s then s\<lparr>images := butlast (images s) @ [t]\<rparr> else s\<lparr>cf_options := t\<rparr>)"

text \<open>The result says whether the item was known.\<close>

definition cfg_set :: "tok \<Rightarrow> tok option \<Rightarrow> cfg \<Rightarrow> (cfg_fail + bool) \<times> cfg" where
  "cfg_set item val =
     bnd (if strcasecmp (snd item) ''image'' = 0 then new_image else ret ()) (\<lambda>_ s.
       case set_table (curr_table s) (snd item) (map_option snd val) of
         Some (t, ws) \<Rightarrow> (Inr True, fold cfg_warn ws (put_table t s))
       | None \<Rightarrow> (Inr False, cfg_return item val s))"

section \<open>Progress of the parser\<close>

text \<open>
  Scanning never puts back more than it read and touches nothing but the input
  position, the line number and the diagnostics.
\<close>

definition frame ::
    "cfg \<Rightarrow> CONFIG list \<times> CONFIG list list \<times> bool \<times> tok option \<times> tok option \<times> tok option \<times> heap \<times> u32"
  where
  "frame s = (cf_options s, images s, curr_image s, last_token s, last_item s, last_value s,
     cfg_heap s, cfg_bits s)"

definition scans :: "cfg \<Rightarrow> cfg \<Rightarrow> bool" where
  "scans s s' \<longleftrightarrow> todo s' \<le> todo s \<and> frame s' = frame s"

lemma scans_refl [intro, simp]: "scans s s"
  by (simp add: scans_def)

lemma scans_trans [trans]: "scans s t \<Longrightarrow> scans t u \<Longrightarrow> scans s u"
  by (auto simp: scans_def)

lemma scans_line [simp]: "scans s (t\<lparr>line_num := n\<rparr>) \<longleftrightarrow> scans s t"
  and scans_msgs [simp]: "scans s (t\<lparr>cfg_msgs := m\<rparr>) \<longleftrightarrow> scans s t"
  and scans_line2 [simp]: "scans (s\<lparr>line_num := n\<rparr>) t \<longleftrightarrow> scans s t"
  by (simp_all add: scans_def frame_def)

lemma scans_next_ch: "next_ch s = (ch, s') \<Longrightarrow> scans s s'"
  using next_ch_todo [of s ch s']
  by (auto simp: scans_def frame_def next_ch_def getc_def split: option.splits list.splits)

lemma scans_error [simp]: "scans s (snd (cfg_error m t)) \<longleftrightarrow> scans s t"
  by (simp add: cfg_error_def)

lemma scans_skip_blank: "skip_blank s = (ch, s') \<Longrightarrow> scans s s'"
proof (induction s rule: skip_blank.induct)
  case (1 s)
  obtain c t where n: "next_ch s = (c, t)" by fastforce
  have "scans t s'"
    using "1.IH" [OF n [symmetric]] "1.prems" n
    by (auto simp: skip_blank.simps [of s] split: if_splits)
  with scans_next_ch [OF n] show ?case by (rule scans_trans)
qed

lemma scans_skip_comment: "skip_comment s = (b, s') \<Longrightarrow> scans s s'"
proof (induction s rule: skip_comment.induct)
  case (1 s)
  obtain c t where n: "next_ch s = (c, t)" by fastforce
  have "scans t s'"
    using "1.IH" [OF n [symmetric]] "1.prems" n
    by (auto simp: skip_comment.simps [of s] split: if_splits)
  with scans_next_ch [OF n] show ?case by (rule scans_trans)
qed

lemma scans_skip_to_token: "skip_to_token s = (ch, s') \<Longrightarrow> scans s s'"
proof (induction s rule: skip_to_token.induct)
  case (1 s)
  obtain c t where b: "skip_blank s = (c, t)" by fastforce
  obtain m u where k: "skip_comment t = (m, u)" by fastforce
  note tr = scans_skip_blank [OF b] scans_skip_comment [OF k]
  have "scans u s' \<or> scans t s'"
    using "1.IH" [OF b [symmetric] _ k [symmetric]] "1.prems" b k
    by (auto simp: skip_to_token.simps [of s] split: if_splits)
  with tr show ?case by (blast intro: scans_trans)
qed

lemma scans_skip_sp: "skip_sp s = (ch, s') \<Longrightarrow> scans s s'"
proof (induction s rule: skip_sp.induct)
  case (1 s)
  obtain c t where n: "next_ch s = (c, t)" by fastforce
  have "scans t s'"
    using "1.IH" [OF n [symmetric]] "1.prems" n
    by (auto simp: skip_sp.simps [of s] split: if_splits)
  with scans_next_ch [OF n] show ?case by (rule scans_trans)
qed

lemma scans_again:
  "next_ch s = (ch, t) \<Longrightarrow> scans s (again ch t)"
  using next_ch_todo [of s ch t] todo_again [of t ch] next_ch_pback [of s ch t] scans_next_ch [of s ch t]
  by (auto simp: scans_def frame_def again_def)

lemma scans_again_sp:
  "skip_sp s = (ch, t) \<Longrightarrow> scans s (again ch t)"
  using skip_sp_todo [of s ch t] todo_again [of t ch] scans_skip_sp [of s ch t]
  by (auto simp: scans_def frame_def again_def)

lemma scans_quoted: "scans s (snd (quoted acc s))"
proof (induction acc s rule: quoted.induct)
  case (1 acc s)
  show ?case
  proof (cases "length acc \<ge> MAX_TOKEN")
    case True
    then show ?thesis by (simp add: quoted.simps [of acc s])
  next
    case False
    obtain ch t where n: "next_ch s = (ch, t)" by fastforce
    obtain ch2 u where n2: "next_ch t = (ch2, u)" by fastforce
    obtain ch3 v where n3: "skip_sp u = (ch3, v)" by fastforce
    have tr: "scans s t" "scans t u" "scans u v" "scans u (again ch3 v)"
      using n n2 n3 scans_next_ch scans_skip_sp scans_again_sp by blast+
    then have tr2: "scans s u" "scans s v" "scans s (again ch3 v)"
      by (blast intro: scans_trans)+
    have "scans t (snd (quoted acc s)) \<or> scans u (snd (quoted acc s)) \<or> scans v (snd (quoted acc s))
      \<or> scans (again ch3 v) (snd (quoted acc s))"
      using 1 [OF False n [symmetric]] n n2 n3 False
      by (cases ch) (auto simp: quoted.simps [of acc s])
    with tr tr2 show ?thesis by (blast intro: scans_trans)
  qed
qed


lemma unquoted_bound:
  "pback s = None \<Longrightarrow>
   frame (snd (unquoted ch escaped acc s)) = frame s \<and>
   todo (snd (unquoted ch escaped acc s)) \<le> todo s + (case ch of None \<Rightarrow> 0 | Some c \<Rightarrow> 1)"
proof (induction ch escaped acc s rule: unquoted.induct)
  case (1 ch escaped acc s)
  let ?s1 = "if ch = Some LF then s\<lparr>line_num := line_num s + 1\<rparr> else s"
  obtain c t where n: "next_ch s = (c, t)" by fastforce
  obtain c1 t1 where n1: "next_ch ?s1 = (c1, t1)" by fastforce
  have t: "todo t + (case c of None \<Rightarrow> 0 | Some c \<Rightarrow> 1) \<le> todo s" "pback t = None" "frame t = frame s"
    using next_ch_todo [OF n] next_ch_pback [OF n] scans_next_ch [OF n] by (simp_all add: scans_def)
  have "frame ?s1 = frame s" "todo ?s1 = todo s" by (simp_all add: frame_def)
  then have t1: "todo t1 + (case c1 of None \<Rightarrow> 0 | Some c \<Rightarrow> 1) \<le> todo s" "pback t1 = None" "frame t1 = frame s"
    using next_ch_todo [OF n1] next_ch_pback [OF n1] scans_next_ch [OF n1] by (auto simp: scans_def)
  consider (long) "length acc \<ge> MAX_TOKEN" | (esc) "length acc < MAX_TOKEN" escaped
    | (del) "length acc < MAX_TOKEN" "\<not> escaped" "ends_token ch"
    | (char) "length acc < MAX_TOKEN" "\<not> escaped" "\<not> ends_token ch" by linarith
  then show ?case
  proof cases
    case long
    then show ?thesis by (simp add: unquoted.simps [of ch] cfg_error_def frame_def)
  next
    case esc
    show ?thesis
    proof (cases ch)
      case None
      with esc show ?thesis by (simp add: unquoted.simps [of None] cfg_error_def frame_def)
    next
      case (Some d)
      let ?acc1 = "if d = LF then acc else acc @ [if d = TAB then CHR '' '' else d]"
      have "unquoted ch escaped acc s = unquoted c1 False ?acc1 t1"
        using esc n1 unfolding Some by (subst unquoted.simps) (simp add: Let_def)
      moreover have "frame (snd (unquoted c1 False ?acc1 t1)) = frame t1 \<and>
         todo (snd (unquoted c1 False ?acc1 t1)) \<le> todo t1 + (case c1 of None \<Rightarrow> 0 | Some c \<Rightarrow> 1)"
        using esc Some n1 t1(2) by (intro "1.IH"(1) [OF _ _ Some refl refl, of c1]) (auto split: if_splits)
      ultimately show ?thesis using t1 Some by auto
    qed
  next
    case del
    then show ?thesis using todo_again [of s ch] "1.prems"
      by (simp add: unquoted.simps [of ch]) (simp add: frame_def again_def)
  next
    case char
    let ?acc1 = "if ch = Some BACKSLASH then acc else acc @ [the ch]"
    have "unquoted ch escaped acc s = unquoted c (ch = Some BACKSLASH) ?acc1 t"
      using char n by (simp add: unquoted.simps [of ch] Let_def)
    moreover have "frame (snd (unquoted c (ch = Some BACKSLASH) ?acc1 t)) = frame t \<and>
         todo (snd (unquoted c (ch = Some BACKSLASH) ?acc1 t)) \<le> todo t + (case c of None \<Rightarrow> 0 | Some c \<Rightarrow> 1)"
      using char n t(2) by (intro "1.IH"(2) [OF _ _ _ refl refl]) auto
    ultimately show ?thesis using t by auto
  qed
qed

lemma scans_unquoted:
  assumes "pback s = None" and "\<not> ends_token ch"
  shows "scans s (snd (unquoted ch False acc s))"
proof (cases "length acc \<ge> MAX_TOKEN")
  case True
  then show ?thesis by (simp add: unquoted.simps [of ch])
next
  case False
  obtain c t where n: "next_ch s = (c, t)" by fastforce
  let ?acc1 = "if ch = Some BACKSLASH then acc else acc @ [the ch]"
  have "unquoted ch False acc s = unquoted c (ch = Some BACKSLASH) ?acc1 t"
    using False assms n by (simp add: unquoted.simps [of ch] Let_def)
  then show ?thesis
    using unquoted_bound [OF next_ch_pback [OF n], of c "ch = Some BACKSLASH" ?acc1]
      next_ch_todo [OF n] scans_next_ch [OF n] by (auto simp: scans_def)
qed

text \<open>What is left to parse: characters count twice, returned tokens and items once.\<close>

definition weight :: "cfg \<Rightarrow> nat" where
  "weight s = 2 * todo s + (if last_token s = None then 0 else 1) + (if last_item s = None then 0 else 1)"

lemma skip_blank_stop: "skip_blank s = (ch, s') \<Longrightarrow> \<not> is_blank ch \<and> pback s' = None"
proof (induction s rule: skip_blank.induct)
  case (1 s)
  obtain c t where n: "next_ch s = (c, t)" by fastforce
  show ?case
    using "1.IH" [OF n [symmetric]] "1.prems" n next_ch_pback [OF n]
    by (auto simp: skip_blank.simps [of s] split: if_splits)
qed

lemma skip_to_token_stop:
  "skip_to_token s = (Some c, s') \<Longrightarrow> \<not> is_blank (Some c) \<and> c \<noteq> CHR ''#'' \<and> pback s' = None"
proof (induction s rule: skip_to_token.induct)
  case (1 s)
  obtain d t where b: "skip_blank s = (d, t)" by fastforce
  obtain m u where k: "skip_comment t = (m, u)" by fastforce
  show ?case
    using "1.IH" [OF b [symmetric] _ k [symmetric]] "1.prems" b k skip_blank_stop [OF b]
    by (auto simp: skip_to_token.simps [of s] split: if_splits)
qed

lemma token_dup_frame:
  assumes "token_dup t s = (r, s')"
  shows "todo s' = todo s" "last_token s' = last_token s" "last_item s' = last_item s"
    "last_value s' = last_value s" "images s' = images s" "cf_options s' = cf_options s"
    "curr_image s' = curr_image s" "cfg_bits s' = cfg_bits s"
  using assms by (auto simp: token_dup_def Let_def split: prod.splits if_splits)

definition parsed ::
    "cfg \<Rightarrow> CONFIG list \<times> CONFIG list list \<times> bool \<times> tok option \<times> tok option \<times> u32"
  where
  "parsed s = (cf_options s, images s, curr_image s, last_item s, last_value s, cfg_bits s)"

lemma scan_token:
  assumes "pback s = None" and "\<not> is_blank (Some c)" and "c \<noteq> CHR ''#''" and "c \<noteq> CHR ''=''"
  shows "scans s (snd ((if c = DQUOTE then quoted [] else unquoted (Some c) False []) s))"
  using assms by (auto simp: scans_quoted ends_token_def is_blank_def intro!: scans_unquoted)

lemma cfg_get_token_frame:
  assumes "cfg_get_token s = (r, s')"
  shows "last_token s' = None" and "parsed s' = parsed s" and "todo s' \<le> todo s"
    and "last_token s = None \<Longrightarrow> r = Inr (Some t) \<Longrightarrow> todo s' < todo s"
proof -
  have "last_token s' = None \<and> parsed s' = parsed s \<and> todo s' \<le> todo s
    \<and> (last_token s = None \<longrightarrow> r = Inr (Some t) \<longrightarrow> todo s' < todo s)"
  proof (cases "last_token s")
    case (Some u)
    with assms show ?thesis by (auto simp: cfg_get_token_def parsed_def)
  next
    case None
    obtain ch s1 where k: "skip_to_token s = (ch, s1)" by fastforce
    have s1: "scans s s1" using k by (rule scans_skip_to_token)
    then have lt: "last_token s1 = None" "parsed s1 = parsed s" "todo s1 \<le> todo s"
      using None by (auto simp: scans_def frame_def parsed_def)
    show ?thesis
    proof (cases ch)
      case None
      with \<open>last_token s = None\<close> k assms lt show ?thesis by (auto simp: cfg_get_token_def)
    next
      case (Some c)
      have less: "todo s1 < todo s" using skip_to_token_todo [OF k] Some by simp
      have st: "pback s1 = None" "\<not> is_blank (Some c)" "c \<noteq> CHR ''#''"
        using skip_to_token_stop [of s c s1] k Some by auto
      show ?thesis
      proof (cases "c = CHR ''=''")
        case True
        then have "token_dup ''='' s1 = (r, s')"
          using assms None k Some by (simp add: cfg_get_token_def)
        with lt less show ?thesis by (auto simp: parsed_def dest: token_dup_frame)
      next
        case False
        let ?m = "if c = DQUOTE then quoted [] else unquoted (Some c) False []"
        obtain q s2 where q: "?m s1 = (q, s2)" by fastforce
        have "scans s1 s2" using scan_token [OF st False] q by simp
        then have s2: "last_token s2 = None" "parsed s2 = parsed s" "todo s2 < todo s"
          using lt less by (auto simp: scans_def frame_def parsed_def)
        have "bnd ?m token_dup s1 = (r, s')"
          using assms None k Some False by (simp add: cfg_get_token_def)
        then show ?thesis
          using q s2 by (cases q) (auto simp: bnd_def parsed_def dest: token_dup_frame)
      qed
    qed
  qed
  then show "last_token s' = None" "parsed s' = parsed s" "todo s' \<le> todo s"
    "last_token s = None \<Longrightarrow> r = Inr (Some t) \<Longrightarrow> todo s' < todo s" by blast+
qed

lemma cfg_get_token_weight:
  assumes "cfg_get_token s = (Inr (Some t), s')"
  shows "weight s' < weight s"
proof (cases "last_token s")
  case None
  then show ?thesis
    using cfg_get_token_frame(1-3) [OF assms] cfg_get_token_frame(4) [OF assms, where t = t]
    by (auto simp: weight_def parsed_def)
next
  case (Some u)
  with assms show ?thesis by (auto simp: cfg_get_token_def weight_def)
qed

lemma cfg_next_frame:
  assumes "cfg_next s = (r, s')"
  shows "cf_options s' = cf_options s \<and> images s' = images s \<and> curr_image s' = curr_image s
    \<and> cfg_bits s' = cfg_bits s"
    and "r = Inr (Some iv) \<Longrightarrow> weight s' < weight s \<and> last_item s' = None"
proof -
  have "(cf_options s' = cf_options s \<and> images s' = images s \<and> curr_image s' = curr_image s
    \<and> cfg_bits s' = cfg_bits s) \<and> (r = Inr (Some iv) \<longrightarrow> weight s' < weight s \<and> last_item s' = None)"
  proof (cases "last_item s")
    case (Some i)
    with assms show ?thesis by (auto simp: cfg_next_def weight_def)
  next
    case None
    obtain r1 s1 where g1: "cfg_get_token s = (r1, s1)" by fastforce
    obtain r2 s2 where g2: "cfg_get_token s1 = (r2, s2)" by fastforce
    obtain r3 s3 where g3: "cfg_get_token s2 = (r3, s3)" by fastforce
    note f1 = cfg_get_token_frame(1-3) [OF g1] and f2 = cfg_get_token_frame [OF g2]
      and f3 = cfg_get_token_frame(1-3) [OF g3]
    have p: "parsed s1 = parsed s" "parsed s2 = parsed s" "parsed s3 = parsed s"
      using f1 f2 f3 by simp_all
    have w1: "r1 = Inr (Some t1) \<Longrightarrow> weight s1 < weight s" for t1
      using cfg_get_token_weight g1 by blast
    have w2: "r2 = Inr (Some t2) \<Longrightarrow> weight (s2\<lparr>last_token := Some t2\<rparr>) < weight s1 \<and> weight s2 < weight s1" for t2
      using f1 f2(1-3) f2(4) [where t = t2] None by (auto simp: weight_def parsed_def)
    have w2': "weight s2 \<le> weight s1" and w3: "weight s3 \<le> weight s2"
      using f1 f2(1-3) f3 None by (auto simp: weight_def parsed_def)
    show ?thesis
      using assms None g1 g2 g3 p w1 w2 w2' w3
      unfolding cfg_next_def
      by (cases r1; cases r2; cases r3)
        (auto simp: io_simps cfg_error_def cfg_return_token_def parsed_def split: option.splits if_splits)
  qed
  then show "cf_options s' = cf_options s \<and> images s' = images s \<and> curr_image s' = curr_image s
    \<and> cfg_bits s' = cfg_bits s"
    and "r = Inr (Some iv) \<Longrightarrow> weight s' < weight s \<and> last_item s' = None" by blast+
qed
lemma cfg_warn_fold [simp]:
  "weight (fold cfg_warn ws s) = weight s" "todo (fold cfg_warn ws s) = todo s"
  "cf_options (fold cfg_warn ws s) = cf_options s"
  "images (fold cfg_warn ws s) = images s" "curr_image (fold cfg_warn ws s) = curr_image s"
  "cfg_heap (fold cfg_warn ws s) = cfg_heap s" "cfg_bits (fold cfg_warn ws s) = cfg_bits s"
  "last_item (fold cfg_warn ws s) = last_item s" "last_token (fold cfg_warn ws s) = last_token s"
  "inp (fold cfg_warn ws s) = inp s" "pback (fold cfg_warn ws s) = pback s"
  by (induction ws arbitrary: s) (simp_all add: cfg_warn_def weight_def)

lemma cfg_set_weight:
  assumes "cfg_set item val s = (Inr True, s')"
  shows "weight s' = weight s"
  using assms
  by (auto simp: cfg_set_def io_simps new_image_def put_table_def weight_def cfg_return_def
      split: if_splits prod.splits option.splits sum.splits)

section \<open>The parse loop\<close>

text \<open>The result is the \<open>int\<close> that \<open>cfg_parse\<close> returns; \<open>cfg_error\<close> makes it -1.\<close>

function cfg_loop :: "cfg \<Rightarrow> (cfg_fail + int) \<times> cfg" where
  "cfg_loop s =
     (case cfg_next s of
        (Inl (Cfg_error m), s1) \<Rightarrow> (Inr (-1), s1)
      | (Inl Null_write, s1) \<Rightarrow> (Inl Null_write, s1)
      | (Inr None, s1) \<Rightarrow> (Inr 0, s1)
      | (Inr (Some (item, val)), s1) \<Rightarrow>
          (case cfg_set item val s1 of
             (Inl e, s2) \<Rightarrow> (Inl e, s2)
           | (Inr known, s2) \<Rightarrow>
               if \<not> known then (Inr (-1), s2)
               else cfg_loop (s2\<lparr>cfg_heap := free (fst item) (cfg_heap s2)\<rparr>)))"
  by pat_completeness auto
termination
proof (relation "measure weight", goal_cases)
  case 1
  show ?case by simp
next
  case (2 s x s1 r iv item val y s2 known)
  then have "cfg_next s = (Inr (Some (item, val)), s1)" and "cfg_set item val s1 = (Inr True, s2)"
    by auto
  then have "weight s1 < weight s" and "weight s2 = weight s1"
    using cfg_next_frame(2) cfg_set_weight by blast+
  then show ?case by (simp add: weight_def)
qed

declare cfg_loop.simps [simp del]

definition cfg_parse :: "string option \<Rightarrow> string \<Rightarrow> nat \<Rightarrow> cfg \<Rightarrow> (cfg_fail + int) \<times> cfg" where
  "cfg_parse cfg_file buff len s = cfg_loop (s\<lparr>file_name := cfg_file, inp := take len buff\<rparr>)"

section \<open>Lookups\<close>

fun cfg_get_strg_i :: "CONFIG list \<Rightarrow> string \<Rightarrow> string option" where
  "cfg_get_strg_i [] item = None"
| "cfg_get_strg_i (e # es) item =
     (if strcasecmp (cf_name e) item = 0 then cf_data e else cfg_get_strg_i es item)"

text \<open>What follows the last slash of a path, or the path.\<close>

definition after_slash :: "string \<Rightarrow> string" where
  "after_slash s = (case strrchr s CHR ''/'' of None \<Rightarrow> s | Some t \<Rightarrow> tl t)"

text \<open>
  The label of an image: its label option, else the file name of its image option.
  An image without a value has a null pointer there, and reads the string at address 0.
\<close>

definition image_label :: "string \<Rightarrow> CONFIG list \<Rightarrow> string" where
  "image_label nul0 t =
     (case cfg_get_strg_i t ''label'' of
        Some l \<Rightarrow> l
      | None \<Rightarrow> after_slash (case cfg_get_strg_i t ''image'' of Some p \<Rightarrow> p | None \<Rightarrow> nul0))"

definition image_matches :: "string \<Rightarrow> string \<Rightarrow> CONFIG list \<Rightarrow> bool" where
  "image_matches nul0 img t \<longleftrightarrow>
     strcmp (image_label nul0 t) img = 0
     \<or> (case cfg_get_strg_i t ''alias'' of None \<Rightarrow> False | Some a \<Rightarrow> strcmp a img = 0)"

fun cfg_find_image :: "string \<Rightarrow> string \<Rightarrow> CONFIG list list \<Rightarrow> CONFIG list option" where
  "cfg_find_image nul0 img [] = None"
| "cfg_find_image nul0 img (t # ts) =
     (if image_matches nul0 img t then Some t else cfg_find_image nul0 img ts)"

definition cfg_get_strg :: "string \<Rightarrow> cfg \<Rightarrow> string option \<Rightarrow> string \<Rightarrow> string option" where
  "cfg_get_strg nul0 s img item =
     (case img of
        None \<Rightarrow> cfg_get_strg_i (cf_options s) item
      | Some im \<Rightarrow>
          (case cfg_find_image nul0 im (images s) of
             None \<Rightarrow> None
           | Some t \<Rightarrow>
               (case cfg_get_strg_i t item of
                  Some v \<Rightarrow> Some v
                | None \<Rightarrow> cfg_get_strg_i (cf_options s) item)))"

definition cfg_get_flag :: "string \<Rightarrow> cfg \<Rightarrow> string option \<Rightarrow> string \<Rightarrow> bool" where
  "cfg_get_flag nul0 s img item \<longleftrightarrow> cfg_get_strg nul0 s img item \<noteq> None"

text \<open>The names \<open>cfg_print_images\<close> passes to the table printer, in order.\<close>

definition cfg_print_images :: "string \<Rightarrow> cfg \<Rightarrow> string list" where
  "cfg_print_images nul0 s =
     concat (map (\<lambda>t. image_label nul0 t #
       (case cfg_get_strg_i t ''alias'' of None \<Rightarrow> [] | Some a \<Rightarrow> [a])) (images s))"

definition cfg_get_default :: "string \<Rightarrow> cfg \<Rightarrow> string option" where
  "cfg_get_default nul0 s =
     (case cfg_get_strg_i (cf_options s) ''default'' of
        Some d \<Rightarrow> Some d
      | None \<Rightarrow>
          (case images s of
             [] \<Rightarrow> None
           | t # _ \<Rightarrow>
               (case cfg_get_strg_i t ''label'' of
                  Some l \<Rightarrow> Some l
                | None \<Rightarrow>
                    (case cfg_get_strg_i t ''image'' of
                       Some p \<Rightarrow> Some (after_slash p)
                     | None \<Rightarrow> map_option tl (strrchr nul0 CHR ''/'')))))"

end
