(* ===== verification/Cfg_Text.thy ===== *)
theory Cfg_Text
  imports Cfg
begin

text \<open>
  What the parser of \<^verbatim>\<open>loader/cfg.c\<close> makes of a well-formed configuration text.  A list
  of entries is rendered as text, one entry a line, and parsing the text performs
  exactly the settings the entries stand for.  The tables are shown to keep the
  contract of an option table: what was set is what a lookup finds.
\<close>

section \<open>The input as the tokenizer sees it\<close>

definition ready :: "cfg \<Rightarrow> string \<Rightarrow> bool" where
  "ready s txt \<longleftrightarrow>
     (case pback s of
        None \<Rightarrow> inp s = txt
      | Some None \<Rightarrow> inp s = [] \<and> txt = []
      | Some (Some c) \<Rightarrow> c # inp s = txt)"

text \<open>\<open>reads s txt s'\<close>: scanning from \<open>s\<close> stopped at \<open>s'\<close> with \<open>txt\<close> still to be read.\<close>

definition reads :: "cfg \<Rightarrow> string \<Rightarrow> cfg \<Rightarrow> bool" where
  "reads s txt s' \<longleftrightarrow> ready s' txt \<and> frame s' = frame s"

lemma reads_refl: "ready s txt \<Longrightarrow> reads s txt s"
  by (simp add: reads_def)

lemma reads_trans: "reads s t1 s1 \<Longrightarrow> reads s1 t2 s2 \<Longrightarrow> reads s t2 s2"
  by (simp add: reads_def)

lemma ready_line [simp]: "ready (s\<lparr>line_num := n\<rparr>) t = ready s t"
  by (simp add: ready_def split: option.split)

lemma reads_line [simp]: "reads s t (s'\<lparr>line_num := n\<rparr>) = reads s t s'"
  and reads_line2 [simp]: "reads (s\<lparr>line_num := n\<rparr>) t s' = reads s t s'"
  by (simp_all add: reads_def frame_def)

lemma next_ch_ready:
  assumes "ready s (c # r)"
  obtains s' where "next_ch s = (Some c, s')" "reads s r s'" "pback s' = None"
  using assms that
  by (cases "pback s") (auto simp: ready_def reads_def frame_def next_ch_def getc_def split: option.splits)

lemma next_ch_ready_end:
  assumes "ready s []"
  obtains s' where "next_ch s = (None, s')" "reads s [] s'" "pback s' = None"
  using assms that
  by (cases "pback s") (auto simp: ready_def reads_def frame_def next_ch_def getc_def split: option.splits)

lemma reads_again:
  "reads s r s' \<Longrightarrow> pback s' = None \<Longrightarrow> c \<noteq> NUL \<Longrightarrow> reads s (c # r) (again (Some c) s')"
  by (simp add: reads_def ready_def again_def frame_def)

lemma skip_blank_ready:
  assumes "ready s (ws @ c # r)" and "\<forall>b \<in> set ws. is_blank (Some b)" and "\<not> is_blank (Some c)"
  shows "\<exists>s'. skip_blank s = (Some c, s') \<and> reads s r s' \<and> pback s' = None"
  using assms
proof (induction ws arbitrary: s)
  case Nil
  then obtain s' where "next_ch s = (Some c, s')" "reads s r s'" "pback s' = None"
    by (auto elim: next_ch_ready)
  with Nil show ?case by (simp add: skip_blank.simps [of s])
next
  case (Cons b ws)
  then obtain s' where n: "next_ch s = (Some b, s')" "reads s (ws @ c # r) s'"
    by (auto elim: next_ch_ready)
  let ?s = "if b = LF then s'\<lparr>line_num := line_num s' + 1\<rparr> else s'"
  have "ready ?s (ws @ c # r)" using n(2) by (simp add: reads_def)
  from Cons.IH [OF this] Cons.prems obtain t
    where t: "skip_blank ?s = (Some c, t)" "reads ?s r t" "pback t = None" by auto
  have "reads s r t" using t(2) n(2) by (auto simp: reads_def frame_def split: if_splits)
  then show ?case using t n(1) Cons.prems by (simp add: skip_blank.simps [of s] del: if_split)
qed

lemma skip_blank_ready_end:
  assumes "ready s ws" and "\<forall>b \<in> set ws. is_blank (Some b)"
  shows "\<exists>s'. skip_blank s = (None, s') \<and> reads s [] s'"
  using assms
proof (induction ws arbitrary: s)
  case Nil
  then obtain s' where "next_ch s = (None, s')" "reads s [] s'"
    by (auto elim: next_ch_ready_end)
  then show ?case by (simp add: skip_blank.simps [of s] is_blank_def)
next
  case (Cons b ws)
  then obtain s' where n: "next_ch s = (Some b, s')" "reads s ws s'"
    by (auto elim: next_ch_ready)
  let ?s = "if b = LF then s'\<lparr>line_num := line_num s' + 1\<rparr> else s'"
  have "ready ?s ws" using n(2) by (simp add: reads_def)
  from Cons.IH [OF this] Cons.prems obtain t
    where t: "skip_blank ?s = (None, t)" "reads ?s [] t" by auto
  have "reads s [] t" using t(2) n(2) by (auto simp: reads_def frame_def split: if_splits)
  then show ?case using t n(1) Cons.prems by (simp add: skip_blank.simps [of s] del: if_split)
qed

lemma skip_to_token_ready:
  assumes "ready s (ws @ c # r)" and "\<forall>b \<in> set ws. is_blank (Some b)" and "\<not> is_blank (Some c)"
    and "c \<noteq> CHR ''#''"
  obtains s' where "skip_to_token s = (Some c, s')" "reads s r s'" "pback s' = None"
  using skip_blank_ready [OF assms(1-3)] assms(4) that by (auto simp: skip_to_token.simps [of s])

lemma skip_to_token_ready_end:
  assumes "ready s ws" and "\<forall>b \<in> set ws. is_blank (Some b)"
  obtains s' where "skip_to_token s = (None, s')" "reads s [] s'"
  using skip_blank_ready_end [OF assms] that by (auto simp: skip_to_token.simps [of s])

section \<open>Quoted strings and plain words\<close>

definition escape_char :: "char \<Rightarrow> string" where
  "escape_char c =
     (if c = DQUOTE \<or> c = BACKSLASH then [BACKSLASH, c]
      else if c = LF then [BACKSLASH, CHR ''n''] else [c])"

definition escape :: "string \<Rightarrow> string" where
  "escape v = concat (map escape_char v)"

lemma quoted_ready:
  assumes "ready s (escape v @ DQUOTE # r)" and "length acc + length v < MAX_TOKEN"
  shows "\<exists>s'. quoted acc s = (Inr (acc @ v), s') \<and> reads s r s' \<and> pback s' = None"
  using assms
proof (induction v arbitrary: s acc)
  case Nil
  then obtain s' where "next_ch s = (Some DQUOTE, s')" "reads s r s'" "pback s' = None"
    by (auto simp: escape_def elim: next_ch_ready)
  with Nil show ?case by (simp add: quoted.simps [of acc s])
next
  case (Cons c v)
  show ?case
  proof (cases "c = DQUOTE \<or> c = BACKSLASH \<or> c = LF")
    case True
    let ?e = "if c = LF then CHR ''n'' else c"
    have "ready s (BACKSLASH # ?e # escape v @ DQUOTE # r)"
      using Cons.prems True by (auto simp: escape_def escape_char_def)
    then obtain s1 where n1: "next_ch s = (Some BACKSLASH, s1)" and r1: "reads s (?e # escape v @ DQUOTE # r) s1"
      by (rule next_ch_ready)
    from r1 have "ready s1 (?e # escape v @ DQUOTE # r)" by (simp add: reads_def)
    then obtain s2 where n2: "next_ch s1 = (Some ?e, s2)" and r2: "reads s1 (escape v @ DQUOTE # r) s2"
      by (rule next_ch_ready)
    have "quoted acc s = quoted (acc @ [c]) s2"
      using True Cons.prems n1 n2 by (auto simp: quoted.simps [of acc s])
    moreover have "ready s2 (escape v @ DQUOTE # r)" using r2 by (simp add: reads_def)
    ultimately show ?thesis
      using Cons.IH [of s2 "acc @ [c]"] Cons.prems reads_trans [OF reads_trans [OF r1 r2]] by auto
  next
    case False
    then have "ready s (c # escape v @ DQUOTE # r)"
      using Cons.prems by (simp add: escape_def escape_char_def)
    then obtain s1 where n1: "next_ch s = (Some c, s1)" and r1: "reads s (escape v @ DQUOTE # r) s1"
      by (rule next_ch_ready)
    have "quoted acc s = quoted (acc @ [c]) s1"
      using False Cons.prems n1 by (auto simp: quoted.simps [of acc s])
    moreover have "ready s1 (escape v @ DQUOTE # r)" using r1 by (simp add: reads_def)
    ultimately show ?thesis
      using Cons.IH [of s1 "acc @ [c]"] Cons.prems reads_trans [OF r1] by auto
  qed
qed

definition plain_char :: "char \<Rightarrow> bool" where
  "plain_char c \<longleftrightarrow> \<not> ends_token (Some c) \<and> c \<noteq> BACKSLASH \<and> c \<noteq> DQUOTE \<and> c \<noteq> NUL"

definition delim :: "char \<Rightarrow> bool" where
  "delim d \<longleftrightarrow> ends_token (Some d)"

lemma delim_not_NUL: "delim d \<Longrightarrow> d \<noteq> NUL"
  by (auto simp: delim_def ends_token_def)

lemma unquoted_ready:
  assumes "ready s (w @ d # r)" and "pback s = None" and "\<forall>x \<in> set (c # w). plain_char x" and "delim d"
    and "length acc + length w + 1 < MAX_TOKEN"
  shows "\<exists>s'. unquoted (Some c) False acc s = (Inr (acc @ c # w), s') \<and> reads s (d # r) s'"
  using assms
proof (induction w arbitrary: s acc c)
  case Nil
  then obtain s' where n: "next_ch s = (Some d, s')" "reads s r s'" "pback s' = None"
    by (auto elim: next_ch_ready)
  then have "unquoted (Some c) False acc s = unquoted (Some d) False (acc @ [c]) s'"
    using Nil by (simp add: unquoted.simps [of "Some c"] plain_char_def Let_def)
  also have "\<dots> = (Inr (acc @ [c]), again (Some d) s')"
    using Nil by (simp add: unquoted.simps [of "Some d"] delim_def)
  finally show ?case using n Nil reads_again delim_not_NUL by auto
next
  case (Cons b w)
  then obtain s' where n: "next_ch s = (Some b, s')" "reads s (w @ d # r) s'" "pback s' = None"
    by (auto elim: next_ch_ready)
  then have "unquoted (Some c) False acc s = unquoted (Some b) False (acc @ [c]) s'"
    using Cons by (simp add: unquoted.simps [of "Some c"] plain_char_def Let_def)
  then show ?case
    using Cons.IH [of s' b "acc @ [c]"] Cons.prems n reads_trans [OF n(2)] by (auto simp: reads_def)
qed

section \<open>Tokens on the heap\<close>

definition tok_cost :: "string \<Rightarrow> nat" where
  "tok_cost t = length t + 9"

lemma token_dup_roomy:
  assumes "roomy (k + tok_cost t) (cfg_heap s)" and "NUL \<notin> set t" and "length t \<le> MAX_TOKEN"
  obtains p h where "token_dup t s = (Inr (Some (p, t)), s\<lparr>cfg_heap := h\<rparr>)" "p \<noteq> 0" "roomy k h"
proof -
  have tk: "takeWhile (\<lambda>c. c \<noteq> NUL) t = t" using assms(2) by (auto simp: takeWhile_eq_all_conv)
  have "unat (word_of_nat (length t + 1) :: u32) = length t + 1"
    using assms(3) by (intro unat_word_of_nat_small) (simp add: MAX_TOKEN_def)
  then have "roomy (k + unat (word_of_nat (length t + 1) :: u32) + 8) (cfg_heap s)"
    using assms(1) by (simp add: tok_cost_def ac_simps)
  then obtain h where "malloc (word_of_nat (length t + 1)) (cfg_heap s) = (malloc_ptr (cfg_heap s) + 4, h)"
    "malloc_ptr (cfg_heap s) + 4 \<noteq> 0" "roomy k h" by (rule malloc_roomy)
  then show thesis
    by (intro that [of "malloc_ptr (cfg_heap s) + 4" h])
      (simp_all only: token_dup_def strdup_def Let_def tk prod.case if_False not_False_eq_True)
qed

section \<open>Tokens of a text\<close>

text \<open>Reading one token: everything but the input position and the heap is as before.\<close>

definition blanks :: "string \<Rightarrow> bool" where
  "blanks ws \<longleftrightarrow> (\<forall>b \<in> set ws. is_blank (Some b))"

definition takes :: "nat \<Rightarrow> cfg \<Rightarrow> string \<Rightarrow> cfg \<Rightarrow> bool" where
  "takes k s txt s' \<longleftrightarrow> ready s' txt \<and> parsed s' = parsed s \<and> last_token s' = None \<and> roomy k (cfg_heap s')"

lemma token_dup_takes:
  assumes "reads s r s1" and "roomy (k + tok_cost t) (cfg_heap s)" and "NUL \<notin> set t"
    and "length t \<le> MAX_TOKEN" and "last_token s = None"
  obtains p s' where "token_dup t s1 = (Inr (Some (p, t)), s')" "p \<noteq> 0" "takes k s r s'"
proof -
  have "cfg_heap s1 = cfg_heap s" using assms(1) by (simp add: reads_def frame_def)
  with assms(2) have "roomy (k + tok_cost t) (cfg_heap s1)" by simp
  from this assms(3,4) obtain p h
    where t: "token_dup t s1 = (Inr (Some (p, t)), s1\<lparr>cfg_heap := h\<rparr>)" "p \<noteq> 0" "roomy k h"
    by (rule token_dup_roomy)
  moreover have "takes k s r (s1\<lparr>cfg_heap := h\<rparr>)"
    using assms(1,5) t(3)
    by (auto simp: takes_def reads_def frame_def parsed_def ready_def split: option.splits)
  ultimately show thesis using that by blast
qed

lemma get_token_eq:
  assumes "ready s (ws @ CHR ''='' # r)" and "blanks ws" and "last_token s = None"
    and "roomy (k + tok_cost ''='') (cfg_heap s)"
  obtains p s' where "cfg_get_token s = (Inr (Some (p, ''='')), s')" "takes k s r s'"
proof -
  obtain s1 where "skip_to_token s = (Some CHR ''='', s1)" "reads s r s1"
    using skip_to_token_ready [OF assms(1)] assms(2) by (auto simp: blanks_def is_blank_def)
  moreover from this(2) assms(4) obtain p s' where
    "token_dup ''='' s1 = (Inr (Some (p, ''='')), s')" "p \<noteq> 0" "takes k s r s'"
    by (rule token_dup_takes) (simp_all add: MAX_TOKEN_def assms)
  ultimately show thesis using assms(3) that by (simp add: cfg_get_token_def)
qed

lemma get_token_quoted:
  assumes "ready s (ws @ DQUOTE # escape v @ DQUOTE # r)" and "blanks ws" and "last_token s = None"
    and "NUL \<notin> set v" and "length v < MAX_TOKEN" and "roomy (k + tok_cost v) (cfg_heap s)"
  obtains p s' where "cfg_get_token s = (Inr (Some (p, v)), s')" "takes k s r s'"
proof -
  obtain s1 where k: "skip_to_token s = (Some DQUOTE, s1)" "reads s (escape v @ DQUOTE # r) s1"
    using skip_to_token_ready [OF assms(1)] assms(2) by (auto simp: blanks_def is_blank_def)
  then have "ready s1 (escape v @ DQUOTE # r)" by (simp add: reads_def)
  then obtain s2 where q: "quoted [] s1 = (Inr v, s2)" "reads s1 r s2"
    using quoted_ready [of s1 v r "[]"] assms(5) by auto
  obtain p s' where "token_dup v s2 = (Inr (Some (p, v)), s')" "p \<noteq> 0" "takes k s r s'"
    using reads_trans [OF k(2) q(2)] assms(6,4) less_imp_le [OF assms(5)] assms(3) by (rule token_dup_takes)
  with k(1) q(1) show thesis using assms(3) that by (simp add: cfg_get_token_def bnd_def)
qed

definition plain :: "string \<Rightarrow> bool" where
  "plain w \<longleftrightarrow> w \<noteq> [] \<and> length w < MAX_TOKEN \<and> list_all plain_char w"

lemma plain_props:
  assumes "plain w"
  shows "NUL \<notin> set w" "length w \<le> MAX_TOKEN" "w \<noteq> ''=''" "strcmp w ''='' \<noteq> 0"
proof -
  have c: "plain_char x" if "x \<in> set w" for x using assms that by (simp add: plain_def list_all_iff)
  show n: "NUL \<notin> set w" using c [of NUL] by (auto simp: plain_char_def)
  show "length w \<le> MAX_TOKEN" using assms by (simp add: plain_def)
  show e: "w \<noteq> ''=''" using c [of "CHR ''=''"] by (auto simp: plain_char_def ends_token_def)
  show "strcmp w ''='' \<noteq> 0" using n e by (subst strcmp_eq_0_iff) auto
qed

lemma get_token_plain:
  assumes "ready s (ws @ w @ d # r)" and "blanks ws" and "last_token s = None"
    and "plain w" and "delim d" and "roomy (k + tok_cost w) (cfg_heap s)"
  obtains p s' where "cfg_get_token s = (Inr (Some (p, w)), s')" "p \<noteq> 0" "takes k s (d # r) s'"
proof -
  obtain c v where w: "w = c # v" using assms(4) by (cases w) (auto simp: plain_def)
  have c: "\<not> is_blank (Some c)" "c \<noteq> CHR ''#''" "c \<noteq> CHR ''=''" "c \<noteq> DQUOTE"
    using assms(4) w by (auto simp: plain_def plain_char_def ends_token_def is_blank_def)
  obtain s1 where k: "skip_to_token s = (Some c, s1)" "reads s (v @ d # r) s1" "pback s1 = None"
    using skip_to_token_ready [of s ws c "v @ d # r"] assms(1,2) w c by (auto simp: blanks_def)
  then have "ready s1 (v @ d # r)" by (simp add: reads_def)
  then obtain s2 where q: "unquoted (Some c) False [] s1 = (Inr w, s2)" "reads s1 (d # r) s2"
    using unquoted_ready [of s1 v d r c "[]"] assms(4,5) k(3) w by (auto simp: plain_def list_all_iff)
  obtain p s' where "token_dup w s2 = (Inr (Some (p, w)), s')" "p \<noteq> 0" "takes k s (d # r) s'"
    using reads_trans [OF k(2) q(2)] assms(6) plain_props(1,2) [OF assms(4)] assms(3) by (rule token_dup_takes)
  with k(1) q(1) c(3,4) show thesis using assms(3) that by (simp add: cfg_get_token_def bnd_def)
qed

lemma get_token_end:
  assumes "ready s ws" and "blanks ws" and "last_token s = None" and "roomy k (cfg_heap s)"
  obtains s' where "cfg_get_token s = (Inr None, s')" "takes k s [] s'"
proof -
  obtain s1 where "skip_to_token s = (None, s1)" "reads s [] s1"
    using skip_to_token_ready_end [OF assms(1)] assms(2) by (auto simp: blanks_def)
  with assms(3,4) show thesis
    using that by (simp add: cfg_get_token_def takes_def reads_def frame_def parsed_def)
qed

section \<open>Entries\<close>

type_synonym entry = "string \<times> string option"

fun rest_of :: "entry \<Rightarrow> string" where
  "rest_of (n, None) = [LF]"
| "rest_of (n, Some v) = '' = '' @ DQUOTE # escape v @ [DQUOTE, LF]"

definition render_entry :: "entry \<Rightarrow> string" where
  "render_entry e = fst e @ rest_of e"

definition render :: "entry list \<Rightarrow> string" where
  "render es = concat (map render_entry es)"

definition entry_ok :: "entry \<Rightarrow> bool" where
  "entry_ok e \<longleftrightarrow> plain (fst e)
     \<and> (case snd e of None \<Rightarrow> True
        | Some v \<Rightarrow> NUL \<notin> set v \<and> length v < MAX_TOKEN \<and> v \<noteq> ''='')"

definition is_image :: "string \<Rightarrow> bool" where
  "is_image n \<longleftrightarrow> strcasecmp n ''image'' = 0"

text \<open>What reading an entry may take from the heap.\<close>

definition entry_cost :: "entry \<Rightarrow> nat" where
  "entry_cost e = tok_cost (fst e) + (if is_image (fst e) then 204 else 0)
     + (case snd e of None \<Rightarrow> 0 | Some v \<Rightarrow> tok_cost ''='' + tok_cost v)"

definition cost :: "entry list \<Rightarrow> nat" where
  "cost es = sum_list (map entry_cost es)"

text \<open>
  Where the parser may stand between entries: before the first one, or after its
  name, which was read to see that the entry before it has no value.
\<close>

definition shape :: "entry list \<Rightarrow> nat \<Rightarrow> cfg \<Rightarrow> bool" where
  "shape es k s \<longleftrightarrow> last_item s = None \<and>
     (last_token s = None \<and> (\<exists>ws. blanks ws \<and> ready s (ws @ render es)) \<and> k = cost es
      \<or> (\<exists>p e es'. es = e # es' \<and> last_token s = Some (p, fst e) \<and> p \<noteq> 0
           \<and> ready s (rest_of e @ render es') \<and> k = cost es - tok_cost (fst e)))"

definition stands :: "entry list \<Rightarrow> nat \<Rightarrow> cfg \<Rightarrow> bool" where
  "stands es j s \<longleftrightarrow> (\<exists>k. shape es k s \<and> roomy (j + k) (cfg_heap s))"

lemma ready_cong: "inp s' = inp s \<Longrightarrow> pback s' = pback s \<Longrightarrow> ready s' t = ready s t"
  by (simp add: ready_def split: option.split)

lemma shape_cong:
  assumes "last_item s' = last_item s" "last_token s' = last_token s" "inp s' = inp s" "pback s' = pback s"
  shows "shape es k s' = shape es k s"
  using ready_cong [OF assms(3,4)] assms by (simp add: shape_def)

definition tables :: "cfg \<Rightarrow> CONFIG list \<times> CONFIG list list \<times> bool" where
  "tables s = (cf_options s, images s, curr_image s)"

lemma parsed_tables: "parsed s' = parsed s \<Longrightarrow> tables s' = tables s"
  by (simp add: parsed_def tables_def)

lemma rest_of_delim: "\<exists>d r. rest_of e = d # r \<and> delim d"
  by (cases e rule: rest_of.cases) (auto simp: delim_def ends_token_def)

lemma stands_token:
  assumes "stands (e # es) j s" and "entry_ok e"
  obtains p s' where "cfg_get_token s = (Inr (Some (p, fst e)), s')" "p \<noteq> 0"
    "takes (j + (cost (e # es) - tok_cost (fst e))) s (rest_of e @ render es) s'" "last_item s = None"
proof -
  have li: "last_item s = None" using assms(1) by (auto simp: stands_def shape_def)
  let ?k = "j + (cost (e # es) - tok_cost (fst e))"
  have k: "?k + tok_cost (fst e) = j + cost (e # es)" by (simp add: cost_def entry_cost_def)
  consider (fresh) ws where "last_token s = None" "blanks ws" "ready s (ws @ render (e # es))"
      "roomy (j + cost (e # es)) (cfg_heap s)"
    | (held) p where "last_token s = Some (p, fst e)" "p \<noteq> 0" "ready s (rest_of e @ render es)"
      "roomy ?k (cfg_heap s)"
    using assms(1) unfolding stands_def shape_def by blast
  then show thesis
  proof cases
    case fresh
    obtain d r where d: "rest_of e = d # r" "delim d" using rest_of_delim by blast
    have rm: "roomy (?k + tok_cost (fst e)) (cfg_heap s)" using fresh(4) k by simp
    have "ready s (ws @ fst e @ d # r @ render es)"
      using fresh(3) d by (simp add: render_def render_entry_def)
    then obtain p s' where "cfg_get_token s = (Inr (Some (p, fst e)), s')" "p \<noteq> 0"
        "takes ?k s (d # r @ render es) s'"
      using fresh(2,1) assms(2) d(2) rm unfolding entry_ok_def by (blast elim: get_token_plain)
    with that d li show thesis by simp
  next
    case held
    have "takes ?k s (rest_of e @ render es) (s\<lparr>last_token := None\<rparr>)"
      using held by (auto simp: takes_def parsed_def ready_def split: option.splits)
    with held that li show thesis by (simp add: cfg_get_token_def)
  qed
qed

text \<open>The item parser returns the next entry and stands before the one after it.\<close>

definition image_cost :: "entry \<Rightarrow> nat" where
  "image_cost e = (if is_image (fst e) then 204 else 0)"

lemma cfg_next_flag:
  assumes "stands ((n, None) # es) j s" and "entry_ok (n, None)" and "list_all entry_ok es"
  obtains p s' where "cfg_next s = (Inr (Some ((p, n), None)), s')" "p \<noteq> 0"
    "stands es (j + image_cost (n, None)) s'" "tables s' = tables s"
proof -
  let ?j = "j + image_cost (n, None)"
  obtain p s1 where g1: "cfg_get_token s = (Inr (Some (p, n)), s1)" "p \<noteq> 0"
      "takes (j + (cost ((n, None) # es) - tok_cost n)) s (LF # render es) s1" and li: "last_item s = None"
    using stands_token [OF assms(1,2)] by auto
  have j: "j + (cost ((n, None) # es) - tok_cost n) = ?j + cost es"
    by (simp add: cost_def entry_cost_def image_cost_def)
  have t1: "ready s1 (LF # render es)" "last_token s1 = None" "roomy (?j + cost es) (cfg_heap s1)"
      "last_item s1 = None" "tables s1 = tables s"
    using g1(3) li unfolding j by (auto simp: takes_def parsed_def tables_def)
  have ne: "strcmp n ''='' \<noteq> 0" using assms(2) plain_props by (simp add: entry_ok_def)
  have bl: "blanks [LF]" by (simp add: blanks_def is_blank_def)
  show thesis
  proof (cases es)
    case Nil
    obtain s2 where g2: "cfg_get_token s1 = (Inr None, s2)" "takes (?j + cost es) s1 [] s2"
      using get_token_end [of s1 "[LF]"] t1 bl Nil by (auto simp: render_def)
    then have "shape es (cost es) s2" "roomy (?j + cost es) (cfg_heap s2)" "tables s2 = tables s"
      using t1(4,5) Nil
      by (auto simp: takes_def parsed_def tables_def shape_def blanks_def render_def intro!: exI [of _ "[]"])
    then show thesis
      using g1(1,2) g2(1) li ne that by (auto simp: cfg_next_def bnd_def ret_def stands_def)
  next
    case (Cons e es')
    then have e: "entry_ok e" using assms(3) by simp
    let ?k = "?j + (cost es - tok_cost (fst e))"
    obtain d r where d: "rest_of e = d # r" "delim d" using rest_of_delim by blast
    have "ready s1 ([LF] @ fst e @ d # r @ render es')"
      using t1(1) Cons d by (simp add: render_def render_entry_def)
    moreover have "?k + tok_cost (fst e) = ?j + cost es" using Cons by (simp add: cost_def entry_cost_def)
    then have "roomy (?k + tok_cost (fst e)) (cfg_heap s1)" using t1(3) by (simp only:)
    moreover have "plain (fst e)" using e by (simp add: entry_ok_def)
    ultimately obtain q s2 where g2: "cfg_get_token s1 = (Inr (Some (q, fst e)), s2)" "q \<noteq> 0"
        "takes ?k s1 (rest_of e @ render es') s2"
      using get_token_plain [of s1 "[LF]" "fst e" d "r @ render es'" ?k] bl t1(2) d by auto
    let ?s = "cfg_return_token (q, fst e) s2"
    have "shape es (cost es - tok_cost (fst e)) ?s" "roomy ?k (cfg_heap ?s)" "tables ?s = tables s"
      using g2(2,3) t1(4,5) Cons
      by (auto simp: takes_def parsed_def tables_def shape_def cfg_return_token_def ready_def split: option.splits)
    moreover have "strcmp (fst e) ''='' \<noteq> 0" using e plain_props by (simp add: entry_ok_def)
    ultimately show thesis
      using g1(1,2) g2(1) li ne that by (auto simp: cfg_next_def bnd_def ret_def modify_def stands_def)
  qed
qed

lemma cfg_next_strg:
  assumes "stands ((n, Some v) # es) j s" and "entry_ok (n, Some v)"
  obtains p q s' where "cfg_next s = (Inr (Some ((p, n), Some (q, v))), s')" "p \<noteq> 0"
    "stands es (j + image_cost (n, Some v)) s'" "tables s' = tables s"
proof -
  let ?j = "j + image_cost (n, Some v)"
  let ?rest = "DQUOTE # escape v @ DQUOTE # LF # render es"
  obtain p s1 where g1: "cfg_get_token s = (Inr (Some (p, n)), s1)" "p \<noteq> 0"
      "takes (j + (cost ((n, Some v) # es) - tok_cost n)) s ('' = '' @ ?rest) s1"
    and li: "last_item s = None"
    using stands_token [OF assms(1,2)] by auto
  have j: "j + (cost ((n, Some v) # es) - tok_cost n) = (?j + cost es + tok_cost v) + tok_cost ''=''"
    by (simp add: cost_def entry_cost_def image_cost_def)
  have v: "NUL \<notin> set v" "length v < MAX_TOKEN" "v \<noteq> ''=''" and n: "strcmp n ''='' \<noteq> 0"
    using assms(2) plain_props by (auto simp: entry_ok_def)
  have bl: "blanks '' ''" "blanks [LF]" by (simp_all add: blanks_def is_blank_def)
  have "ready s1 ('' '' @ CHR ''='' # '' '' @ ?rest)" "last_token s1 = None"
      "roomy ((?j + cost es + tok_cost v) + tok_cost ''='') (cfg_heap s1)"
    using g1(3) unfolding j by (auto simp: takes_def)
  then obtain q1 s2 where g2: "cfg_get_token s1 = (Inr (Some (q1, ''='')), s2)"
      "takes (?j + cost es + tok_cost v) s1 ('' '' @ ?rest) s2"
    using bl(1) by (metis get_token_eq)
  then have "ready s2 ('' '' @ ?rest)" "last_token s2 = None" "roomy ((?j + cost es) + tok_cost v) (cfg_heap s2)"
    by (auto simp: takes_def)
  then obtain q s3 where g3: "cfg_get_token s2 = (Inr (Some (q, v)), s3)"
      "takes (?j + cost es) s2 (LF # render es) s3"
    using bl(1) v(1,2) by (metis get_token_quoted)
  have ready3: "ready s3 ([LF] @ render es)" using g3(2) by (simp add: takes_def)
  then have "shape es (cost es) s3" "tables s3 = tables s" "roomy (?j + cost es) (cfg_heap s3)"
    using g1(3) g2(2) g3(2) li bl(2) by (auto simp: takes_def parsed_def tables_def shape_def)
  moreover have "strcmp v ''='' \<noteq> 0" using v by (subst strcmp_eq_0_iff) auto
  moreover have "strcmp ''='' ''='' = 0" by simp
  ultimately show thesis
    using g1(1,2) g2(1) g3(1) li n that by (auto simp: cfg_next_def bnd_def ret_def stands_def)
qed

section \<open>Settings\<close>

type_synonym tabs = "CONFIG list \<times> CONFIG list list \<times> bool"

text \<open>The setting an entry stands for: an image entry opens a new table.\<close>

definition spec_entry :: "entry \<Rightarrow> tabs \<Rightarrow> tabs option" where
  "spec_entry e tb =
     (case tb of (opts, imgs, cur) \<Rightarrow>
        if is_image (fst e) then
          map_option (\<lambda>(t, ws). (opts, imgs @ [t], True)) (set_table cf_image0 (fst e) (snd e))
        else if cur then
          map_option (\<lambda>(t, ws). (opts, butlast imgs @ [t], True)) (set_table (last imgs) (fst e) (snd e))
        else
          map_option (\<lambda>(t, ws). (t, imgs, False)) (set_table opts (fst e) (snd e)))"

fun spec_entries :: "entry list \<Rightarrow> tabs \<Rightarrow> tabs option" where
  "spec_entries [] tb = Some tb"
| "spec_entries (e # es) tb = (case spec_entry e tb of None \<Rightarrow> None | Some tb' \<Rightarrow> spec_entries es tb')"

lemma stands_cong:
  assumes "stands es j s" "last_item s' = last_item s" "last_token s' = last_token s" "inp s' = inp s"
    "pback s' = pback s" "cfg_heap s' = cfg_heap s"
  shows "stands es j s'"
  using assms(1,6) shape_cong [OF assms(2-5)] by (simp add: stands_def)

lemma new_image_stands:
  assumes "stands es (j + 204) s"
  obtains s' where "new_image s = (Inr (), s')" "stands es j s'" "tables s' = (cf_options s, images s @ [cf_image0], True)"
proof -
  obtain k where k: "shape es k s" "roomy (j + 204 + k) (cfg_heap s)" using assms by (auto simp: stands_def)
  have "j + 204 + k = (j + k) + unat sizeof_IMAGES + 8" by (simp add: sizeof_IMAGES_def)
  with k(2) have "roomy ((j + k) + unat sizeof_IMAGES + 8) (cfg_heap s)" by (simp only:)
  then obtain h where h: "malloc sizeof_IMAGES (cfg_heap s) = (malloc_ptr (cfg_heap s) + 4, h)"
      "malloc_ptr (cfg_heap s) + 4 \<noteq> 0" "roomy (j + k) h" by (rule malloc_roomy)
  let ?s = "s\<lparr>cfg_heap := h, images := images s @ [cf_image0],
                        cfg_bits := cfg_bits s OR HAVE_IMAGES, curr_image := True\<rparr>"
  have "new_image s = (Inr (), ?s)" using h by (simp add: new_image_def)
  moreover have "shape es k ?s" using k(1) by (simp add: shape_cong [of ?s s])
  then have "stands es j ?s" using h(3) by (auto simp: stands_def)
  moreover have "tables ?s = (cf_options s, images s @ [cf_image0], True)" by (simp add: tables_def)
  ultimately show thesis by (rule that)
qed

lemma set_current:
  assumes "stands es j s" and "set_table (curr_table s) (snd item) (map_option snd v) = Some (t, ws)"
  shows "stands es j (fold cfg_warn ws (put_table t s))"
    and "tables (fold cfg_warn ws (put_table t s)) = tables (put_table t s)"
proof -
  have "pback (fold cfg_warn ws (put_table t s)) = pback s" "inp (fold cfg_warn ws (put_table t s)) = inp s"
    "last_item (fold cfg_warn ws (put_table t s)) = last_item s"
    "last_token (fold cfg_warn ws (put_table t s)) = last_token s"
    "cfg_heap (fold cfg_warn ws (put_table t s)) = cfg_heap s" by (simp_all add: put_table_def)
  then show "stands es j (fold cfg_warn ws (put_table t s))" using assms(1) stands_cong by blast
  show "tables (fold cfg_warn ws (put_table t s)) = tables (put_table t s)" by (simp add: tables_def)
qed

lemma cfg_set_entry:
  assumes "stands es (j + image_cost e) s" and "spec_entry e (tables s) = Some tb"
    and "map_option snd v = snd e"
  obtains s' where "cfg_set (p, fst e) v s = (Inr True, s')" "stands es j s'" "tables s' = tb"
proof (cases "is_image (fst e)")
  case True
  then obtain s1 where n: "new_image s = (Inr (), s1)" "stands es j s1"
      "tables s1 = (cf_options s, images s @ [cf_image0], True)"
    using assms(1) new_image_stands [of es j s] by (auto simp: image_cost_def)
  have c: "curr_table s1 = cf_image0" "curr_image s1" using n(3) by (auto simp: tables_def curr_table_def)
  obtain t ws where t: "set_table cf_image0 (fst e) (snd e) = Some (t, ws)"
      and tb: "tb = (cf_options s, images s @ [t], True)"
    using assms(2) True by (auto simp: spec_entry_def tables_def)
  have "cfg_set (p, fst e) v s = (Inr True, fold cfg_warn ws (put_table t s1))"
    using n(1) True t c assms(3) by (simp add: cfg_set_def bnd_def is_image_def)
  moreover have "tables (put_table t s1) = tb" using tb n(3) c(2) by (auto simp: tables_def put_table_def)
  ultimately show thesis using set_current [of es j s1 "(p, fst e)" v t ws] n(2) t c(1) assms(3) that by simp
next
  case False
  obtain t ws where t: "set_table (curr_table s) (fst e) (snd e) = Some (t, ws)"
      and tb: "tb = tables (put_table t s)"
    using assms(2) False by (auto simp: spec_entry_def tables_def curr_table_def put_table_def split: if_splits)
  have "cfg_set (p, fst e) v s = (Inr True, fold cfg_warn ws (put_table t s))"
    using False t assms(3) by (simp add: cfg_set_def bnd_def ret_def is_image_def)
  then show thesis
    using set_current [of es j s "(p, fst e)" v t ws] assms(1,3) t tb False that by (simp add: image_cost_def)
qed

lemma cfg_next_end:
  assumes "stands [] j s"
  obtains s' where "cfg_next s = (Inr None, s')" "tables s' = tables s"
proof -
  obtain ws where "blanks ws" "ready s ws" "last_token s = None" "last_item s = None" "roomy j (cfg_heap s)"
    using assms by (auto simp: stands_def shape_def render_def cost_def)
  then obtain s' where "cfg_get_token s = (Inr None, s')" "takes j s [] s'" by (metis get_token_end)
  then show thesis using \<open>last_item s = None\<close> that
    by (auto simp: cfg_next_def bnd_def ret_def takes_def dest: parsed_tables)
qed

lemma cfg_next_entry:
  assumes "stands (e # es) j s" and "list_all entry_ok (e # es)"
  obtains p v s' where "cfg_next s = (Inr (Some ((p, fst e), v)), s')" "p \<noteq> 0" "map_option snd v = snd e"
    "stands es (j + image_cost e) s'" "tables s' = tables s"
proof (cases e)
  case (Pair n w)
  show thesis
  proof (cases w)
    case None
    show thesis using cfg_next_flag [of n es j s] assms that unfolding Pair None by auto
  next
    case (Some v)
    obtain p q s' where "cfg_next s = (Inr (Some ((p, n), Some (q, v))), s')" "p \<noteq> 0"
        "stands es (j + image_cost (n, Some v)) s'" "tables s' = tables s"
      using assms cfg_next_strg [of n v es j s] unfolding Pair Some by auto
    then show thesis using that [of p "Some (q, v)" s'] unfolding Pair Some by simp
  qed
qed

lemma stands_free:
  assumes "stands es j s" and "p \<noteq> 0"
  shows "stands es j (s\<lparr>cfg_heap := free p (cfg_heap s)\<rparr>)"
proof -
  obtain k where "shape es k s" "roomy (j + k) (cfg_heap s)" using assms(1) by (auto simp: stands_def)
  moreover from this have "shape es k (s\<lparr>cfg_heap := free p (cfg_heap s)\<rparr>)"
    by (simp add: shape_cong [of "s\<lparr>cfg_heap := free p (cfg_heap s)\<rparr>" s])
  ultimately show ?thesis using free_roomy [OF _ assms(2)] by (auto simp: stands_def)
qed

lemma cfg_loop_entries:
  assumes "stands es 0 s" and "list_all entry_ok es" and "spec_entries es (tables s) = Some tb"
  shows "\<exists>s'. cfg_loop s = (Inr 0, s') \<and> tables s' = tb"
  using assms
proof (induction es arbitrary: s)
  case Nil
  obtain s' where "cfg_next s = (Inr None, s')" "tables s' = tables s" using Nil(1) by (rule cfg_next_end)
  then show ?case using Nil by (simp add: cfg_loop.simps [of s])
next
  case (Cons e es)
  obtain p v s1 where n: "cfg_next s = (Inr (Some ((p, fst e), v)), s1)" "p \<noteq> 0" "map_option snd v = snd e"
      "stands es (0 + image_cost e) s1" "tables s1 = tables s"
    using Cons.prems(1,2) by (rule cfg_next_entry)
  obtain tb1 where tb1: "spec_entry e (tables s1) = Some tb1" "spec_entries es tb1 = Some tb"
    using Cons.prems(3) n(5) by (auto split: option.splits)
  obtain s2 where s2: "cfg_set (p, fst e) v s1 = (Inr True, s2)" "stands es 0 s2" "tables s2 = tb1"
    using n(4) tb1(1) n(3) by (rule cfg_set_entry)
  let ?s = "s2\<lparr>cfg_heap := free p (cfg_heap s2)\<rparr>"
  have "cfg_loop s = cfg_loop ?s" using n(1) s2(1) by (simp add: cfg_loop.simps [of s])
  moreover have "stands es 0 ?s" "tables ?s = tb1"
    using stands_free [OF s2(2) n(2)] s2(3) by (simp_all add: tables_def)
  ultimately show ?case using Cons.IH [of ?s] Cons.prems(2) tb1(2) by auto
qed

section \<open>Option tables\<close>

text \<open>The value a setting gives an option of a type; \<open>None\<close> where the setting is refused.\<close>

fun setting_value :: "CONFIG_TYPE option \<Rightarrow> string option \<Rightarrow> string option" where
  "setting_value (Some cft_strg) (Some v) = Some v"
| "setting_value (Some cft_flag) None = Some []"
| "setting_value _ _ = None"

fun apply_sets :: "('t \<Rightarrow> string \<Rightarrow> string option \<Rightarrow> ('t \<times> string list) option) \<Rightarrow> entry list \<Rightarrow> 't \<Rightarrow> 't option"
  where
  "apply_sets set_opt [] t = Some t"
| "apply_sets set_opt (e # es) t =
     (case set_opt t (fst e) (snd e) of None \<Rightarrow> None | Some (t', ws) \<Rightarrow> apply_sets set_opt es t')"

text \<open>What a list of settings leaves in an option: the last accepted one, else the old value.\<close>

fun last_setting :: "(string \<Rightarrow> CONFIG_TYPE option) \<Rightarrow> (string \<Rightarrow> string \<Rightarrow> bool) \<Rightarrow> entry list \<Rightarrow> string \<Rightarrow>
    string option \<Rightarrow> string option" where
  "last_setting kind same [] m old = old"
| "last_setting kind same (e # es) m old =
     last_setting kind same es m
       (if same (fst e) m \<and> setting_value (kind (fst e)) (snd e) \<noteq> None
        then setting_value (kind (fst e)) (snd e) else old)"

locale option_table =
  fixes set_opt :: "'t \<Rightarrow> string \<Rightarrow> string option \<Rightarrow> ('t \<times> string list) option"
    and get_opt :: "'t \<Rightarrow> string \<Rightarrow> string option"
    and kind :: "'t \<Rightarrow> string \<Rightarrow> CONFIG_TYPE option"
    and same :: "string \<Rightarrow> string \<Rightarrow> bool"
  assumes set_known: "kind t n \<noteq> None \<Longrightarrow> set_opt t n v \<noteq> None"
    and set_kind: "set_opt t n v = Some (t', ws) \<Longrightarrow> kind t' m = kind t m"
    and get_set: "set_opt t n v = Some (t', ws) \<Longrightarrow>
      get_opt t' m = (if same n m \<and> setting_value (kind t n) v \<noteq> None
                      then setting_value (kind t n) v else get_opt t m)"
begin

lemma sets_last:
  assumes "list_all (\<lambda>e. kind t (fst e) \<noteq> None) es"
  shows "\<exists>t'. apply_sets set_opt es t = Some t' \<and>
    (\<forall>m. get_opt t' m = last_setting (kind t) same es m (get_opt t m))"
  using assms
proof (induction es arbitrary: t)
  case (Cons e es)
  then obtain t1 ws where s: "set_opt t (fst e) (snd e) = Some (t1, ws)"
    using set_known [of t "fst e" "snd e"] by auto
  have k: "kind t1 = kind t" using set_kind [OF s] by (rule ext)
  obtain t' where "apply_sets set_opt es t1 = Some t'"
      "\<forall>m. get_opt t' m = last_setting (kind t) same es m (get_opt t1 m)"
    using Cons.IH [of t1] Cons.prems unfolding k by auto
  then show ?case using s get_set [OF s] by auto
qed simp

end

definition table_kind :: "CONFIG list \<Rightarrow> string \<Rightarrow> CONFIG_TYPE option" where
  "table_kind t n = map_option cf_type (find (\<lambda>e. strcasecmp (cf_name e) n = 0) t)"

definition same_name :: "string \<Rightarrow> string \<Rightarrow> bool" where
  "same_name n m \<longleftrightarrow> strcasecmp n m = 0"

lemma table_kind_simps [simp]:
  "table_kind [] n = None"
  "table_kind (e # t) n = (if strcasecmp (cf_name e) n = 0 then Some (cf_type e) else table_kind t n)"
  by (simp_all add: table_kind_def)

lemma set_entry_parts:
  assumes "set_entry e v = (e', ws)"
  shows "cf_name e' = cf_name e" "cf_type e' = cf_type e"
    and "cf_data e' = (case setting_value (Some (cf_type e)) v of Some x \<Rightarrow> Some x | None \<Rightarrow> cf_data e)"
  using assms by (cases "cf_type e"; cases v; auto simp: set_entry_def split: if_splits)+

lemma set_table_known: "table_kind t n \<noteq> None \<Longrightarrow> set_table t n v \<noteq> None"
  by (induction t) (auto split: prod.splits)

lemma set_table_kind: "set_table t n v = Some (t', ws) \<Longrightarrow> table_kind t' m = table_kind t m"
proof (induction t arbitrary: t')
  case (Cons e t)
  show ?case
  proof (cases "strcasecmp (cf_name e) n = 0")
    case True
    then obtain e' where e': "set_entry e v = (e', ws)" "t' = e' # t"
      using Cons.prems by (auto split: prod.splits)
    then show ?thesis using set_entry_parts(1,2) [OF e'(1)] by simp
  next
    case False
    with Cons show ?thesis by auto
  qed
qed simp

lemma set_table_get:
  "set_table t n v = Some (t', ws) \<Longrightarrow>
     cfg_get_strg_i t' m = (if same_name n m \<and> setting_value (table_kind t n) v \<noteq> None
                            then setting_value (table_kind t n) v else cfg_get_strg_i t m)"
proof (induction t arbitrary: t')
  case (Cons e t)
  show ?case
  proof (cases "strcasecmp (cf_name e) n = 0")
    case True
    then obtain e' where e': "set_entry e v = (e', ws)" "t' = e' # t"
      using Cons.prems by (auto split: prod.splits)
    have "strcasecmp (cf_name e) m = 0 \<longleftrightarrow> same_name n m"
      using True strcasecmp_trans strcasecmp_sym unfolding same_name_def by blast
    then show ?thesis using True e' set_entry_parts [OF e'(1)]
      by (auto split: option.splits)
  next
    case False
    then obtain t1 where t1: "set_table t n v = Some (t1, ws)" "t' = e # t1"
      using Cons.prems by auto
    have "same_name n m \<Longrightarrow> strcasecmp (cf_name e) m \<noteq> 0"
      using False strcasecmp_trans strcasecmp_sym unfolding same_name_def by blast
    then show ?thesis using Cons.IH [OF t1(1)] t1(2) False by auto
  qed
qed simp

interpretation opts: option_table set_table cfg_get_strg_i table_kind same_name
  using set_table_known set_table_kind set_table_get by unfold_locales blast+

section \<open>Sections of a configuration\<close>

text \<open>
  A configuration is its global settings followed by image sections, each the path
  of the image and the settings below it.
\<close>

type_synonym csection = "string \<times> entry list"

definition section_entries :: "csection \<Rightarrow> entry list" where
  "section_entries sec = (''image'', Some (fst sec)) # snd sec"

definition config_entries :: "entry list \<Rightarrow> csection list \<Rightarrow> entry list" where
  "config_entries gs secs = gs @ concat (map section_entries secs)"

definition global_get :: "entry list \<Rightarrow> string \<Rightarrow> string option" where
  "global_get gs m = last_setting (table_kind cf_options0) same_name gs m None"

definition section_get :: "csection \<Rightarrow> string \<Rightarrow> string option" where
  "section_get sec m = last_setting (table_kind cf_image0) same_name (section_entries sec) m None"

text \<open>The names a section is found by: its label, or else its file name, and its alias.\<close>

definition section_label :: "csection \<Rightarrow> string" where
  "section_label sec = (case section_get sec ''label'' of Some l \<Rightarrow> l | None \<Rightarrow> after_slash (fst sec))"

definition section_named :: "string \<Rightarrow> csection \<Rightarrow> bool" where
  "section_named lab sec \<longleftrightarrow> strcmp (section_label sec) lab = 0
     \<or> (case section_get sec ''alias'' of None \<Rightarrow> False | Some a \<Rightarrow> strcmp a lab = 0)"

definition settings_ok :: "CONFIG list \<Rightarrow> entry list \<Rightarrow> bool" where
  "settings_ok t es \<longleftrightarrow>
     list_all (\<lambda>e. entry_ok e \<and> \<not> is_image (fst e) \<and> table_kind t (fst e) \<noteq> None) es"

definition path_ok :: "string \<Rightarrow> bool" where
  "path_ok p \<longleftrightarrow> NUL \<notin> set p \<and> length p < MAX_TOKEN \<and> p \<noteq> ''=''"

definition config_ok :: "entry list \<Rightarrow> csection list \<Rightarrow> bool" where
  "config_ok gs secs \<longleftrightarrow> settings_ok cf_options0 gs
     \<and> list_all (\<lambda>sec. path_ok (fst sec) \<and> settings_ok cf_image0 (snd sec)) secs"

lemma is_image_image [simp]: "is_image ''image''"
  by (simp add: is_image_def strcasecmp_eq_0_iff)

lemma table_kind_image: "is_image n \<Longrightarrow> table_kind cf_image0 n = Some cft_strg"
proof -
  assume "is_image n"
  then have "strcasecmp ''image'' n = 0" using strcasecmp_sym by (simp add: is_image_def)
  then show ?thesis by (simp add: cf_image0_def strg_def)
qed

lemma initial_tables [simp]: "cfg_get_strg_i cf_options0 m = None" "cfg_get_strg_i cf_image0 m = None"
  by (simp_all add: cf_options0_def cf_image0_def strg_def flg_def)

lemma spec_entries_append:
  "spec_entries (es @ fs) tb = (case spec_entries es tb of None \<Rightarrow> None | Some tb' \<Rightarrow> spec_entries fs tb')"
  by (induction es arbitrary: tb) (auto split: option.splits)

lemma spec_globals:
  "list_all (\<lambda>e. \<not> is_image (fst e)) gs \<Longrightarrow> apply_sets set_table gs t = Some t' \<Longrightarrow>
     spec_entries gs (t, imgs, False) = Some (t', imgs, False)"
  by (induction gs arbitrary: t) (auto simp: spec_entry_def split: option.splits)

lemma spec_settings:
  "list_all (\<lambda>e. \<not> is_image (fst e)) es \<Longrightarrow> apply_sets set_table es t = Some t' \<Longrightarrow>
     spec_entries es (opts, imgs @ [t], True) = Some (opts, imgs @ [t'], True)"
  by (induction es arbitrary: t) (auto simp: spec_entry_def split: option.splits)

lemma settings_ok_known: "settings_ok t es \<Longrightarrow> list_all (\<lambda>e. table_kind t (fst e) \<noteq> None) es"
  and settings_ok_entry: "settings_ok t es \<Longrightarrow> list_all entry_ok es"
  and settings_ok_image: "settings_ok t es \<Longrightarrow> list_all (\<lambda>e. \<not> is_image (fst e)) es"
  by (auto simp: settings_ok_def list_all_iff)

lemma section_table:
  assumes "settings_ok cf_image0 (snd sec)"
  obtains t where "apply_sets set_table (section_entries sec) cf_image0 = Some t"
    "\<And>m. cfg_get_strg_i t m = section_get sec m"
proof -
  have "list_all (\<lambda>e. table_kind cf_image0 (fst e) \<noteq> None) (section_entries sec)"
    using settings_ok_known [OF assms] table_kind_image [of "''image''"] by (simp add: section_entries_def)
  then show thesis using opts.sets_last that by (force simp: section_get_def)
qed

lemma spec_section:
  assumes "settings_ok cf_image0 (snd sec)" and "apply_sets set_table (section_entries sec) cf_image0 = Some t"
  shows "spec_entries (section_entries sec) (opts, imgs, cur) = Some (opts, imgs @ [t], True)"
proof -
  obtain t1 ws where t1: "set_table cf_image0 ''image'' (Some (fst sec)) = Some (t1, ws)"
      "apply_sets set_table (snd sec) t1 = Some t"
    using assms(2) by (auto simp: section_entries_def split: option.splits)
  then show ?thesis
    using spec_settings [OF settings_ok_image [OF assms(1)] t1(2)]
    by (simp add: section_entries_def spec_entry_def)
qed

lemma spec_sections:
  assumes "list_all (\<lambda>sec. settings_ok cf_image0 (snd sec)) secs"
  shows "\<exists>ts cur'. spec_entries (concat (map section_entries secs)) (opts, imgs, cur) = Some (opts, imgs @ ts, cur')
    \<and> list_all2 (\<lambda>sec t. \<forall>m. cfg_get_strg_i t m = section_get sec m) secs ts"
  using assms
proof (induction secs arbitrary: imgs cur)
  case (Cons sec secs)
  then obtain t where t: "apply_sets set_table (section_entries sec) cf_image0 = Some t"
      "\<And>m. cfg_get_strg_i t m = section_get sec m"
    by (auto elim: section_table)
  obtain ts cur' where
    "spec_entries (concat (map section_entries secs)) (opts, (imgs @ [t]), True) = Some (opts, (imgs @ [t]) @ ts, cur')"
    "list_all2 (\<lambda>sec t. \<forall>m. cfg_get_strg_i t m = section_get sec m) secs ts"
    using Cons.IH [of "imgs @ [t]" True] Cons.prems by auto
  with t spec_section [OF _ t(1), of opts imgs cur] Cons.prems show ?case
    by (intro exI [of _ "t # ts"] exI [of _ cur']) (simp add: spec_entries_append)
qed auto

lemma last_setting_image:
  "list_all (\<lambda>e. \<not> is_image (fst e)) es \<Longrightarrow> last_setting k same_name es ''image'' old = old"
  by (induction es arbitrary: old) (auto simp: same_name_def is_image_def)

lemma section_get_image: "settings_ok cf_image0 (snd sec) \<Longrightarrow> section_get sec ''image'' = Some (fst sec)"
  using last_setting_image [OF settings_ok_image, of cf_image0 "snd sec"] table_kind_image [of "''image''"]
  by (simp add: section_get_def section_entries_def same_name_def is_image_def [symmetric])

lemma image_matches_section:
  assumes "\<forall>m. cfg_get_strg_i t m = section_get sec m" and "settings_ok cf_image0 (snd sec)"
  shows "image_matches nul0 lab t = section_named lab sec"
  using assms section_get_image [OF assms(2)]
  by (simp add: image_matches_def section_named_def image_label_def section_label_def split: option.split)

lemma find_image_section:
  assumes "list_all2 (\<lambda>sec t. \<forall>m. cfg_get_strg_i t m = section_get sec m) (pre @ sec # post) ts"
    and "list_all (\<lambda>sec. settings_ok cf_image0 (snd sec)) (pre @ sec # post)"
    and "list_all (\<lambda>sec. \<not> section_named lab sec) pre" and "section_named lab sec"
  shows "\<exists>t. cfg_find_image nul0 lab ts = Some t \<and> (\<forall>m. cfg_get_strg_i t m = section_get sec m)"
  using assms
proof (induction pre arbitrary: ts)
  case Nil
  then obtain t ts' where "ts = t # ts'" "\<forall>m. cfg_get_strg_i t m = section_get sec m"
    by (auto simp: list_all2_Cons1)
  then show ?case using Nil.prems image_matches_section [of t sec nul0 lab] by simp
next
  case (Cons sec' pre)
  then obtain t ts' where t: "ts = t # ts'" "\<forall>m. cfg_get_strg_i t m = section_get sec' m"
      "list_all2 (\<lambda>sec t. \<forall>m. cfg_get_strg_i t m = section_get sec m) (pre @ sec # post) ts'"
    by (auto simp: list_all2_Cons1)
  then have "\<not> image_matches nul0 lab t"
    using Cons.prems image_matches_section [of t sec' nul0 lab] by simp
  then show ?case using Cons.IH [OF t(3)] Cons.prems t(1) by simp
qed

lemma config_ok_entries: "config_ok gs secs \<Longrightarrow> list_all entry_ok (config_entries gs secs)"
proof -
  assume c: "config_ok gs secs"
  have "plain ''image''" by (simp add: plain_def plain_char_def ends_token_def MAX_TOKEN_def)
  then have "list_all entry_ok (section_entries sec)" if "sec \<in> set secs" for sec
    using c that settings_ok_entry [of cf_image0 "snd sec"]
    by (auto simp: config_ok_def list_all_iff section_entries_def entry_ok_def path_ok_def)
  then show ?thesis
    using c settings_ok_entry [of cf_options0 gs] by (auto simp: config_ok_def config_entries_def list_all_iff)
qed

lemma config_spec:
  assumes "config_ok gs secs"
  shows "\<exists>t ts cur. spec_entries (config_entries gs secs) (cf_options0, [], False) = Some (t, ts, cur)
    \<and> (\<forall>m. cfg_get_strg_i t m = global_get gs m)
    \<and> list_all2 (\<lambda>sec t. \<forall>m. cfg_get_strg_i t m = section_get sec m) secs ts"
proof -
  have g: "settings_ok cf_options0 gs" and ss: "list_all (\<lambda>sec. settings_ok cf_image0 (snd sec)) secs"
    using assms by (auto simp: config_ok_def list_all_iff)
  obtain t where t: "apply_sets set_table gs cf_options0 = Some t" "\<forall>m. cfg_get_strg_i t m = global_get gs m"
    using opts.sets_last [OF settings_ok_known [OF g]] by (auto simp: global_get_def)
  obtain ts cur where "spec_entries (concat (map section_entries secs)) (t, [], False) = Some (t, ts, cur)"
      "list_all2 (\<lambda>sec t. \<forall>m. cfg_get_strg_i t m = section_get sec m) secs ts"
    using spec_sections [OF ss, of t "[]" False] by auto
  then show ?thesis
    using t spec_globals [OF settings_ok_image [OF g] t(1)]
    by (auto simp: config_entries_def spec_entries_append)
qed

lemma cfg_start_stands:
  assumes "roomy (cost es) h"
  shows "stands es 0 ((cfg_start h bits old)\<lparr>file_name := f, inp := render es\<rparr>)"
  using assms
  by (auto simp: stands_def shape_def ready_def cfg_start_def blanks_def intro!: exI [of _ "[]"])

lemma config_parse:
  assumes "config_ok gs secs" and "roomy (cost (config_entries gs secs)) h"
  shows "\<exists>s'. cfg_parse f (render (config_entries gs secs)) (length (render (config_entries gs secs)))
        (cfg_start h bits old) = (Inr 0, s')
    \<and> (\<forall>m. cfg_get_strg_i (cf_options s') m = global_get gs m)
    \<and> list_all2 (\<lambda>sec t. \<forall>m. cfg_get_strg_i t m = section_get sec m) secs (images s')"
proof -
  let ?s = "(cfg_start h bits old)\<lparr>file_name := f, inp := render (config_entries gs secs)\<rparr>"
  obtain t ts cur where sp: "spec_entries (config_entries gs secs) (tables ?s) = Some (t, ts, cur)"
      "\<forall>m. cfg_get_strg_i t m = global_get gs m"
      "list_all2 (\<lambda>sec t. \<forall>m. cfg_get_strg_i t m = section_get sec m) secs ts"
    using config_spec [OF assms(1)] by (auto simp: tables_def cfg_start_def)
  obtain s' where "cfg_loop ?s = (Inr 0, s')" "tables s' = (t, ts, cur)"
    using cfg_loop_entries [OF cfg_start_stands [OF assms(2)] config_ok_entries [OF assms(1)] sp(1)] by blast
  then show ?thesis using sp(2,3) by (auto simp: cfg_parse_def tables_def)
qed

section \<open>Properties\<close>

text \<open>
  Property C1: a configuration of known, well-formed settings parses without error when
  the heap has room for its tokens, and then every lookup in an image section gives the
  last value the section sets, or else the last value the global part sets.  The
  section looked up is the first one whose label (or file name) or alias is the
  given name.
\<close>

theorem config_lookup:
  assumes "config_ok gs secs" and "roomy (cost (config_entries gs secs)) h"
    and "secs = pre @ sec # post" and "list_all (\<lambda>c. \<not> section_named lab c) pre" and "section_named lab sec"
  shows "\<exists>s'. cfg_parse f (render (config_entries gs secs)) (length (render (config_entries gs secs)))
        (cfg_start h bits old) = (Inr 0, s')
    \<and> (\<forall>item. cfg_get_strg nul0 s' (Some lab) item =
         (case section_get sec item of Some v \<Rightarrow> Some v | None \<Rightarrow> global_get gs item))"
proof -
  obtain s' where p: "cfg_parse f (render (config_entries gs secs)) (length (render (config_entries gs secs)))
        (cfg_start h bits old) = (Inr 0, s')"
    and g: "\<forall>m. cfg_get_strg_i (cf_options s') m = global_get gs m"
    and l: "list_all2 (\<lambda>sec t. \<forall>m. cfg_get_strg_i t m = section_get sec m) secs (images s')"
    using config_parse [OF assms(1,2)] by blast
  have "list_all (\<lambda>sec. settings_ok cf_image0 (snd sec)) secs"
    using assms(1) by (auto simp: config_ok_def list_all_iff)
  then obtain t where "cfg_find_image nul0 lab (images s') = Some t" "\<forall>m. cfg_get_strg_i t m = section_get sec m"
    using find_image_section l assms(3-5) by blast
  with p g show ?thesis by (auto simp: cfg_get_strg_def split: option.splits)
qed

text \<open>A small configuration with two images.\<close>

definition demo_globals :: "entry list" where
  "demo_globals = [(''timeout'', Some ''50''), (''root'', Some ''/dev/sda3''), (''read-only'', None)]"

definition demo_sections :: "csection list" where
  "demo_sections =
     [(''/vmlinux'', [(''label'', Some ''linux''), (''Root'', Some ''/dev/sda4'')]),
      (''/boot/old'', [(''append'', Some ''debug'')])]"

lemma demo_config_ok: "config_ok demo_globals demo_sections"
  by (simp add: config_ok_def settings_ok_def demo_globals_def demo_sections_def entry_ok_def plain_def
      plain_char_def ends_token_def MAX_TOKEN_def is_image_def path_ok_def
      cf_options0_def cf_image0_def strg_def flg_def strcasecmp_eq_0_iff fold_case_def tolower_def ccode_def)

lemma demo_config_roomy: "roomy (cost (config_entries demo_globals demo_sections)) (heap_start (\<lambda>_. 0))"
  by (simp add: roomy_def heap_start_def layout_defs cost_def config_entries_def section_entries_def
      demo_globals_def demo_sections_def entry_cost_def tok_cost_def is_image_def
      strcasecmp_eq_0_iff fold_case_def tolower_def ccode_def)

theorem config_lookup_witness:
  "\<exists>s'. cfg_parse None (render (config_entries demo_globals demo_sections))
         (length (render (config_entries demo_globals demo_sections)))
         (cfg_start (heap_start (\<lambda>_. 0)) 0 []) = (Inr 0, s')
     \<and> (\<forall>item. cfg_get_strg [] s' (Some ''old'') item =
         (case section_get (''/boot/old'', [(''append'', Some ''debug'')]) item of
            Some v \<Rightarrow> Some v | None \<Rightarrow> global_get demo_globals item))"
proof (rule config_lookup)
  show "demo_sections = [(''/vmlinux'', [(''label'', Some ''linux''), (''Root'', Some ''/dev/sda4'')])]
      @ (''/boot/old'', [(''append'', Some ''debug'')]) # []" by (simp add: demo_sections_def)
  show "config_ok demo_globals demo_sections" by (rule demo_config_ok)
  show "roomy (cost (config_entries demo_globals demo_sections)) (heap_start (\<lambda>_. 0))" by (rule demo_config_roomy)
  show "list_all (\<lambda>c. \<not> section_named ''old'' c)
      [(''/vmlinux'', [(''label'', Some ''linux''), (''Root'', Some ''/dev/sda4'')])]"
    by (simp add: section_named_def section_label_def section_get_def section_entries_def same_name_def
        cf_image0_def strg_def flg_def strcasecmp_eq_0_iff fold_case_def tolower_def ccode_def)
  show "section_named ''old'' (''/boot/old'', [(''append'', Some ''debug'')])"
    by (simp add: section_named_def section_label_def section_get_def section_entries_def same_name_def
        cf_image0_def strg_def flg_def strcasecmp_eq_0_iff fold_case_def tolower_def ccode_def after_slash_def)
qed

lemma quoted_length: "quoted acc s = (Inr t, s') \<Longrightarrow> length t < MAX_TOKEN"
proof (induction acc s rule: quoted.induct)
  case (1 acc s)
  show ?case
  proof (cases "length acc \<ge> MAX_TOKEN")
    case True
    with "1.prems" show ?thesis by (simp add: quoted.simps [of acc s] cfg_error_def)
  next
    case False
    with "1.prems" 1(1-5) [OF False] show ?thesis
      by (simp add: quoted.simps [of acc s] cfg_error_def split: prod.splits option.splits if_splits)
  qed
qed

lemma unquoted_length: "unquoted ch escaped acc s = (Inr t, s') \<Longrightarrow> length t < MAX_TOKEN"
proof (induction ch escaped acc s rule: unquoted.induct)
  case (1 ch escaped acc s)
  show ?case
  proof (cases "length acc \<ge> MAX_TOKEN")
    case True
    with "1.prems" show ?thesis by (simp add: unquoted.simps [of ch] cfg_error_def)
  next
    case False
    show ?thesis
    proof (cases escaped)
      case True
      have "unquoted ch True acc s = (Inr t, s')" using True "1.prems" by simp
      with "1.IH"(1) [OF False True] False show ?thesis
        by (subst (asm) unquoted.simps) (auto simp: cfg_error_def Let_def split: prod.splits option.splits if_splits)
    next
      case e: False
      then show ?thesis using "1.prems" "1.IH"(2) [OF False e] False
        by (auto simp: unquoted.simps [of ch] Let_def split: prod.splits if_splits)
    qed
  qed
qed

lemma token_dup_length: "token_dup t s = (Inr (Some (p, t')), s') \<Longrightarrow> length t' \<le> length t"
  by (auto simp: token_dup_def Let_def length_takeWhile_le split: prod.splits if_splits)

lemma fresh_token:
  assumes "cfg_get_token s = (Inr (Some (p, t)), s')" and "last_token s = None"
  shows "length t < MAX_TOKEN"
proof -
  obtain ch s1 where k: "skip_to_token s = (ch, s1)" by fastforce
  with assms obtain c where c: "ch = Some c" by (cases ch) (auto simp: cfg_get_token_def)
  show ?thesis
  proof (cases "c = CHR ''=''")
    case True
    then show ?thesis using assms k c token_dup_length [of "''=''" s1 p t s']
      by (simp add: cfg_get_token_def MAX_TOKEN_def)
  next
    case False
    then have "bnd (if c = DQUOTE then quoted [] else unquoted (Some c) False []) token_dup s1
        = (Inr (Some (p, t)), s')" using assms k c by (simp add: cfg_get_token_def)
    then obtain x s2 where "(if c = DQUOTE then quoted [] else unquoted (Some c) False []) s1 = (Inr x, s2)"
        and x: "token_dup x s2 = (Inr (Some (p, t)), s')" by (rule bnd_InrE)
    then have "length x < MAX_TOKEN" using quoted_length unquoted_length by (auto split: if_splits)
    with token_dup_length [OF x] show ?thesis by linarith
  qed
qed

text \<open>
  Property C39: the token buffer of \<open>cfg_get_token\<close> holds \<open>MAX_TOKEN + 1\<close> bytes, and no token
  read from the input is longer than \<open>MAX_TOKEN - 1\<close>, so that the terminating NUL is always
  stored inside the buffer.
\<close>

theorem cfg_token_bound:
  assumes "cfg_get_token s = (Inr (Some (p, t)), s')" and "last_token s = None"
  shows "length t < MAX_TOKEN"
  using assms by (rule fresh_token)

theorem cfg_token_bound_witness:
  "\<exists>p s'. cfg_get_token (cfg_start (heap_start (\<lambda>_. 0)) 0 ''root=/dev'') = (Inr (Some (p, ''root'')), s')
     \<and> length ''root'' < MAX_TOKEN"
proof -
  let ?s = "cfg_start (heap_start (\<lambda>_. 0)) 0 ''root=/dev''"
  have lt: "last_token ?s = None" by (simp add: cfg_start_def)
  have "ready ?s ([] @ ''root'' @ CHR ''='' # ''/dev'')" by (simp add: ready_def cfg_start_def)
  moreover have "blanks []" "plain ''root''" "delim CHR ''=''" "roomy (0 + tok_cost ''root'') (cfg_heap ?s)"
    by (simp_all add: blanks_def plain_def plain_char_def delim_def ends_token_def MAX_TOKEN_def
        roomy_def tok_cost_def cfg_start_def heap_start_def layout_defs)
  ultimately obtain p s' where g: "cfg_get_token ?s = (Inr (Some (p, ''root'')), s')"
    using lt by (metis get_token_plain)
  from cfg_token_bound [OF g lt] g show ?thesis by blast
qed

end
