(* ===== verification/Prom.thy ===== *)
theory Prom
  imports Malloc
begin

unbundle bit_operations_syntax

text \<open>
  The Open Firmware client interface of \<^verbatim>\<open>loader/prom.c\<close>.  The firmware is not part of
  the program: it is a parameter \<open>fw\<close> that takes its own state and the argument block of
  a call, and gives its new state, the return cells, and the bytes it stores through a
  buffer argument.

  The state \<open>machine\<close> holds the globals of \<^verbatim>\<open>prom.c\<close>, the boot information block and the
  heap.  Computations end in a value, in an error of the loader, or in \<open>Hang\<close> where a
  loop ran \<open>budget\<close> times without ending.
\<close>

section \<open>Firmware calls\<close>

text \<open>A string argument carries what it points at; \<open>Buf\<close> is a buffer the firmware fills.\<close>

datatype prom_arg = Num u32 | Str string | Buf

record prom_args =
  service :: string
  nargs :: nat
  nret :: nat
  args :: "prom_arg list"

type_synonym 's firmware = "'s \<Rightarrow> prom_args \<Rightarrow> 's \<times> u32 list \<times> bytes"

datatype stop = Err quik_err_t | Hang

text \<open>
  What memory holds in the places the code reads without having set them: the local
  \<open>result\<close> of \<open>prom_claim\<close> (also the length of a configuration file that was never looked for),
  the C string and the path structure at address 0, and the bytes below the digit table of
  \<^verbatim>\<open>printf.c\<close>.  \<open>jk_local\<close> is the address of a local variable of \<^verbatim>\<open>main.c\<close> that the code frees.
\<close>

record junk =
  jk_result :: u32
  jk_nulstr :: string
  jk_path :: path_t
  jk_digit :: "int \<Rightarrow> char"
  jk_local :: u32

record 's machine =
  fws :: 's
  prom_stdin :: ihandle
  prom_stdout :: ihandle
  prom_chosen :: phandle
  prom_root :: phandle
  prom_options :: phandle
  prom_mmu :: ihandle
  prom_memory :: ihandle
  prom_flags :: u32
  shim_mediabay_ata :: phandle
  shim_cpu_count :: u32
  shim_cpu :: phandle
  mem :: heap
  bi :: boot_info_t
  spin :: u32
  junk :: junk
  budget :: nat

type_synonym ('s, 'z, 'a) prog = "(('s, 'z) machine_scheme, stop, 'a) io"

text \<open>An error of the loader handed to the caller as a value, as a \<open>quik_err_t\<close> result is.\<close>

definition catch :: "('s, 'z, 'a) prog \<Rightarrow> ('s, 'z, quik_err_t + 'a) prog" where
  "catch m = (\<lambda>w. case m w of
       (Inl Hang, w') \<Rightarrow> (Inl Hang, w')
     | (Inl (Err e), w') \<Rightarrow> (Inr (Inl e), w')
     | (Inr x, w') \<Rightarrow> (Inr (Inr x), w'))"

text \<open>The return cells are cleared before the call, so a missing one reads as 0.\<close>

definition call_prom ::
    "'s firmware \<Rightarrow> string \<Rightarrow> nat \<Rightarrow> nat \<Rightarrow> prom_arg list \<Rightarrow> ('s, 'z, u32 \<times> bytes) prog" where
  "call_prom fw srv n r as =
     (\<lambda>w. case fw (fws w) \<lparr>service = srv, nargs = n, nret = r, args = as\<rparr> of
        (s', rets, data) \<Rightarrow> (Inr (case rets of [] \<Rightarrow> 0 | x # _ \<Rightarrow> x, data), w\<lparr>fws := s'\<rparr>))"

definition call :: "'s firmware \<Rightarrow> string \<Rightarrow> nat \<Rightarrow> nat \<Rightarrow> prom_arg list \<Rightarrow> ('s, 'z, u32) prog" where
  "call fw srv n r as = bnd (call_prom fw srv n r as) (\<lambda>(x, data). ret x)"

definition prom_getprop :: "'s firmware \<Rightarrow> phandle \<Rightarrow> string \<Rightarrow> u32 \<Rightarrow> ('s, 'z, u32 \<times> bytes) prog" where
  "prom_getprop fw node name len = call_prom fw ''getprop'' 4 1 [Num node, Str name, Buf, Num len]"

definition prom_getproplen :: "'s firmware \<Rightarrow> phandle \<Rightarrow> string \<Rightarrow> ('s, 'z, u32) prog" where
  "prom_getproplen fw node name = call fw ''getproplen'' 2 1 [Num node, Str name]"

definition finddevice :: "'s firmware \<Rightarrow> string \<Rightarrow> ('s, 'z, u32) prog" where
  "finddevice fw path = call fw ''finddevice'' 1 1 [Str path]"

section \<open>Console\<close>

definition write_out :: "'s firmware \<Rightarrow> string \<Rightarrow> ('s, 'z, u32) prog" where
  "write_out fw cs = (\<lambda>w. call fw ''write'' 3 1 [Num (prom_stdout w), Str cs, Num (word_of_nat (length cs))] w)"

text \<open>\<open>prom_print\<close> writes maximal runs without a newline, each newline as CR LF.\<close>

function prom_print :: "'s firmware \<Rightarrow> string \<Rightarrow> ('s, 'z, unit) prog" where
  "prom_print fw msg =
     (if msg = [] then ret ()
      else
        (let run = takeWhile (\<lambda>c. c \<noteq> LF) msg; rest = dropWhile (\<lambda>c. c \<noteq> LF) msg in
         bnd (if run = [] then ret 0 else write_out fw run) (\<lambda>_.
         bnd (if rest = [] then ret 0 else write_out fw [CR, LF]) (\<lambda>_.
         prom_print fw (tl rest)))))"
  by pat_completeness auto
termination
proof (relation "measure (\<lambda>(fw, msg). length msg)", goal_cases)
  case (2 fw msg)
  have "length (dropWhile (\<lambda>c. c \<noteq> LF) msg) \<le> length msg" by (rule length_dropWhile_le)
  with 2 show ?case by (cases "dropWhile (\<lambda>c. c \<noteq> LF) msg") auto
qed simp

declare prom_print.simps [simp del]

definition putchar :: "'s firmware \<Rightarrow> char \<Rightarrow> ('s, 'z, u32) prog" where
  "putchar fw c =
     (\<lambda>w. if prom_stdout w = 0 then (Inr 0, w)
          else bnd (if c = LF then write_out fw [CR] else ret 0) (\<lambda>_. write_out fw [c]) w)"

text \<open>A key is the value \<open>getchar\<close> returns: a character code, or \<open>KEY_NONE\<close>.\<close>

definition KEY_NONE :: u32 where
  "KEY_NONE = - 1"

definition key_of :: "bytes \<Rightarrow> u32" where
  "key_of data = (case data of [] \<Rightarrow> 0 | b # _ \<Rightarrow> ucast b)"

definition read_key :: "'s firmware \<Rightarrow> ('s, 'z, u32 \<times> bytes) prog" where
  "read_key fw = (\<lambda>w. call_prom fw ''read'' 3 1 [Num (prom_stdin w), Buf, Num 1] w)"

fun getchar_loop :: "'s firmware \<Rightarrow> nat \<Rightarrow> ('s, 'z, u32) prog" where
  "getchar_loop fw 0 = throw Hang"
| "getchar_loop fw (Suc n) =
     bnd (read_key fw) (\<lambda>(r, data).
       if r = 0 then getchar_loop fw n
       else ret (if 0 <s r then key_of data else KEY_NONE))"

definition getchar :: "'s firmware \<Rightarrow> ('s, 'z, u32) prog" where
  "getchar fw = (\<lambda>w. if prom_stdin w = 0 then (Inr (- 1), w) else getchar_loop fw (budget w) w)"

definition nbgetchar :: "'s firmware \<Rightarrow> ('s, 'z, u32) prog" where
  "nbgetchar fw =
     (\<lambda>w. if prom_stdin w = 0 then (Inr (- 1), w)
          else bnd (read_key fw) (\<lambda>(r, data). ret (if 0 <s r then key_of data else KEY_NONE)) w)"

definition get_ms :: "'s firmware \<Rightarrow> ('s, 'z, u32) prog" where
  "get_ms fw = call fw ''milliseconds'' 0 1 []"

text \<open>\<open>wait_for_key\<close> of \<^verbatim>\<open>util.c\<close>: times are \<open>int\<close>s, compared signed.\<close>

fun wait_loop :: "'s firmware \<Rightarrow> u32 \<Rightarrow> nat \<Rightarrow> ('s, 'z, u32) prog" where
  "wait_loop fw until 0 = throw Hang"
| "wait_loop fw until (Suc n) =
     bnd (nbgetchar fw) (\<lambda>c.
       if c \<noteq> KEY_NONE then ret c
       else bnd (get_ms fw) (\<lambda>now. if now \<le>s until then wait_loop fw until n else ret c))"

definition wait_for_key :: "'s firmware \<Rightarrow> u32 \<Rightarrow> u32 \<Rightarrow> ('s, 'z, u32) prog" where
  "wait_for_key fw timeout timeout_key =
     bnd (get_ms fw) (\<lambda>beg.
     bnd (\<lambda>w. if 0 <s timeout then wait_loop fw (beg + 100 * timeout) (budget w) w else (Inr KEY_NONE, w)) (\<lambda>c.
       ret (if c = KEY_NONE then timeout_key
            else if c = word_of_nat (ccode CR) then word_of_nat (ccode LF) else c)))"

definition prom_exit :: "'s firmware \<Rightarrow> ('s, 'z, 'a) prog" where
  "prom_exit fw = bnd (call fw ''exit'' 0 0 []) (\<lambda>_. throw Hang)"

section \<open>Memory claims\<close>

definition PROM_CLAIM_MAX_ADDR :: u32 where [layout_defs]: "PROM_CLAIM_MAX_ADDR = 0x10000000"

definition PROM_CLAIM_WORK_AROUND :: u32 where [flag_defs]: "PROM_CLAIM_WORK_AROUND = 2"
definition PROM_NEED_SHIM :: u32 where [flag_defs]: "PROM_NEED_SHIM = 4"
definition PROM_SHALLOW_SETPROP :: u32 where [flag_defs]: "PROM_SHALLOW_SETPROP = 8"
definition PROM_3400_HIDE_MEDIABAY_ATA :: u32 where [flag_defs]: "PROM_3400_HIDE_MEDIABAY_ATA = 16"
definition PROM_NW_FULL_DISK :: u32 where [flag_defs]: "PROM_NW_FULL_DISK = 32"
definition PROM_SMP_FIX :: u32 where [flag_defs]: "PROM_SMP_FIX = 64"

text \<open>
  The work-around calls pass the address of \<open>result\<close> (here \<open>Buf\<close>) as an ordinary first
  argument, and with \<open>nargs\<close> 5 the last of the six arguments, the address, is not passed.
\<close>

definition claim_args :: "ihandle \<Rightarrow> u32 \<Rightarrow> u32 \<Rightarrow> prom_arg list" where
  "claim_args ih sz virt = take 5 [Buf, Str ''claim'', Num ih, Num 0, Num sz, Num virt]"

definition prom_claim :: "'s firmware \<Rightarrow> u32 \<Rightarrow> u32 \<Rightarrow> ('s, 'z, u32) prog" where
  "prom_claim fw virt sz =
     (\<lambda>w. if flag_set (prom_flags w) PROM_CLAIM_WORK_AROUND then
            bnd (call fw ''call-method'' 5 2 (claim_args (prom_memory w) sz virt)) (\<lambda>r.
              if r \<noteq> 0 \<or> jk_result (junk w) = - 1 then ret (- 1)
              else
                bnd (call fw ''call-method'' 5 2 (claim_args (prom_mmu w) sz virt)) (\<lambda>r2.
                  if r2 \<noteq> 0 then
                    bnd (call fw ''call-method'' 4 1 [Str ''release'', Num (prom_memory w), Num sz, Num virt])
                      (\<lambda>_. ret (- 1))
                  else
                    bnd (call fw ''call-method'' 6 1
                           [Str ''map'', Num (prom_mmu w), Num 0x12, Num sz, Num virt, Num virt])
                      (\<lambda>_. ret virt))) w
          else call fw ''claim'' 3 1 [Num virt, Num sz, Num 0] w)"

definition prom_release :: "'s firmware \<Rightarrow> u32 \<Rightarrow> u32 \<Rightarrow> ('s, 'z, unit) prog" where
  "prom_release fw virt sz =
     (\<lambda>w. bnd (if flag_set (prom_flags w) PROM_CLAIM_WORK_AROUND then
            bnd (call fw ''call-method'' 4 0 [Str ''unmap'', Num (prom_mmu w), Num sz, Num virt]) (\<lambda>_.
            bnd (call fw ''call-method'' 4 0 [Str ''release'', Num (prom_mmu w), Num sz, Num virt]) (\<lambda>_.
            bnd (call fw ''call-method'' 4 0 [Str ''release'', Num (prom_memory w), Num sz, Num virt]) (\<lambda>_.
            ret ())))
          else ret ()) (\<lambda>_. bnd (call fw ''release'' 2 0 [Num virt, Num sz]) (\<lambda>_. ret ())) w)"

function claim_from :: "'s firmware \<Rightarrow> u32 \<Rightarrow> u32 \<Rightarrow> ('s, 'z, u32) prog" where
  "claim_from fw sz addr =
     (if addr \<le> PROM_CLAIM_MAX_ADDR then
        bnd (prom_claim fw addr sz) (\<lambda>found.
          if found \<noteq> - 1 then ret found else claim_from fw sz (addr + SIZE_1M))
      else ret (- 1))"
  by pat_completeness auto
termination
proof (relation "measure (\<lambda>(fw, sz, addr). 0x20000000 - unat addr)", goal_cases)
  case (2 fw sz addr)
  then have a: "unat addr \<le> 0x10000000" by (simp add: word_le_nat_alt layout_defs)
  then have "unat (addr + SIZE_1M) = unat addr + 0x100000"
    using unat_plus_no_wrap [of addr SIZE_1M] by (simp add: layout_defs)
  with a show ?case by simp
qed simp

declare claim_from.simps [simp del]

definition prom_claim_chunk :: "'s firmware \<Rightarrow> u32 \<Rightarrow> u32 \<Rightarrow> ('s, 'z, u32) prog" where
  "prom_claim_chunk fw virt sz = claim_from fw sz (ALIGN_UP virt SIZE_1M)"

text \<open>The page loop of \<open>prom_ensure_claimed\<close> compares addresses that wrap.\<close>

fun claim_pages :: "'s firmware \<Rightarrow> u32 \<Rightarrow> u32 \<Rightarrow> nat \<Rightarrow> ('s, 'z, unit) prog" where
  "claim_pages fw stop addr 0 = throw Hang"
| "claim_pages fw stop addr (Suc n) =
     (if addr < stop then bnd (prom_claim fw addr SIZE_4K) (\<lambda>_. claim_pages fw stop (addr + SIZE_4K) n)
      else ret ())"

definition prom_ensure_claimed :: "'s firmware \<Rightarrow> u32 \<Rightarrow> u32 \<Rightarrow> ('s, 'z, unit) prog" where
  "prom_ensure_claimed fw virt sz = (\<lambda>w. claim_pages fw (virt + sz) virt (budget w) w)"

definition malloc_init :: "'s firmware \<Rightarrow> ('s, 'z, unit) prog" where
  "malloc_init fw =
     bnd (prom_claim fw MALLOC_BASE MALLOC_SIZE) (\<lambda>p.
     bnd (modify (\<lambda>w. w\<lparr>mem := (mem w)\<lparr>malloc_ptr := p\<rparr>\<rparr>)) (\<lambda>_.
       if p = - 1 then throw (Err ERR_MALLOC_INIT)
       else modify (\<lambda>w. w\<lparr>mem := (mem w)\<lparr>malloc_end := p + MALLOC_SIZE\<rparr>\<rparr>)))"

section \<open>Heap operations of the machine\<close>

definition mallocM :: "u32 \<Rightarrow> ('s, 'z, u32) prog" where
  "mallocM sz = (\<lambda>w. case malloc sz (mem w) of (p, h) \<Rightarrow> (Inr p, w\<lparr>mem := h\<rparr>))"

definition freeM :: "u32 \<Rightarrow> ('s, 'z, unit) prog" where
  "freeM p = modify (\<lambda>w. w\<lparr>mem := free p (mem w)\<rparr>)"

section \<open>Devices and properties\<close>

definition prom_open :: "'s firmware \<Rightarrow> string \<Rightarrow> ('s, 'z, ihandle) prog" where
  "prom_open fw device =
     (\<lambda>w. let full = flag_set (prom_flags w) PROM_NW_FULL_DISK in
        bnd (if full then mallocM (word_of_nat (length device + 3)) else ret 1) (\<lambda>d.
          if full \<and> d = 0 then throw (Err ERR_NO_MEM)
          else
            bnd (call fw ''open'' 1 1 [Str (if full then device @ '':0'' else device)]) (\<lambda>c.
            bnd (if full then freeM d else ret ()) (\<lambda>_.
              if c = 0 \<or> c = - 1 then throw (Err ERR_OF_OPEN) else ret c))) w)"

text \<open>\<open>buf[0]\<close> is cleared first: a property that is not there reads as the empty string.\<close>

definition prop_string :: "nat \<Rightarrow> bytes \<Rightarrow> string" where
  "prop_string buflen data = (if data = [] then [] else cstr (take buflen data))"

definition prom_get_chosen :: "'s firmware \<Rightarrow> string \<Rightarrow> u32 \<Rightarrow> ('s, 'z, string) prog" where
  "prom_get_chosen fw name buflen =
     (\<lambda>w. bnd (prom_getprop fw (prom_chosen w) name buflen) (\<lambda>(r, data). ret (prop_string (unat buflen) data)) w)"

definition prom_get_options :: "'s firmware \<Rightarrow> string \<Rightarrow> u32 \<Rightarrow> ('s, 'z, string) prog" where
  "prom_get_options fw name buflen =
     (\<lambda>w. if prom_options w \<noteq> - 1
          then bnd (prom_getprop fw (prom_options w) name buflen)
                 (\<lambda>(r, data). ret (prop_string (unat buflen) data)) w
          else (Inr [], w))"

definition prom_interpret :: "'s firmware \<Rightarrow> string \<Rightarrow> ('s, 'z, u32) prog" where
  "prom_interpret fw buf = call fw ''interpret'' 1 1 [Str buf]"

definition set_bootargs :: "'s firmware \<Rightarrow> string \<Rightarrow> ('s, 'z, u32) prog" where
  "set_bootargs fw params =
     (\<lambda>w. call fw ''setprop'' 4 1
        [Num (prom_chosen w), Str ''bootargs'', Str params, Num (word_of_nat (length params + 1))] w)"

end
