(* ===== verification/Printf.thy ===== *)
theory Printf
  imports Prom
begin

unbundle bit_operations_syntax

text \<open>
  The formatted output of \<^verbatim>\<open>loader/printf.c\<close> and the table printer and the spinner of
  \<^verbatim>\<open>loader/util.c\<close>.  Formatting is a pure function from the format and its arguments to
  the characters handed to \<open>putchar\<close>, in order; \<open>printk\<close> puts them out through the
  firmware.
\<close>

section \<open>Conversions\<close>

definition printks :: "string option \<Rightarrow> string" where
  "printks s = (case s of None \<Rightarrow> ''<NULL>'' | Some t \<Rightarrow> t)"

definition printkr :: "quik_err_t \<Rightarrow> string" where
  "printkr err = (if err_code err < err_code ERR_INVALID then err_msg err else err_msg ERR_INVALID)"

definition digit_char :: "nat \<Rightarrow> char" where
  "digit_char d = ''0123456789ABCDEF'' ! d"

lemma unat_mask28: "unat (x AND 0x0FFFFFFF :: u32) = unat x mod 2 ^ 28"
proof -
  have "x AND 0x0FFFFFFF = take_bit 28 x" by (simp add: take_bit_eq_mask mask_eq_exp_minus_1)
  then show ?thesis by (simp only: unat_take_bit_mod)
qed

text \<open>
  The digits are stored least significant first; the quotient is masked to 28 bits.
  The buffer is printed from its end, so it is reversed.  The bases are 8, 10 and 16.
\<close>

function printknu_buf :: "u32 \<Rightarrow> u32 \<Rightarrow> string" where
  "printknu_buf n b =
     (let n' = (n div b) AND 0x0FFFFFFF
      in digit_char (unat (n mod b)) # (if n' \<noteq> 0 \<and> 2 \<le> b then printknu_buf n' b else []))"
  by pat_completeness auto
termination
proof (relation "measure (\<lambda>(n, b). unat n)", goal_cases)
  case (2 n b n')
  have "unat n' \<le> unat (n div b)"
    unfolding 2(1) unat_mask28 by (rule mod_less_eq_dividend)
  moreover have "unat (n div b) = unat n div unat b" by (rule unat_div_distrib)
  moreover have "2 \<le> unat b" using 2(2) by (simp add: word_le_nat_alt)
  moreover have "n \<noteq> 0" using 2 by auto
  then have "0 < unat n" by (simp add: unat_gt_0)
  ultimately have "unat n' < unat n"
    by (metis div_less_dividend le_less_trans less_le_trans one_less_numeral_iff semiring_norm(76))
  then show ?case by simp
qed simp

declare printknu_buf.simps [simp del]

definition printknu :: "u32 \<Rightarrow> u32 \<Rightarrow> string" where
  "printknu n b = rev (printknu_buf n b)"

text \<open>
  The signed variant.  Division and remainder truncate towards zero; for the least
  \<open>long\<close> the negation wraps, the remainder is negative and the digit is read from
  below the table.
\<close>

definition digit_at :: "junk \<Rightarrow> int \<Rightarrow> char" where
  "digit_at jk i = (if 0 \<le> i then ''0123456789ABCDEF'' ! nat i else jk_digit jk i)"

definition trunc_div :: "int \<Rightarrow> int \<Rightarrow> int" where
  "trunc_div a b = (if a < 0 then - ((- a) div b) else a div b)"

definition printkns_abs :: "junk \<Rightarrow> u32 \<Rightarrow> string" where
  "printkns_abs jk m =
     (let i = sint m; q = trunc_div i 10; n' = word_of_int q AND 0x0FFFFFFF :: u32
      in rev (digit_at jk (i - q * 10) # (if n' \<noteq> 0 then printknu_buf n' 10 else [])))"

definition printkns :: "junk \<Rightarrow> u32 \<Rightarrow> string" where
  "printkns jk n = (if n <s 0 then ''-'' @ printkns_abs jk (- n) else printkns_abs jk n)"

text \<open>A null path is reported and then followed all the same.\<close>

definition printkp :: "junk \<Rightarrow> path_t option \<Rightarrow> string" where
  "printkp jk path =
     (let p = (case path of None \<Rightarrow> jk_path jk | Some p \<Rightarrow> p) in
      (case path of None \<Rightarrow> printks None | Some _ \<Rightarrow> []) @
      printks (pt_device p) @ '':'' @ printknu (pt_part p) 10 @ printks (pt_path p))"

section \<open>Formats\<close>

datatype va = Va_u u32 | Va_s "string option" | Va_r quik_err_t | Va_P "path_t option"

text \<open>
  One conversion.  \<open>%p\<close> takes its pointer as a number.  An argument of another kind than the
  conversion asks for, or none, prints nothing: no call in the loader does that.
\<close>

definition conversion :: "junk \<Rightarrow> char \<Rightarrow> va option \<Rightarrow> string" where
  "conversion jk c v =
     (if c \<in> {CHR ''u'', CHR ''o'', CHR ''x'', CHR ''X''} then
        (case v of Some (Va_u n) \<Rightarrow> printknu n (if c = CHR ''o'' then 8 else if c = CHR ''u'' then 10 else 16)
         | _ \<Rightarrow> [])
      else if c \<in> {CHR ''i'', CHR ''d''} then (case v of Some (Va_u n) \<Rightarrow> printkns jk n | _ \<Rightarrow> [])
      else if c = CHR ''c'' then (case v of Some (Va_u n) \<Rightarrow> [chr (ucast n)] | _ \<Rightarrow> [])
      else if c = CHR ''s'' then (case v of Some (Va_s s) \<Rightarrow> printks s | _ \<Rightarrow> [])
      else if c = CHR ''r'' then (case v of Some (Va_r e) \<Rightarrow> printkr e | _ \<Rightarrow> [])
      else if c = CHR ''P'' then (case v of Some (Va_P p) \<Rightarrow> printkp jk p | _ \<Rightarrow> [])
      else if c = CHR ''p'' then
        (case v of Some (Va_u n) \<Rightarrow> if n \<noteq> 0 then ''0x'' @ printknu n 16 else printks None | _ \<Rightarrow> [])
      else [])"

definition takes_arg :: "char \<Rightarrow> bool" where
  "takes_arg c \<longleftrightarrow> c \<in> set ''uoxXidcsrPp''"

text \<open>The format loop; it ends by putting out a NUL.\<close>

fun vprintk :: "junk \<Rightarrow> string \<Rightarrow> va list \<Rightarrow> string" where
  "vprintk jk [] as = [NUL]"
| "vprintk jk (c # fmt) as =
     (if c \<noteq> CHR ''%'' then c # vprintk jk fmt as
      else
        (case fmt of
           [] \<Rightarrow> [NUL]
         | d # fmt' \<Rightarrow>
             conversion jk d (case as of [] \<Rightarrow> None | a # _ \<Rightarrow> Some a) @
             vprintk jk fmt' (if takes_arg d then tl as else as)))"

fun putchars :: "'s firmware \<Rightarrow> string \<Rightarrow> ('s, 'z, unit) prog" where
  "putchars fw [] = ret ()"
| "putchars fw (c # cs) = bnd (putchar fw c) (\<lambda>_. putchars fw cs)"

definition printk :: "'s firmware \<Rightarrow> string \<Rightarrow> va list \<Rightarrow> ('s, 'z, unit) prog" where
  "printk fw fmt as = (\<lambda>w. putchars fw (vprintk (junk w) fmt as) w)"

section \<open>Spinner and tables\<close>

definition spinner :: "'s firmware \<Rightarrow> u32 \<Rightarrow> ('s, 'z, unit) prog" where
  "spinner fw freq =
     (\<lambda>w. let i = spin w in
        bnd (if i mod freq = 0
             then printk fw [CHR ''%'', CHR ''c'', BS]
                    [Va_u (word_of_nat (ccode ((BACKSLASH # ''|/-'') ! unat (i div freq mod 4))))]
             else ret ()) (\<lambda>_. modify (\<lambda>w. w\<lparr>spin := i + 1\<rparr>)) w)"

record table_print_t =
  tp_count :: u32
  tp_max_col :: u32
  tp_pad :: u32

definition table_print_start :: "u32 \<Rightarrow> u32 \<Rightarrow> table_print_t" where
  "table_print_start cols pad = \<lparr>tp_count = 0, tp_max_col = cols, tp_pad = pad\<rparr>"

definition table_print :: "'s firmware \<Rightarrow> table_print_t \<Rightarrow> string \<Rightarrow> ('s, 'z, table_print_t) prog" where
  "table_print fw t s =
     bnd (if tp_count t \<noteq> 0 \<and> tp_count t mod tp_max_col t = 0 then putchar fw LF else ret 0) (\<lambda>_.
     bnd (printk fw ''%s'' [Va_s (Some s)]) (\<lambda>_.
     bnd (putchars fw (replicate (unat (tp_pad t) - length s) CHR '' '')) (\<lambda>_.
     ret (t\<lparr>tp_count := tp_count t + 1\<rparr>))))"

definition table_print_end :: "'s firmware \<Rightarrow> table_print_t \<Rightarrow> ('s, 'z, unit) prog" where
  "table_print_end fw t = bnd (if tp_count t \<noteq> 0 then putchar fw LF else ret 0) (\<lambda>_. ret ())"

fun table_prints :: "'s firmware \<Rightarrow> table_print_t \<Rightarrow> string list \<Rightarrow> ('s, 'z, table_print_t) prog" where
  "table_prints fw t [] = ret t"
| "table_prints fw t (s # ss) = bnd (table_print fw t s) (\<lambda>t'. table_prints fw t' ss)"

section \<open>Digits\<close>

lemma digit_char_val:
  assumes "d < 16"
  shows "digit_val (digit_char d) = Some d"
proof -
  have "list_all (\<lambda>d. digit_val (digit_char d) = Some d) [0..<16]" by code_simp
  then show ?thesis using assms by (simp add: list_all_iff)
qed

lemma digits_value_snoc: "digits_value b n (ds @ [c]) = digits_value b n ds * b + the (digit_val c)"
  by (simp add: digits_value_def)

lemma printknu_step:
  fixes n b :: u32
  assumes "2 \<le> b" and "b \<le> 16"
  shows "digit_val (digit_char (unat (n mod b))) = Some (unat n mod unat b)"
    and "unat ((n div b) AND 0x0FFFFFFF) = unat n div unat b mod 2 ^ 28"
proof -
  have "2 \<le> unat b" "unat b \<le> 16" using assms by (simp_all add: word_le_nat_alt)
  then have "unat n mod unat b < 16" using mod_less_divisor [of "unat b" "unat n"] by linarith
  then show "digit_val (digit_char (unat (n mod b))) = Some (unat n mod unat b)"
    by (simp add: digit_char_val unat_mod_distrib)
  show "unat ((n div b) AND 0x0FFFFFFF) = unat n div unat b mod 2 ^ 28"
    unfolding unat_mask28 by (simp add: unat_div_distrib)
qed

lemma printknu_buf_digits:
  assumes "2 \<le> b" and "b \<le> 16"
  shows "list_all (digit_of (unat b)) (printknu_buf n b)"
  using assms
proof (induction n b rule: printknu_buf.induct)
  case (1 n b)
  have "2 \<le> unat b" using "1.prems" by (simp add: word_le_nat_alt)
  then have "digit_of (unat b) (digit_char (unat (n mod b)))"
    using printknu_step(1) [OF "1.prems", of n] by (simp add: digit_of_def)
  then show ?case
    using 1 printknu_step(1) [OF "1.prems", of n]
    by (subst printknu_buf.simps) (simp add: Let_def)
qed

lemma printknu_buf_small:
  assumes "2 \<le> b" and "b \<le> 16" and "unat n < 2 ^ 28"
  shows "digits_value (unat b) 0 (rev (printknu_buf n b)) = unat n"
  using assms
proof (induction n b rule: printknu_buf.induct)
  case (1 n b)
  let ?n = "(n div b) AND 0x0FFFFFFF"
  have b2: "2 \<le> unat b" using "1.prems" by (simp add: word_le_nat_alt)
  then have q: "unat ?n = unat n div unat b"
    using printknu_step(2) [of b n] "1.prems" le_less_trans [OF div_le_dividend "1.prems"(3)] by simp
  have lt: "unat ?n < 2 ^ 28" using q "1.prems"(3) by (metis div_le_dividend le_less_trans)
  have "?n = 0 \<Longrightarrow> unat n = unat n mod unat b" using q by (metis add_0 div_mult_mod_eq mult_0 unat_0)
  moreover have "unat n div unat b * unat b + unat n mod unat b = unat n" by simp
  ultimately show ?case
    using "1.IH" [OF refl] "1.prems" lt q printknu_step(1) [of b n]
    by (subst printknu_buf.simps) (auto simp: Let_def digits_value_snoc)
qed

lemma printknu_buf_value:
  assumes "2 \<le> b" and "b \<le> 16"
  shows "digits_value (unat b) 0 (rev (printknu_buf n b))
    = (unat n div unat b mod 2 ^ 28) * unat b + unat n mod unat b"
proof -
  let ?n = "(n div b) AND 0x0FFFFFFF"
  have q: "unat ?n = unat n div unat b mod 2 ^ 28" by (rule printknu_step(2) [OF assms])
  have "unat ?n < 2 ^ 28" unfolding q by simp
  then have r: "digits_value (unat b) 0 (rev (printknu_buf ?n b)) = unat ?n"
    by (rule printknu_buf_small [OF assms])
  show ?thesis
  proof (cases "?n = 0")
    case True
    then have "unat n div unat b mod 2 ^ 28 = 0" using q by (metis unat_0)
    with True show ?thesis using printknu_step(1) [OF assms, of n] assms
      by (subst printknu_buf.simps) (simp add: Let_def)
  next
    case False
    with r q show ?thesis using printknu_step(1) [OF assms, of n] assms
      by (subst printknu_buf.simps) (simp add: Let_def digits_value_snoc)
  qed
qed

lemma printknu_nonempty: "printknu n b \<noteq> []"
  by (simp add: printknu_def printknu_buf.simps [of n] Let_def)

text \<open>Every digit takes at least three bits, so the buffer of 24 bytes is large enough.\<close>

lemma printknu_buf_length:
  assumes "8 \<le> b" and "unat n < 8 ^ k" and "0 < k"
  shows "length (printknu_buf n b) \<le> k"
  using assms
proof (induction n b arbitrary: k rule: printknu_buf.induct)
  case (1 n b)
  let ?n = "(n div b) AND 0x0FFFFFFF"
  show ?case
  proof (cases "?n = 0")
    case True
    then show ?thesis using "1.prems"(3) by (subst printknu_buf.simps) (simp add: Let_def)
  next
    case False
    have b8: "8 \<le> unat b" using "1.prems" by (simp add: word_le_nat_alt)
    then have b2: "2 \<le> b" by (simp add: word_le_nat_alt)
    have "unat ?n \<le> unat n div unat b" unfolding unat_mask28 by (simp add: unat_div_distrib)
    also have "\<dots> \<le> unat n div 8" using b8 by (simp add: div_le_mono2)
    finally have le: "unat ?n \<le> unat n div 8" .
    moreover have "0 < unat ?n" using False by (simp add: unat_gt_0)
    ultimately have "8 \<le> unat n" by linarith
    then have "k \<noteq> 1" using "1.prems"(2) by auto
    then obtain k' where k: "k = Suc k'" "0 < k'" using "1.prems"(3) by (cases k) auto
    have "unat ?n < 8 ^ k'" using le "1.prems"(2) unfolding k by simp
    then have "length (printknu_buf ?n b) \<le> k'" using "1.IH" [OF refl] False "1.prems"(1) b2 k(2) by blast
    then show ?thesis using k by (subst printknu_buf.simps) (simp add: Let_def)
  qed
qed

lemma masked_value_exact:
  fixes n b :: nat
  assumes "0 < b"
  shows "(n div b mod m) * b + n mod b = n \<longleftrightarrow> n div b < m \<or> m = 0"
proof -
  have "n div b * b + n mod b = n" by simp
  then have "(n div b mod m) * b + n mod b = n \<longleftrightarrow> (n div b mod m) * b = n div b * b"
    by (metis add_right_cancel)
  also have "\<dots> \<longleftrightarrow> n div b mod m = n div b" using assms by simp
  also have "\<dots> \<longleftrightarrow> n div b < m \<or> m = 0"
    by (metis mod_by_0 mod_less mod_less_divisor neq0_conv)
  finally show ?thesis .
qed

section \<open>Properties\<close>

text \<open>
  Property C27: what \<open>%u\<close>, \<open>%o\<close> and \<open>%x\<close> print of an unsigned \<open>n\<close> are digits of the base whose
  value is exactly \<open>n\<close> when the first quotient fits the 28-bit mask; in general they print
  the number whose first quotient lost its bits above the mask.  At most 24 digits are
  stored in the conversion buffer.
\<close>

theorem printknu_value:
  assumes "b = 8 \<or> b = 10 \<or> b = 16"
  shows "digits_value (unat b) 0 (printknu n b)
      = (unat n div unat b mod 2 ^ 28) * unat b + unat n mod unat b
    \<and> (unat n < 2 ^ 28 * unat b \<longleftrightarrow> digits_value (unat b) 0 (printknu n b) = unat n)
    \<and> list_all (digit_of (unat b)) (printknu n b) \<and> length (printknu n b) \<le> 24"
proof -
  have b: "2 \<le> b" "8 \<le> b" "b \<le> 16" "0 < unat b" using assms by auto
  have v: "digits_value (unat b) 0 (printknu n b)
      = (unat n div unat b mod 2 ^ 28) * unat b + unat n mod unat b"
    unfolding printknu_def by (rule printknu_buf_value [OF b(1,3)])
  moreover have "unat n < 2 ^ 28 * unat b \<longleftrightarrow> unat n div unat b < 2 ^ 28"
    using b(4) by (simp add: div_less_iff_less_mult)
  then have "unat n < 2 ^ 28 * unat b \<longleftrightarrow> digits_value (unat b) 0 (printknu n b) = unat n"
    unfolding v masked_value_exact [OF b(4)] by simp
  moreover have "list_all (digit_of (unat b)) (printknu n b)"
    using printknu_buf_digits [OF b(1,3), of n] by (simp add: printknu_def)
  moreover have "unat n < 8 ^ 11" using unat_lt_u32 [of n] by simp
  then have "length (printknu n b) \<le> 24"
    using printknu_buf_length [OF b(2), of n 11] by (simp add: printknu_def)
  ultimately show ?thesis by blast
qed

theorem printknu_value_witness:
  "digits_value (unat (10 :: u32)) 0 (printknu 4294967295 10) = 1610612735"
  using printknu_value [of 10 4294967295] by simp

text \<open>
  Property C34: a number below 2 GB printed with \<open>%u\<close> is read back by base-10 \<open>strtol\<close>.
\<close>

theorem print_strtol_roundtrip:
  assumes "unat n < 2 ^ 31"
  shows "strtol (printknu n 10) 10 = (n, [])"
proof -
  have d: "list_all (digit_of 10) (printknu n 10)"
    using printknu_buf_digits [of 10 n] by (simp add: printknu_def)
  have "digits_value 10 0 (printknu n 10) = unat n"
    using printknu_buf_value [of 10 n] assms masked_value_exact [of 10 "unat n" "2 ^ 28"]
    by (simp add: printknu_def div_less_iff_less_mult)
  moreover have "strtol (printknu n 10) 10 = (strtol_clamp False (digits_value 10 0 (printknu n 10)), [])"
    using strtol_decimal_core [of "[]" "[]" "printknu n 10" "[]"] d printknu_nonempty by simp
  ultimately show ?thesis using assms by (simp add: strtol_clamp_def)
qed

theorem print_strtol_roundtrip_witness:
  "strtol (printknu 2147483647 10) 10 = (2147483647, [])"
  using print_strtol_roundtrip [of 2147483647] by simp

end
