(* ===== verification/Prom_Init.thy ===== *)
theory Prom_Init
  imports Printf
begin

unbundle bit_operations_syntax

text \<open>
  The rest of \<^verbatim>\<open>loader/prom.c\<close>: finding the firmware's nodes and recognising its version at
  start-up, the flags that turn on work-arounds, the shim that stands between the kernel
  and the firmware, and the command that sets the flags.
\<close>

section \<open>Small helpers\<close>

definition bi_or :: "u32 \<Rightarrow> ('s, 'z, unit) prog" where
  "bi_or m = modify (\<lambda>w. w\<lparr>bi := (bi w)\<lparr>bi_flags := bi_flags (bi w) OR m\<rparr>\<rparr>)"

definition prom_or :: "u32 \<Rightarrow> ('s, 'z, unit) prog" where
  "prom_or m = modify (\<lambda>w. w\<lparr>prom_flags := prom_flags w OR m\<rparr>)"

definition whenM :: "bool \<Rightarrow> ('s, 'z, unit) prog \<Rightarrow> ('s, 'z, unit) prog" where
  "whenM b m = (if b then m else ret ())"

text \<open>A property stored over a word variable; a short property leaves the tail as it was.\<close>

definition over_word :: "u32 \<Rightarrow> bytes \<Rightarrow> u32" where
  "over_word old data = be32 (take 4 data @ drop (length data) (bytes32 old)) 0"

definition prom_pause :: "'s firmware \<Rightarrow> string option \<Rightarrow> ('s, 'z, unit) prog" where
  "prom_pause fw message =
     bnd (printk fw ''%s''
            [Va_s (Some (case message of None \<Rightarrow> ''Type go<return> to continue.'' @ [LF] | Some m \<Rightarrow> m))]) (\<lambda>_.
     bnd (call fw ''enter'' 0 0 []) (\<lambda>_. printk fw [LF] []))"

section \<open>The shim\<close>

definition arg_num :: "prom_args \<Rightarrow> nat \<Rightarrow> u32" where
  "arg_num a i = (if i < length (args a) then (case args a ! i of Num n \<Rightarrow> n | _ \<Rightarrow> 0) else 0)"

definition arg_str :: "prom_args \<Rightarrow> nat \<Rightarrow> string" where
  "arg_str a i = (if i < length (args a) then (case args a ! i of Str s \<Rightarrow> s | _ \<Rightarrow> []) else [])"

text \<open>The call handed on to the firmware: its return cells and the bytes it stored.\<close>

definition prom_entry :: "'s firmware \<Rightarrow> prom_args \<Rightarrow> ('s, 'z, u32 list \<times> bytes) prog" where
  "prom_entry fw a = (\<lambda>w. case fw (fws w) a of (s', rets, data) \<Rightarrow> (Inr (rets, data), w\<lparr>fws := s'\<rparr>))"

text \<open>The loop that invents CPU numbers, four bytes a time, until the size left is 0.\<close>

fun cpu_words :: "u32 \<Rightarrow> u32 \<Rightarrow> nat \<Rightarrow> bytes option" where
  "cpu_words index sz 0 = None"
| "cpu_words index sz (Suc n) =
     (if sz = 0 then Some []
      else map_option (\<lambda>r. bytes32 index @ r) (cpu_words (index + 1) (sz - 4) n))"

definition initrd_word :: "u32 \<Rightarrow> u32 \<Rightarrow> bytes" where
  "initrd_word sz v = (if sz = 8 then bytes32 0 else []) @ bytes32 v"

definition mediabay_services :: "string list" where
  "mediabay_services = [''child'', ''peer'', ''parent'']"

definition prom_shim :: "'s firmware \<Rightarrow> prom_args \<Rightarrow> ('s, 'z, u32 list \<times> bytes) prog" where
  "prom_shim fw a =
     (\<lambda>w. let ph = arg_num a 0; name = arg_str a 1; sz = arg_num a 3; f = prom_flags w in
        if service a = ''getprop'' \<and> flag_set f PROM_SMP_FIX \<and> ph = shim_cpu w then
          (if name \<noteq> ''reg'' then prom_entry fw a w
           else
             (let sz' = min (shim_cpu_count w) sz in
              case cpu_words 0 sz' (budget w) of
                None \<Rightarrow> (Inl Hang, w)
              | Some data \<Rightarrow> (Inr ([sz'], data), w)))
        else if service a = ''getprop'' \<and> flag_set f PROM_SHALLOW_SETPROP \<and> ph = prom_chosen w then
          (if name = ''linux,initrd-start''
           then (Inr ([sz], initrd_word sz (bi_initrd_base (bi w))), w)
           else if name = ''linux,initrd-end''
           then (Inr ([sz], initrd_word sz (bi_initrd_base (bi w) + bi_initrd_len (bi w))), w)
           else prom_entry fw a w)
        else if flag_set f PROM_3400_HIDE_MEDIABAY_ATA \<and> service a \<in> set mediabay_services then
          bnd (prom_entry fw a) (\<lambda>(rets, data).
            ret (case rets of
                   [] \<Rightarrow> ([], data)
                 | r # rs \<Rightarrow> ((if r = shim_mediabay_ata w then 0 else r) # rs, data))) w
        else
          bnd (if flag_set (bi_flags (bi w)) DEBUG_BEFORE_BOOT \<and> service a = ''quiesce''
               then prom_pause fw None else ret ()) (\<lambda>_. prom_entry fw a) w)"

section \<open>Flags\<close>

definition PROM_SMP_PATH :: string where "PROM_SMP_PATH = ''/PowerPC,604''"
definition PROM_3400_MEDIABAY :: string where "PROM_3400_MEDIABAY = ''/bandit/ohare/media-bay/ata''"
definition PROM_3400_MEDIABAY_ATAPI :: string where
  "PROM_3400_MEDIABAY_ATAPI = ''/bandit/ohare/media-bay/ata/atapi-disk''"
definition PROM_3400_MEDIABAY_ATA :: string where
  "PROM_3400_MEDIABAY_ATA = ''/bandit/ohare/media-bay/ata/ata-disk''"

definition flags_claim :: "'s firmware \<Rightarrow> ('s, 'z, unit) prog" where
  "flags_claim fw =
     (\<lambda>w. bnd (prom_getprop fw (prom_chosen w) ''mmu'' 4) (\<lambda>(r, data).
        bnd (modify (\<lambda>w. w\<lparr>prom_mmu := over_word (prom_mmu w) data\<rparr>)) (\<lambda>_.
        bnd (call fw ''open'' 1 1 [Str ''/memory'']) (\<lambda>m.
        bnd (modify (\<lambda>w. w\<lparr>prom_memory := m\<rparr>)) (\<lambda>_.
          if m = - 1 then
            bnd (printk fw (''couldn'' @ [CHR 0x27] @ ''t open /memory for PROM_CLAIM_WORK_AROUND'') [])
              (\<lambda>_. throw (Err ERR_OF_INIT_NO_MEMORY))
          else ret ())))) w)"

definition flags_smp :: "'s firmware \<Rightarrow> ('s, 'z, unit) prog" where
  "flags_smp fw =
     bnd (finddevice fw PROM_SMP_PATH) (\<lambda>cpu.
     bnd (modify (\<lambda>w. w\<lparr>shim_cpu := cpu\<rparr>)) (\<lambda>_.
     bnd (prom_getproplen fw cpu ''reg'') (\<lambda>n.
     bnd (modify (\<lambda>w. w\<lparr>shim_cpu_count := n\<rparr>)) (\<lambda>_.
       if n = 4 then modify (\<lambda>w. w\<lparr>prom_flags := prom_flags w XOR PROM_SMP_FIX\<rparr>)
       else prom_or PROM_NEED_SHIM))))"

definition flags_mediabay :: "'s firmware \<Rightarrow> ('s, 'z, unit) prog" where
  "flags_mediabay fw =
     bnd (finddevice fw PROM_3400_MEDIABAY_ATAPI) (\<lambda>a.
       if a \<noteq> - 1 then ret ()
       else
         bnd (finddevice fw PROM_3400_MEDIABAY_ATA) (\<lambda>b.
           if b \<noteq> - 1 then ret ()
           else
             bnd (finddevice fw PROM_3400_MEDIABAY) (\<lambda>m.
             bnd (modify (\<lambda>w. w\<lparr>shim_mediabay_ata := m\<rparr>)) (\<lambda>_.
               if m = - 1
               then modify (\<lambda>w. w\<lparr>prom_flags := prom_flags w XOR PROM_3400_HIDE_MEDIABAY_ATA\<rparr>)
               else prom_or PROM_NEED_SHIM))))"

definition if_flag :: "u32 \<Rightarrow> ('s, 'z, unit) prog \<Rightarrow> ('s, 'z, unit) prog" where
  "if_flag m p = (\<lambda>w. if flag_set (prom_flags w) m then p w else (Inr (), w))"

definition parse_prom_flags :: "'s firmware \<Rightarrow> ('s, 'z, unit) prog" where
  "parse_prom_flags fw =
     bnd (if_flag PROM_CLAIM_WORK_AROUND (flags_claim fw)) (\<lambda>_.
     bnd (if_flag PROM_SHALLOW_SETPROP (prom_or PROM_NEED_SHIM)) (\<lambda>_.
     bnd (if_flag PROM_SMP_FIX (flags_smp fw)) (\<lambda>_.
     bnd (if_flag PROM_3400_HIDE_MEDIABAY_ATA (flags_mediabay fw)) (\<lambda>_.
     if_flag PROM_NEED_SHIM (bi_or SHIM_OF)))))"

section \<open>Start-up\<close>

definition OF_VER_105 :: string where "OF_VER_105 = ''Open Firmware, 1.0.5''"
definition OF_VER_201 :: string where "OF_VER_201 = ''Open Firmware, 2.0.1''"
definition OF_VER_20 :: string where "OF_VER_20 = ''Open Firmware, 2.0''"
definition OF_VER_3 :: string where "OF_VER_3 = ''OpenFirmware 3''"
definition OF_VER_NW :: string where "OF_VER_NW = ''iMac,1''"
definition SYSTEM_3400_2400 :: string where "SYSTEM_3400_2400 = ''AAPL,3400/2400''"

lemmas ver_defs = OF_VER_105_def OF_VER_201_def OF_VER_20_def OF_VER_3_def OF_VER_NW_def

text \<open>The flags a firmware version turns on; the last test is of \<open>strcmp\<close> itself.\<close>

definition version_flags :: "string \<Rightarrow> u32" where
  "version_flags ver =
     (if strcmp ver OF_VER_105 = 0 then PROM_CLAIM_WORK_AROUND OR PROM_SHALLOW_SETPROP
      else if strcmp ver OF_VER_20 = 0 \<or> strcmp ver OF_VER_201 = 0 then PROM_SHALLOW_SETPROP
      else if strcmp ver OF_VER_3 = 0 \<or> strcmp ver OF_VER_NW \<noteq> 0 then PROM_NW_FULL_DISK
      else 0)"

definition find_or_fail :: "'s firmware \<Rightarrow> string \<Rightarrow> quik_err_t \<Rightarrow> (u32 \<Rightarrow> ('s, 'z) machine_scheme \<Rightarrow> ('s, 'z) machine_scheme)
    \<Rightarrow> ('s, 'z, u32) prog" where
  "find_or_fail fw path err upd =
     bnd (finddevice fw path) (\<lambda>ph. bnd (modify (upd ph)) (\<lambda>_. if ph = - 1 then throw (Err err) else ret ph))"

definition PREBOOT_TIMEOUT :: u32 where "PREBOOT_TIMEOUT = 50"

definition run_preboot :: "'s firmware \<Rightarrow> string \<Rightarrow> ('s, 'z, unit) prog" where
  "run_preboot fw preboot_script =
     whenM (length preboot_script \<noteq> 0)
       (bnd (printk fw ([LF] @ ''Press any key in %u secs to skip preboot script ... '') [Va_u (PREBOOT_TIMEOUT div 10)]) (\<lambda>_.
        bnd (wait_for_key fw PREBOOT_TIMEOUT KEY_NONE) (\<lambda>k.
          if k = KEY_NONE then
            bnd (printk fw (''running'' @ [LF]) []) (\<lambda>_.
            bnd (bi_or WITH_PREBOOT) (\<lambda>_.
            bnd (prom_interpret fw preboot_script) (\<lambda>_. ret ())))
          else printk fw (''skipped!'' @ [LF]) [])))"

text \<open>
  \<open>pp\<close> is the firmware's entry point, \<open>shim\<close> the address of \<open>prom_shim\<close>, and the preboot
  script is the text appended to the loader's image.
\<close>

definition prom_init :: "'s firmware \<Rightarrow> string \<Rightarrow> vaddr_t \<Rightarrow> vaddr_t \<Rightarrow> ('s, 'z, unit) prog" where
  "prom_init fw preboot_script shim pp =
     bnd (modify (\<lambda>w. w\<lparr>bi := (bi w)\<lparr>bi_prom_entry := pp, bi_prom_shim := shim\<rparr>\<rparr>)) (\<lambda>_.
     bnd (find_or_fail fw ''/'' ERR_OF_INIT_NO_ROOT (\<lambda>ph w. w\<lparr>prom_root := ph\<rparr>)) (\<lambda>root.
     bnd (find_or_fail fw ''/chosen'' ERR_OF_INIT_NO_CHOSEN (\<lambda>ph w. w\<lparr>prom_chosen := ph\<rparr>)) (\<lambda>chosen.
     bnd (prom_getprop fw chosen ''stdout'' 4) (\<lambda>(r, out).
     bnd (modify (\<lambda>w. w\<lparr>prom_stdout := over_word (prom_stdout w) out\<rparr>)) (\<lambda>_.
     bnd (prom_getprop fw chosen ''stdin'' 4) (\<lambda>(r, inn).
     bnd (modify (\<lambda>w. w\<lparr>prom_stdin := over_word (prom_stdin w) inn\<rparr>)) (\<lambda>_.
     bnd (printk fw [LF] []) (\<lambda>_.
     bnd (find_or_fail fw ''/options'' ERR_OF_INIT_NO_OPTIONS (\<lambda>ph w. w\<lparr>prom_options := ph\<rparr>)) (\<lambda>_.
     bnd (find_or_fail fw ''/openprom'' ERR_OF_INIT_NO_OPROM (\<lambda>ph w. w)) (\<lambda>oprom.
     bnd (prom_getprop fw oprom ''model'' 64) (\<lambda>(r, mdl).
     bnd (printk fw (''Running on '' @ [CHR 0x27] @ ''%s'' @ [CHR 0x27, LF]) [Va_s (Some (prop_string 64 mdl))]) (\<lambda>_.
     bnd (prom_or (version_flags (prop_string 64 mdl))) (\<lambda>_.
     bnd (prom_getprop fw root ''compatible'' 64) (\<lambda>(r, sys).
     bnd (printk fw (''System is '' @ [CHR 0x27] @ ''%s'' @ [CHR 0x27, LF]) [Va_s (Some (prop_string 64 sys))]) (\<lambda>_.
     bnd (whenM (strcmp (prop_string 64 sys) SYSTEM_3400_2400 = 0) (prom_or PROM_3400_HIDE_MEDIABAY_ATA)) (\<lambda>_.
     bnd (finddevice fw PROM_SMP_PATH) (\<lambda>smp.
     bnd (whenM (smp \<noteq> - 1) (prom_or PROM_SMP_FIX)) (\<lambda>_.
     bnd (parse_prom_flags fw) (\<lambda>_.
     run_preboot fw preboot_script)))))))))))))))))))"

definition yes_no :: "('s, 'z) machine_scheme \<Rightarrow> string" where
  "yes_no w = (if flag_set (bi_flags (bi w)) SHIM_OF then ''yes'' else ''no'')"

definition cmd_prom_flags :: "'s firmware \<Rightarrow> string \<Rightarrow> ('s, 'z, unit) prog" where
  "cmd_prom_flags fw as =
     (if length as = 0 then
        (\<lambda>w. printk fw (''prom_flags = 0x%x, shim = %s'' @ [LF]) [Va_u (prom_flags w), Va_s (Some (yes_no w))] w)
      else
        bnd (modify (\<lambda>w. w\<lparr>prom_flags := fst (strtol as 0)\<rparr>)) (\<lambda>_.
        bnd (parse_prom_flags fw) (\<lambda>_ w.
          printk fw (''new prom_flags = 0x%x, shim = %s'' @ [LF])
            [Va_u (prom_flags w), Va_s (Some (yes_no w))] w)))"

section \<open>Claiming memory\<close>

text \<open>
  What the loader relies on of the \<open>claim\<close> service: it gives the address asked for, or -1
  where the range is taken, and a refused claim takes nothing.
\<close>

definition claims_memory :: "'s firmware \<Rightarrow> ('s \<Rightarrow> u32 \<Rightarrow> u32 \<Rightarrow> bool) \<Rightarrow> bool" where
  "claims_memory fw avail \<longleftrightarrow>
     (\<forall>s a n. \<exists>s' d.
        fw s \<lparr>service = ''claim'', nargs = 3, nret = 1, args = [Num a, Num n, Num 0]\<rparr>
          = (s', [if avail s a n then a else - 1], d)
        \<and> (\<not> avail s a n \<longrightarrow> avail s' = avail s))"

text \<open>The addresses \<open>prom_claim_chunk\<close> tries: the multiples of 1 MB from the request to 256 MB.\<close>

definition chunk_candidates :: "u32 \<Rightarrow> u32 list" where
  "chunk_candidates virt =
     map (\<lambda>k. word_of_nat (k * 1048576)) [(unat virt + 1048575) div 1048576..<257]"

lemma prom_claim_plain:
  assumes "claims_memory fw avail" and "\<not> flag_set (prom_flags w) PROM_CLAIM_WORK_AROUND"
  obtains s' where "prom_claim fw a n w = (Inr (if avail (fws w) a n then a else - 1), w\<lparr>fws := s'\<rparr>)"
    "\<not> avail (fws w) a n \<Longrightarrow> avail s' = avail (fws w)"
proof -
  obtain s' d where "fw (fws w) \<lparr>service = ''claim'', nargs = 3, nret = 1, args = [Num a, Num n, Num 0]\<rparr>
      = (s', [if avail (fws w) a n then a else - 1], d)" "\<not> avail (fws w) a n \<longrightarrow> avail s' = avail (fws w)"
    using assms(1) unfolding claims_memory_def by metis
  then show thesis
    using assms(2) that by (simp add: prom_claim_def call_def call_prom_def io_simps)
qed

lemma claim_from_candidates:
  assumes "claims_memory fw avail" and "\<not> flag_set (prom_flags w) PROM_CLAIM_WORK_AROUND" and "k \<le> 257"
  shows "fst (claim_from fw n (word_of_nat (k * 1048576)) w)
    = Inr (case find (\<lambda>a. avail (fws w) a n) (map (\<lambda>k. word_of_nat (k * 1048576)) [k..<257]) of
             Some a \<Rightarrow> a | None \<Rightarrow> - 1)"
  using assms(2,3)
proof (induction "257 - k" arbitrary: k w)
  case 0
  then have "k = 257" by simp
  then show ?case
    by (simp add: claim_from.simps [of fw n] layout_defs ret_def del: upt.simps)
next
  case (Suc j)
  let ?a = "word_of_nat (k * 1048576) :: u32"
  have k: "k < 257" using Suc.hyps(2) by simp
  have ua: "unat ?a = k * 1048576" using k by (intro unat_word_of_nat_small) simp
  have le: "?a \<le> PROM_CLAIM_MAX_ADDR" using ua k by (simp add: word_le_nat_alt layout_defs)
  have ne: "?a \<noteq> - 1"
  proof
    assume "?a = - 1"
    moreover have "(- 1 :: u32) = 4294967295" by simp
    ultimately have "unat ?a = unat (4294967295 :: u32)" by (simp only:)
    with ua k show False by simp
  qed
  have step: "?a + SIZE_1M = word_of_nat (Suc k * 1048576)" by (simp add: layout_defs)
  obtain s' where c: "prom_claim fw ?a n w = (Inr (if avail (fws w) ?a n then ?a else - 1), w\<lparr>fws := s'\<rparr>)"
      "\<not> avail (fws w) ?a n \<Longrightarrow> avail s' = avail (fws w)"
    using prom_claim_plain [OF assms(1) Suc.prems(1)] by metis
  have u: "[k..<257] = k # [Suc k..<257]" using k by (rule upt_conv_Cons)
  show ?case
  proof (cases "avail (fws w) ?a n")
    case True
    then show ?thesis using c le ne by (subst claim_from.simps) (simp add: u bnd_def ret_def)
  next
    case False
    have "fst (claim_from fw n ?a w) = fst (claim_from fw n (word_of_nat (Suc k * 1048576)) (w\<lparr>fws := s'\<rparr>))"
      using c(1) False le unfolding step [symmetric] by (subst claim_from.simps) (simp add: bnd_def)
    also have "\<dots> = Inr (case find (\<lambda>a. avail s' a n) (map (\<lambda>k. word_of_nat (k * 1048576)) [Suc k..<257]) of
             Some a \<Rightarrow> a | None \<Rightarrow> - 1)"
      using Suc.hyps(1) [of "Suc k" "w\<lparr>fws := s'\<rparr>"] Suc.hyps(2) Suc.prems(1) k by simp
    finally show ?thesis using c(2) False by (simp add: u)
  qed
qed

section \<open>Properties\<close>

text \<open>
  Property C14: \<open>prom_claim_chunk\<close> returns the lowest 1 MB multiple, at or above the address asked
  for and up to 256 MB, whose range the firmware still has, and -1 exactly when there is none.
\<close>

theorem claim_chunk_first:
  assumes "claims_memory fw avail" and "\<not> flag_set (prom_flags w) PROM_CLAIM_WORK_AROUND"
    and "virt \<le> PROM_CLAIM_MAX_ADDR"
  shows "fst (prom_claim_chunk fw virt n w)
    = Inr (case find (\<lambda>a. avail (fws w) a n) (chunk_candidates virt) of Some a \<Rightarrow> a | None \<Rightarrow> - 1)"
proof -
  let ?k = "(unat virt + 1048575) div 1048576"
  have v: "unat virt \<le> 0x10000000" using assms(3) by (simp add: word_le_nat_alt layout_defs)
  have sz: "SIZE_1M = 2 ^ 20" by (simp add: layout_defs)
  have "unat (ALIGN_UP virt SIZE_1M) = ?k * 1048576"
    unfolding sz using v unat_ALIGN_UP [of 20 virt] by simp
  moreover have "unat (word_of_nat (?k * 1048576) :: u32) = ?k * 1048576"
    using v by (intro unat_word_of_nat_small) simp
  ultimately have "ALIGN_UP virt SIZE_1M = word_of_nat (?k * 1048576)"
    by (simp only: word_unat_eq_iff)
  then show ?thesis
    using claim_from_candidates [OF assms(1,2), of ?k n] v
    by (simp add: prom_claim_chunk_def chunk_candidates_def)
qed

text \<open>A firmware whose memory is a list of taken ranges.\<close>

definition ranges_overlap :: "u32 \<times> u32 \<Rightarrow> u32 \<times> u32 \<Rightarrow> bool" where
  "ranges_overlap p q \<longleftrightarrow> unat (fst p) < unat (fst q) + unat (snd q) \<and> unat (fst q) < unat (fst p) + unat (snd p)"

definition demo_avail :: "(u32 \<times> u32) list \<Rightarrow> u32 \<Rightarrow> u32 \<Rightarrow> bool" where
  "demo_avail taken a n \<longleftrightarrow> \<not> list_ex (ranges_overlap (a, n)) taken"

definition demo_firmware :: "(u32 \<times> u32) list firmware" where
  "demo_firmware taken a =
     (case args a of
        [Num v, Num n, Num z] \<Rightarrow>
          if demo_avail taken v n then ((v, n) # taken, [v], []) else (taken, [- 1], [])
      | _ \<Rightarrow> (taken, [], []))"

lemma demo_claims: "claims_memory demo_firmware demo_avail"
  by (simp add: claims_memory_def demo_firmware_def)

definition demo_machine :: "'s \<Rightarrow> 's machine" where
  "demo_machine s = \<lparr>fws = s, prom_stdin = 0, prom_stdout = 0, prom_chosen = 1, prom_root = 2,
     prom_options = 3, prom_mmu = 0, prom_memory = 0, prom_flags = 0, shim_mediabay_ata = 0,
     shim_cpu_count = 0, shim_cpu = 0, mem = heap_start (\<lambda>_. 0), bi = bi_zero, spin = 0,
     junk = \<lparr>jk_result = 0, jk_nulstr = [], jk_path = \<lparr>pt_device = None, pt_part = 0, pt_path = None\<rparr>,
       jk_digit = (\<lambda>_. NUL), jk_local = 0x3fff00\<rparr>,
     budget = 100\<rparr>"

theorem claim_chunk_first_witness:
  "fst (prom_claim_chunk demo_firmware 0x7FF000 0x200000 (demo_machine [(0x800000, 0x180000)])) = Inr 0xA00000"
proof -
  have "fst (prom_claim_chunk demo_firmware 0x7FF000 0x200000 (demo_machine [(0x800000, 0x180000)]))
    = Inr (case find (\<lambda>a. demo_avail [(0x800000, 0x180000)] a 0x200000) (chunk_candidates 0x7FF000) of
        Some a \<Rightarrow> a | None \<Rightarrow> - 1)"
    using claim_chunk_first [OF demo_claims, of "demo_machine [(0x800000, 0x180000)]" "0x7FF000" "0x200000"]
    by (simp add: demo_machine_def flag_defs flag_set_def layout_defs)
  also have "chunk_candidates 0x7FF000 = [0x800000, 0x900000, 0xA00000] @ map (\<lambda>k. word_of_nat (k * 1048576)) [11..<257]"
    by (simp add: chunk_candidates_def upt_conv_Cons del: upt_rec_numeral)
  finally show ?thesis by (simp add: demo_avail_def ranges_overlap_def del: upt_rec_numeral)
qed

lemma claim_keeps_budget: "\<exists>r s'. prom_claim fw a n w = (Inr r, w\<lparr>fws := s'\<rparr>)"
  by (auto simp: prom_claim_def call_def call_prom_def io_simps split: prod.splits)

lemma claim_pages_ends:
  assumes "unat stop + 4095 < 2 ^ 32" and "unat stop + 4096 \<le> unat addr + 4096 * n" and "0 < n"
  shows "\<exists>s'. claim_pages fw stop addr n w = (Inr (), w\<lparr>fws := s'\<rparr>)"
  using assms(2,3)
proof (induction n arbitrary: addr w)
  case (Suc n)
  show ?case
  proof (cases "addr < stop")
    case True
    then have "unat addr < unat stop" by (simp add: word_less_nat_alt)
    then have u: "unat (addr + SIZE_4K) = unat addr + 4096"
      using assms(1) unat_plus_no_wrap [of addr SIZE_4K] by (simp add: layout_defs)
    obtain r s' where "prom_claim fw addr SIZE_4K w = (Inr r, w\<lparr>fws := s'\<rparr>)" using claim_keeps_budget [of fw addr SIZE_4K w] by blast
    moreover obtain s'' where "claim_pages fw stop (addr + SIZE_4K) n (w\<lparr>fws := s'\<rparr>) = (Inr (), w\<lparr>fws := s''\<rparr>)"
      using Suc.IH [of "addr + SIZE_4K" "w\<lparr>fws := s'\<rparr>"] Suc.prems u \<open>unat addr < unat stop\<close> by auto
    ultimately show ?thesis using True by (simp add: bnd_def) blast
  next
    case False
    then show ?thesis by (auto simp: ret_def intro!: exI [of _ "fws w"])
  qed
qed simp



text \<open>
  Property C37: the CPU numbers the shim invents for the \<open>reg\<close> property of an SMP machine: for a
  whole number \<open>k\<close> of words the loop ends with the words 0 to \<open>k - 1\<close>; for any other size the
  count left never becomes 0 and no number of iterations ends it.
\<close>

lemma cpu_words_whole:
  assumes "unat sz = 4 * k" and "k < n"
  shows "cpu_words i sz n = Some (concat (map (\<lambda>j. bytes32 (i + word_of_nat j)) [0..<k]))"
  using assms
proof (induction k arbitrary: i sz n)
  case 0
  then have "sz = 0" by (simp add: unat_eq_0)
  with 0 show ?case by (cases n) simp_all
next
  case (Suc k)
  then obtain m where n: "n = Suc m" "k < m" by (cases n) auto
  have "unat (sz - 4) = 4 * k" using Suc.prems by (simp add: unat_sub word_le_nat_alt)
  moreover have "sz \<noteq> 0" using Suc.prems by auto
  moreover have "[0..<Suc k] = 0 # map Suc [0..<k]" by (metis map_Suc_upt upt_conv_Cons zero_less_Suc)
  ultimately show ?case
    using Suc.IH [of "sz - 4" m "i + 1"] n by (simp add: comp_def add.assoc)
qed

lemma sub4_mod4: "unat (sz - 4 :: u32) mod 4 = unat sz mod 4"
proof -
  have "(- 4 :: u32) = 4294967292" by simp
  then have e: "sz - 4 = sz + 4294967292" by (metis diff_conv_add_uminus)
  have "unat (sz + 4294967292) = (unat sz + unat (4294967292 :: u32)) mod 2 ^ LENGTH(32)"
    by (rule unat_word_ariths(1))
  then have "unat (sz - 4) = (unat sz + 4294967292) mod 4294967296" unfolding e by simp
  then have "unat (sz - 4) mod 4 = (unat sz + 4 * 1073741823) mod 4" by (simp add: mod_mod_cancel)
  then show ?thesis by (simp only: mod_mult_self2)
qed

lemma cpu_words_odd: "unat sz mod 4 \<noteq> 0 \<Longrightarrow> cpu_words i sz n = None"
proof (induction n arbitrary: i sz)
  case (Suc n)
  then have "sz \<noteq> 0" by auto
  then show ?case using Suc.IH [of "sz - 4"] Suc.prems sub4_mod4 by simp
qed simp

theorem shim_cpu_words:
  assumes "service a = ''getprop''" and "flag_set (prom_flags w) PROM_SMP_FIX"
    and "arg_num a 0 = shim_cpu w" and "arg_str a 1 = ''reg''"
    and "sz = min (shim_cpu_count w) (arg_num a 3)" and "unat sz div 4 < budget w"
  shows "prom_shim fw a w =
    (if 4 dvd unat sz
     then (Inr ([sz], concat (map (\<lambda>j. bytes32 (word_of_nat j)) [0..<unat sz div 4])), w)
     else (Inl Hang, w))"
proof (cases "4 dvd unat sz")
  case True
  then show ?thesis
    using assms cpu_words_whole [of sz "unat sz div 4" "budget w" 0] by (simp add: prom_shim_def Let_def)
next
  case False
  then have "cpu_words 0 sz (budget w) = None" by (intro cpu_words_odd) presburger
  with False show ?thesis using assms by (simp add: prom_shim_def Let_def)
qed

theorem shim_cpu_words_witness:
  "prom_shim demo_firmware \<lparr>service = ''getprop'', nargs = 4, nret = 1, args = [Num 9, Str ''reg'', Buf, Num 8]\<rparr>
     ((demo_machine [])\<lparr>prom_flags := PROM_SMP_FIX, shim_cpu := 9, shim_cpu_count := 32\<rparr>)
   = (Inr ([8], bytes32 0 @ bytes32 1), (demo_machine [])\<lparr>prom_flags := PROM_SMP_FIX, shim_cpu := 9, shim_cpu_count := 32\<rparr>)"
  using shim_cpu_words [of "\<lparr>service = ''getprop'', nargs = 4, nret = 1, args = [Num 9, Str ''reg'', Buf, Num 8]\<rparr>"
      "(demo_machine [])\<lparr>prom_flags := PROM_SMP_FIX, shim_cpu := 9, shim_cpu_count := 32\<rparr>" 8 demo_firmware]
  by (simp add: arg_num_def arg_str_def demo_machine_def flag_set_def flag_defs min_def upt_rec)

text \<open>
  Recognising the firmware.  The \<open>:0\<close> suffix that NewWorld machines need is turned
  on for every version string except the three OldWorld ones and, because the result of
  \<open>strcmp\<close> is not compared with 0, except \<open>iMac,1\<close> itself.
\<close>

lemma version_full_disk:
  assumes "NUL \<notin> set ver"
  shows "flag_set (version_flags ver) PROM_NW_FULL_DISK \<longleftrightarrow>
    ver \<noteq> OF_VER_105 \<and> ver \<noteq> OF_VER_20 \<and> ver \<noteq> OF_VER_201 \<and> ver \<noteq> OF_VER_NW"
proof -
  have n: "NUL \<notin> set OF_VER_105" "NUL \<notin> set OF_VER_20" "NUL \<notin> set OF_VER_201" "NUL \<notin> set OF_VER_3" "NUL \<notin> set OF_VER_NW"
    by (simp_all add: ver_defs)
  have d: "OF_VER_3 \<noteq> OF_VER_105" "OF_VER_3 \<noteq> OF_VER_20" "OF_VER_3 \<noteq> OF_VER_201" "OF_VER_3 \<noteq> OF_VER_NW"
    by (simp_all add: ver_defs)
  show ?thesis using assms n d
    by (auto simp: version_flags_def strcmp_eq_0_iff flag_set_def flag_defs)
qed



end
