(* ===== verification/Part.thy ===== *)
theory Part
  imports Prom_Init
begin

unbundle bit_operations_syntax

text \<open>
  Disks and partitions: \<^verbatim>\<open>loader/disk.c\<close> reads bytes of a firmware device, and
  \<^verbatim>\<open>loader/part.c\<close> finds a partition in a Macintosh or DOS partition map and reads within
  its bounds.  A block read into a local buffer is the list of its bytes; the on-disk
  structures are read from it at the offsets of their fields.
\<close>

section \<open>disk.c\<close>

definition SECTOR_SIZE :: u32 where [layout_defs]: "SECTOR_SIZE = 512"
definition SECTOR_BITS :: nat where [layout_defs]: "SECTOR_BITS = 9"

definition disk_open :: "'s firmware \<Rightarrow> string \<Rightarrow> ('s, 'z, ihandle) prog" where
  "disk_open fw device = prom_open fw device"

definition disk_close :: "'s firmware \<Rightarrow> ihandle \<Rightarrow> ('s, 'z, unit) prog" where
  "disk_close fw dev = bnd (call fw ''close'' 1 0 [Num dev]) (\<lambda>_. ret ())"

text \<open>The result is the count the firmware gives and the bytes it stored in the buffer.\<close>

definition disk_read :: "'s firmware \<Rightarrow> ihandle \<Rightarrow> u32 \<Rightarrow> u64 \<Rightarrow> ('s, 'z, u32 \<times> bytes) prog" where
  "disk_read fw dev nbytes offset =
     (if nbytes = 0 then ret (0, [])
      else
        bnd (call fw ''seek'' 3 1 [Num dev, Num (ucast (drop_bit 32 offset)), Num (ucast offset)]) (\<lambda>_.
        bnd (call_prom fw ''read'' 3 1 [Num dev, Buf, Num nbytes]) (\<lambda>(nr, data).
        bnd (if nr \<noteq> nbytes then
               printk fw (''Read error at offset %x%x (%u instead of %u)'' @ [LF])
                 [Va_u (ucast (drop_bit 32 offset)), Va_u (ucast offset), Va_u nr, Va_u nbytes]
             else ret ()) (\<lambda>_. ret (nr, data)))))"

section \<open>Partitions\<close>

definition PART_VALID :: u32 where [flag_defs]: "PART_VALID = 1"
definition PART_MOUNTED :: u32 where [flag_defs]: "PART_MOUNTED = 2"

record part_t =
  p_partno :: u32
  p_dev :: ihandle
  p_start :: u64
  p_len :: u64
  p_flags :: u32
  p_devname :: string

definition part_zero :: part_t where
  "part_zero = \<lparr>p_partno = 0, p_dev = 0, p_start = 0, p_len = 0, p_flags = 0, p_devname = []\<rparr>"

text \<open>The loader has one \<open>part_t\<close>, the static \<open>part\<close> of \<^verbatim>\<open>file.c\<close>.\<close>

record 's pmachine = "'s machine" +
  the_part :: part_t

type_synonym ('s, 'z, 'a) pprog = "(('s, 'z) pmachine_scheme, stop, 'a) io"

section \<open>Macintosh partition maps\<close>

definition MAC_DRIVER_MAGIC :: u16 where "MAC_DRIVER_MAGIC = 0x4552"
definition MAC_PARTITION_MAGIC :: u16 where "MAC_PARTITION_MAGIC = 0x504d"
definition STATUS_BOOTABLE :: u32 where "STATUS_BOOTABLE = 8"

definition md_signature :: "bytes \<Rightarrow> u16" where "md_signature blk = be16 blk 0"
definition md_block_size :: "bytes \<Rightarrow> u16" where "md_block_size blk = be16 blk 2"
definition mp_signature :: "bytes \<Rightarrow> u16" where "mp_signature blk = be16 blk 0"
definition mp_map_count :: "bytes \<Rightarrow> u32" where "mp_map_count blk = be32 blk 4"
definition mp_start_block :: "bytes \<Rightarrow> u32" where "mp_start_block blk = be32 blk 8"
definition mp_block_count :: "bytes \<Rightarrow> u32" where "mp_block_count blk = be32 blk 12"
definition mp_status :: "bytes \<Rightarrow> u32" where "mp_status blk = be32 blk 88"
definition mp_processor :: "bytes \<Rightarrow> string" where "mp_processor blk = cstr (drop 120 blk)"

text \<open>A partition map entry found: where the partition starts, and its length.\<close>

type_synonym extent = "u64 \<times> u64"

definition mac_extent :: "u32 \<Rightarrow> bytes \<Rightarrow> extent" where
  "mac_extent secsize blk =
     (ucast (mp_start_block blk) * ucast secsize, ucast (mp_block_count blk) * ucast secsize)"

definition mac_selects :: "u32 \<Rightarrow> u32 \<Rightarrow> bytes \<Rightarrow> bool" where
  "mac_selects part upart blk \<longleftrightarrow> part = upart
     \<or> (part = 0 \<and> mp_status blk AND STATUS_BOOTABLE \<noteq> 0 \<and> strcasecmp (mp_processor blk) ''powerpc'' = 0)"

text \<open>The loop over the map; \<open>upart\<close> is always \<open>i\<close> when an entry is tested.\<close>

fun mac_loop :: "'s firmware \<Rightarrow> ihandle \<Rightarrow> u32 \<Rightarrow> u32 \<Rightarrow> u32 \<Rightarrow> u32 \<Rightarrow> u32 \<Rightarrow> nat \<Rightarrow> ('s, 'z, extent) prog" where
  "mac_loop fw dev part secsize blocks upart i 0 = throw Hang"
| "mac_loop fw dev part secsize blocks upart i (Suc n) =
     (if \<not> i \<le> blocks then throw (Err ERR_PART_NOT_FOUND)
      else
        bnd (disk_read fw dev SECTOR_SIZE (ucast i * ucast secsize)) (\<lambda>(nr, blk).
          if nr \<noteq> SECTOR_SIZE then throw (Err ERR_DEV_SHORT_READ)
          else if mp_signature blk \<noteq> MAC_PARTITION_MAGIC then throw (Err ERR_PART_NOT_FOUND)
          else
            (let blocks' = (if i = 1 then mp_map_count blk else blocks); upart' = upart + 1 in
             if mac_selects part upart' blk then ret (mac_extent secsize blk)
             else mac_loop fw dev part secsize blocks' upart' (i + 1) n)))"

definition read_mac_partition :: "'s firmware \<Rightarrow> ihandle \<Rightarrow> u32 \<Rightarrow> ('s, 'z, extent) prog" where
  "read_mac_partition fw dev part =
     bnd (disk_read fw dev SECTOR_SIZE 0) (\<lambda>(nr, blk).
       if nr \<noteq> SECTOR_SIZE then throw (Err ERR_DEV_SHORT_READ)
       else if md_signature blk \<noteq> MAC_DRIVER_MAGIC then throw (Err ERR_PART_NOT_MAC)
       else (\<lambda>w. mac_loop fw dev part (ucast (md_block_size blk)) 1 0 1 (budget w) w))"

section \<open>DOS partition tables\<close>

text \<open>
  The entry pointer advances while \<open>i\<close>, starting at 1, differs from the partition number.
  For partition 0 the counter runs through all of its 32 bits, and the pointer, which
  wraps with it, ends up one entry before the table.
\<close>

definition dos_entry :: "u32 \<Rightarrow> nat" where
  "dos_entry part = unat (0x1be + 16 * (part - 1))"

definition dos_extent :: "bytes \<Rightarrow> nat \<Rightarrow> extent" where
  "dos_extent blk off =
     (ucast (swab32 (be32 blk (off + 8)) * SECTOR_SIZE), ucast (swab32 (be32 blk (off + 12)) * SECTOR_SIZE))"

definition byte_at :: "bytes \<Rightarrow> nat \<Rightarrow> u8" where
  "byte_at bs i = (if i < length bs then bs ! i else 0)"

definition read_dos_partition :: "'s firmware \<Rightarrow> ihandle \<Rightarrow> u32 \<Rightarrow> ('s, 'z, extent) prog" where
  "read_dos_partition fw dev part =
     bnd (disk_read fw dev SECTOR_SIZE 0) (\<lambda>(nr, blk).
       if nr \<noteq> SECTOR_SIZE then throw (Err ERR_DEV_SHORT_READ)
       else if byte_at blk 0x1fe \<noteq> 0x55 \<or> byte_at blk 0x1ff \<noteq> 0xaa then throw (Err ERR_PART_NOT_DOS)
       else if part \<ge> 4 then throw (Err ERR_PART_NOT_FOUND)
       else ret (dos_extent blk (dos_entry part)))"

section \<open>Opening, closing and reading\<close>

definition part_close :: "'s firmware \<Rightarrow> ('s, 'z, unit) pprog" where
  "part_close fw = (\<lambda>w. bnd (disk_close fw (p_dev (the_part w))) (\<lambda>_. modify (\<lambda>w. w\<lparr>the_part := part_zero\<rparr>)) w)"

text \<open>A map that is not a Macintosh one is tried as a DOS one.\<close>

definition find_partition :: "'s firmware \<Rightarrow> ihandle \<Rightarrow> u32 \<Rightarrow> ('s, 'z, quik_err_t + extent) pprog" where
  "find_partition fw dev partno =
     bnd (catch (read_mac_partition fw dev partno)) (\<lambda>r.
       if r = Inl ERR_PART_NOT_MAC then
         bnd (catch (read_dos_partition fw dev partno)) (\<lambda>r2.
           ret (if r2 = Inl ERR_PART_NOT_DOS then Inl ERR_PART_NOT_PARTITIONED else r2))
       else ret r)"

definition part_open :: "'s firmware \<Rightarrow> string \<Rightarrow> u32 \<Rightarrow> ('s, 'z, unit) pprog" where
  "part_open fw device partno =
     (\<lambda>w. let valid = flag_set (p_flags (the_part w)) PART_VALID in
        if valid \<and> p_partno (the_part w) = partno \<and> strcmp device (p_devname (the_part w)) = 0 then (Inr (), w)
        else
          bnd (if valid then part_close fw else ret ()) (\<lambda>_.
          bnd (disk_open fw device) (\<lambda>dev.
          bnd (find_partition fw dev partno) (\<lambda>r.
            case r of
              Inl e \<Rightarrow> bnd (disk_close fw dev) (\<lambda>_. throw (Err e))
            | Inr (st, ln) \<Rightarrow>
                modify (\<lambda>w. w\<lparr>the_part := (the_part w)\<lparr>p_start := st, p_len := ln, p_dev := dev, p_partno := partno,
                  p_devname := strncpy device 512, p_flags := p_flags (the_part w) OR PART_VALID\<rparr>\<rparr>)))) w)"

text \<open>
  \<open>part_read_into\<close> is \<open>part_read\<close> with what it stores in the buffer also when it fails;
  \<open>part_read\<close> forgets the buffer then.
\<close>

definition part_read_into :: "'s firmware \<Rightarrow> u64 \<Rightarrow> u64 \<Rightarrow> u32 \<Rightarrow> ('s, 'z, quik_err_t option \<times> bytes) pprog" where
  "part_read_into fw sector byte_offset byte_len =
     (\<lambda>w. let off = push_bit SECTOR_BITS sector in
        if off + byte_offset + ucast byte_len \<ge> p_len (the_part w) then (Inr (Some ERR_PART_BEYOND, []), w)
        else
          bnd (disk_read fw (p_dev (the_part w)) byte_len (off + (p_start (the_part w) + byte_offset))) (\<lambda>(len, data).
            ret (if len \<noteq> byte_len then Some ERR_DEV_SHORT_READ else None, data)) w)"

definition part_read :: "'s firmware \<Rightarrow> u64 \<Rightarrow> u64 \<Rightarrow> u32 \<Rightarrow> ('s, 'z, bytes) pprog" where
  "part_read fw sector byte_offset byte_len =
     bnd (part_read_into fw sector byte_offset byte_len) (\<lambda>(e, data).
       case e of None \<Rightarrow> ret data | Some err \<Rightarrow> throw (Err err))"

section \<open>Computations that only call the firmware\<close>

definition fw_only :: "('s, 'z, 'a) prog \<Rightarrow> bool" where
  "fw_only m \<longleftrightarrow> (\<forall>w. \<exists>r s'. m w = (r, w\<lparr>fws := s'\<rparr>))"

lemma fw_onlyE:
  assumes "fw_only m"
  obtains r s' where "m w = (r, w\<lparr>fws := s'\<rparr>)"
  using assms unfolding fw_only_def by blast

lemma fws_same: "w = w\<lparr>fws := fws w\<rparr>"
  by simp

lemma fw_only_ret [intro, simp]: "fw_only (ret x)"
  unfolding fw_only_def ret_def using fws_same by blast

lemma fw_only_throw [intro, simp]: "fw_only (throw e)"
  unfolding fw_only_def throw_def using fws_same by blast

lemma fw_only_bnd [intro]:
  assumes "fw_only m" and "\<And>x. fw_only (k x)"
  shows "fw_only (bnd m k)"
  unfolding fw_only_def
proof
  fix w
  obtain r s' where m: "m w = (r, w\<lparr>fws := s'\<rparr>)" using assms(1) by (rule fw_onlyE)
  show "\<exists>r s'. bnd m k w = (r, w\<lparr>fws := s'\<rparr>)"
  proof (cases r)
    case (Inl e)
    with m show ?thesis by (auto simp: bnd_def)
  next
    case (Inr x)
    obtain r2 s2 where "k x (w\<lparr>fws := s'\<rparr>) = (r2, w\<lparr>fws := s'\<rparr>\<lparr>fws := s2\<rparr>)"
      using assms(2) [of x] by (rule fw_onlyE)
    with m Inr show ?thesis by (auto simp: bnd_def)
  qed
qed

lemma call_prom_eq:
  "fw (fws w) \<lparr>service = srv, nargs = n, nret = r, args = as\<rparr> = (s', rets, data) \<Longrightarrow>
     call_prom fw srv n r as w = (Inr (case rets of [] \<Rightarrow> 0 | x # _ \<Rightarrow> x, data), w\<lparr>fws := s'\<rparr>)"
  by (simp add: call_prom_def)

lemma fw_only_call_prom [intro, simp]: "fw_only (call_prom fw srv n r as)"
  unfolding fw_only_def
proof
  fix w
  obtain s' rets data where "fw (fws w) \<lparr>service = srv, nargs = n, nret = r, args = as\<rparr> = (s', rets, data)"
    by (metis prod_cases3)
  then have "call_prom fw srv n r as w = (Inr (case rets of [] \<Rightarrow> 0 | x # _ \<Rightarrow> x, data), w\<lparr>fws := s'\<rparr>)"
    by (rule call_prom_eq)
  then show "\<exists>x s'. call_prom fw srv n r as w = (x, w\<lparr>fws := s'\<rparr>)" by (intro exI)
qed

lemma fw_only_call [intro, simp]: "fw_only (call fw srv n r as)"
  unfolding call_def by (rule fw_only_bnd) (simp_all split: prod.split)

lemma fw_only_if [intro]: "fw_only m \<Longrightarrow> fw_only n \<Longrightarrow> fw_only (if b then m else n)"
  by simp

lemma fw_only_state: "(\<And>w. fw_only (f w)) \<Longrightarrow> fw_only (\<lambda>w. f w w)"
  unfolding fw_only_def by blast

lemma fw_only_write_out [intro, simp]: "fw_only (write_out fw cs)"
  unfolding write_out_def by (rule fw_only_state) simp

lemma fw_only_putchar [intro, simp]: "fw_only (putchar fw c)"
proof -
  have "fw_only (\<lambda>w. (if prom_stdout w = 0 then ret 0
      else bnd (if c = LF then write_out fw [CR] else ret 0) (\<lambda>_. write_out fw [c])) w)"
    by (rule fw_only_state) (rule fw_only_if, simp, rule fw_only_bnd, simp_all)
  then show ?thesis by (simp add: putchar_def ret_def if_distrib [of "\<lambda>f. f _"] cong: if_cong)
qed

lemma fw_only_putchars [intro, simp]: "fw_only (putchars fw cs)"
proof (induction cs)
  case (Cons c cs)
  then show ?case by (simp add: fw_only_bnd)
qed simp

lemma fw_only_printk [intro, simp]: "fw_only (printk fw fmt as)"
  unfolding printk_def by (rule fw_only_state) simp

lemma call_ok: "\<exists>x s'. call fw srv n r as w = (Inr x, w\<lparr>fws := s'\<rparr>)"
proof -
  obtain s' rets data where "fw (fws w) \<lparr>service = srv, nargs = n, nret = r, args = as\<rparr> = (s', rets, data)"
    by (metis prod_cases3)
  then have "call_prom fw srv n r as w = (Inr (case rets of [] \<Rightarrow> 0 | x # _ \<Rightarrow> x, data), w\<lparr>fws := s'\<rparr>)"
    by (rule call_prom_eq)
  then have "call fw srv n r as w = (Inr (case rets of [] \<Rightarrow> 0 | x # _ \<Rightarrow> x), w\<lparr>fws := s'\<rparr>)"
    by (simp add: call_def bnd_def ret_def)
  then show ?thesis by (intro exI)
qed

lemma write_out_ok: "\<exists>x w'. write_out fw cs w = (Inr x, w')"
  unfolding write_out_def using call_ok by metis

lemma putchar_Inr: "\<exists>x w'. putchar fw c w = (Inr x, w')"
proof -
  obtain x w1 where 1: "write_out fw [CR] w = (Inr x, w1)" using write_out_ok by blast
  show ?thesis
    using write_out_ok [of fw "[c]" w] write_out_ok [of fw "[c]" w1] 1
    by (cases "c = LF") (simp_all add: putchar_def bnd_def ret_def)
qed

lemma putchars_Inr: "\<exists>w'. putchars fw cs w = (Inr (), w')"
proof (induction cs arbitrary: w)
  case (Cons c cs)
  obtain x w1 where "putchar fw c w = (Inr x, w1)" using putchar_Inr by blast
  moreover obtain w2 where "putchars fw cs w1 = (Inr (), w2)" using Cons by blast
  ultimately show ?case by (simp add: bnd_def)
qed (simp add: ret_def)

lemma printk_ok: "\<exists>s'. printk fw fmt as w = (Inr (), w\<lparr>fws := s'\<rparr>)"
proof -
  obtain r s' where p: "printk fw fmt as w = (r, w\<lparr>fws := s'\<rparr>)"
    using fw_only_printk by (rule fw_onlyE)
  obtain w' where "printk fw fmt as w = (Inr (), w')"
    using putchars_Inr [of fw "vprintk (junk w) fmt as" w] unfolding printk_def by blast
  with p have "r = Inr ()" by simp
  with p show ?thesis by blast
qed

lemma printk_or_not: "\<exists>s'. (if b then printk fw fmt as else ret ()) w = (Inr (), w\<lparr>fws := s'\<rparr>)"
proof (cases b)
  case True
  then show ?thesis using printk_ok [of fw fmt as w] by simp
next
  case False
  have "ret () w = (Inr (), w\<lparr>fws := fws w\<rparr>)" by (simp add: ret_def)
  with False show ?thesis by (simp only: if_False) (intro exI)
qed

section \<open>Block devices\<close>

text \<open>
  What the loader relies on of an open disk: after a seek to a byte offset, a read gives the
  bytes of the disk from there, fewer only at the end of the disk.
\<close>

definition block_device :: "'s firmware \<Rightarrow> ihandle \<Rightarrow> bytes \<Rightarrow> ('s \<Rightarrow> nat) \<Rightarrow> bool" where
  "block_device fw ih img pos \<longleftrightarrow>
     (\<forall>s hi lo. \<exists>s' r.
        fw s \<lparr>service = ''seek'', nargs = 3, nret = 1, args = [Num ih, Num hi, Num lo]\<rparr> = (s', [r], [])
        \<and> pos s' = unat hi * 2 ^ 32 + unat lo)
     \<and> (\<forall>s n. \<exists>s'.
        fw s \<lparr>service = ''read'', nargs = 3, nret = 1, args = [Num ih, Buf, Num n]\<rparr>
          = (s', [word_of_nat (length (slice (pos s) (unat n) img))], slice (pos s) (unat n) img))"

lemma unat_split64: "unat (ucast (drop_bit 32 (x :: u64)) :: u32) * 2 ^ 32 + unat (ucast x :: u32) = unat x"
proof -
  have "unat (ucast x :: u32) = unat x mod 2 ^ 32"
    by (simp add: unsigned_ucast_eq take_bit_eq_mod)
  moreover have "unat (ucast (drop_bit 32 x) :: u32) = unat x div 2 ^ 32"
  proof -
    have "unat (drop_bit 32 x) = unat x div 2 ^ 32" by (rule unat_drop_bit_div)
    moreover have "unat x div 2 ^ 32 < 2 ^ 32" using unat_lt_u64 [of x] by (simp add: div_less_iff_less_mult)
    ultimately show ?thesis by (simp add: unsigned_ucast_eq take_bit_eq_mod)
  qed
  ultimately show ?thesis by (simp only: div_mult_mod_eq)
qed

lemma disk_read_device:
  assumes "block_device fw ih img pos"
  shows "\<exists>s'. disk_read fw ih n off w
    = (Inr (word_of_nat (length (slice (unat off) (unat n) img)), slice (unat off) (unat n) img), w\<lparr>fws := s'\<rparr>)"
proof (cases "n = 0")
  case True
  then have "disk_read fw ih n off w = (Inr (word_of_nat (length (slice (unat off) (unat n) img)),
      slice (unat off) (unat n) img), w\<lparr>fws := fws w\<rparr>)" by (simp add: disk_read_def ret_def)
  then show ?thesis by (intro exI)
next
  case False
  let ?hi = "ucast (drop_bit 32 off) :: u32" and ?lo = "ucast off :: u32"
  obtain s1 r1 where 1: "fw (fws w) \<lparr>service = ''seek'', nargs = 3, nret = 1, args = [Num ih, Num ?hi, Num ?lo]\<rparr>
      = (s1, [r1], [])" "pos s1 = unat off"
    using assms unat_split64 [of off] unfolding block_device_def by metis
  obtain s2 where 2: "fw s1 \<lparr>service = ''read'', nargs = 3, nret = 1, args = [Num ih, Buf, Num n]\<rparr>
      = (s2, [word_of_nat (length (slice (unat off) (unat n) img))], slice (unat off) (unat n) img)"
    using assms 1(2) unfolding block_device_def by metis
  let ?d = "slice (unat off) (unat n) img"
  let ?rd = "call_prom fw ''read'' 3 1 [Num ih, Buf, Num n]"
  have seek: "call fw ''seek'' 3 1 [Num ih, Num ?hi, Num ?lo] w = (Inr r1, w\<lparr>fws := s1\<rparr>)"
    using 1(1) by (simp add: call_def bnd_def ret_def call_prom_def)
  have rd: "?rd (w\<lparr>fws := s1\<rparr>) = (Inr (word_of_nat (length ?d), ?d), w\<lparr>fws := s2\<rparr>)"
    using 2 by (simp add: call_prom_def)
  let ?msg = "if word_of_nat (length ?d) \<noteq> n then
      printk fw (''Read error at offset %x%x (%u instead of %u)'' @ [LF])
        [Va_u (ucast (drop_bit 32 off)), Va_u (ucast off), Va_u (word_of_nat (length ?d)), Va_u n]
      else ret ()"
  obtain s3 where "?msg (w\<lparr>fws := s2\<rparr>) = (Inr (), w\<lparr>fws := s2\<rparr>\<lparr>fws := s3\<rparr>)"
    using printk_or_not [of _ fw _ _ "w\<lparr>fws := s2\<rparr>"] by metis
  then have fin: "bnd ?msg (\<lambda>_. ret (word_of_nat (length ?d), ?d)) (w\<lparr>fws := s2\<rparr>)
      = (Inr (word_of_nat (length ?d), ?d), w\<lparr>fws := s3\<rparr>)"
    by (simp add: bnd_def ret_def del: if_split)
  have "disk_read fw ih n off w = (Inr (word_of_nat (length ?d), ?d), w\<lparr>fws := s3\<rparr>)"
    unfolding disk_read_def if_not_P [OF False]
    by (subst bnd_Inr, rule seek, subst bnd_Inr, rule rd, simp only: prod.case fin)
  then show ?thesis by (intro exI)
qed

section \<open>Reading a partition of a block device\<close>

lemma unat_sector_off:
  fixes sector off n :: u64
  assumes "unat sector < 2 ^ 50" and "unat off < 2 ^ 32" and "unat n < 2 ^ 32"
  shows "unat (push_bit SECTOR_BITS sector + off + n) = 512 * unat sector + unat off + unat n"
    and "unat (push_bit SECTOR_BITS sector) = 512 * unat sector"
proof -
  have "unat sector * 2 ^ 9 < 2 ^ LENGTH(64)" using assms(1) by simp
  then have p: "unat (push_bit 9 sector) = unat sector * 2 ^ 9" by (rule unat_push_bit_small)
  then show "unat (push_bit SECTOR_BITS sector) = 512 * unat sector" by (simp add: layout_defs)
  have "unat (push_bit 9 sector + off) = unat sector * 2 ^ 9 + unat off"
    using p assms unat_plus_no_wrap [of "push_bit 9 sector" off] by simp
  then have "unat (push_bit 9 sector + off + n) = unat sector * 2 ^ 9 + unat off + unat n"
    using assms unat_plus_no_wrap [of "push_bit 9 sector + off" n] by simp
  then show "unat (push_bit SECTOR_BITS sector + off + n) = 512 * unat sector + unat off + unat n"
    by (simp add: layout_defs)
qed

text \<open>What the bytes of a partition are, for a request inside it.\<close>

definition part_bytes :: "bytes \<Rightarrow> part_t \<Rightarrow> u64 \<Rightarrow> u64 \<Rightarrow> u32 \<Rightarrow> bytes" where
  "part_bytes img p sector off n = slice (unat (p_start p) + (512 * unat sector + unat off)) (unat n) img"

definition in_part :: "part_t \<Rightarrow> u64 \<Rightarrow> u64 \<Rightarrow> u32 \<Rightarrow> bool" where
  "in_part p sector off n \<longleftrightarrow> 512 * unat sector + unat off + unat n < unat (p_len p)"

definition part_on :: "bytes \<Rightarrow> part_t \<Rightarrow> bool" where
  "part_on img p \<longleftrightarrow> unat (p_start p) + unat (p_len p) \<le> length img \<and> length img < 2 ^ 64"

lemma part_read_into_eq:
  assumes dev: "block_device fw (p_dev (the_part w)) img pos" and on: "part_on img (the_part w)"
    and small: "unat sector < 2 ^ 50" "unat off < 2 ^ 32"
  shows "\<exists>s'. part_read_into fw sector off n w =
    (Inr (if in_part (the_part w) sector off n then (None, part_bytes img (the_part w) sector off n)
          else (Some ERR_PART_BEYOND, [])), w\<lparr>fws := s'\<rparr>)"
proof -
  let ?p = "the_part w" and ?off = "push_bit SECTOR_BITS sector"
  have n32: "unat (ucast n :: u64) = unat n" by simp
  have n: "unat (ucast n :: u64) < 2 ^ 32" using unat_lt_u32 [of n] n32 by simp
  have sum: "unat (?off + off + ucast n) = 512 * unat sector + unat off + unat n"
    using unat_sector_off(1) [OF small n] n32 by simp
  have guard: "\<not> ?off + off + ucast n \<ge> p_len ?p \<longleftrightarrow> in_part ?p sector off n"
    using sum by (simp add: in_part_def word_le_nat_alt not_le)
  show ?thesis
  proof (cases "in_part ?p sector off n")
    case False
    then have "part_read_into fw sector off n w =
      (Inr (if in_part ?p sector off n then (None, part_bytes img ?p sector off n)
          else (Some ERR_PART_BEYOND, [])), w\<lparr>fws := fws w\<rparr>)"
      using guard by (simp add: part_read_into_def Let_def)
    then show ?thesis by (intro exI)
  next
    case True
    then have b: "512 * unat sector + unat off + unat n < unat (p_len ?p)" by (simp add: in_part_def)
    have "unat (p_start ?p) + unat off < 2 ^ 64" using b on by (simp add: part_on_def)
    then have u1: "unat (p_start ?p + off) = unat (p_start ?p) + unat off"
      by (intro unat_plus_no_wrap) simp
    then have u: "unat (?off + (p_start ?p + off)) = unat (p_start ?p) + (512 * unat sector + unat off)"
      using b on unat_sector_off(2) [OF small n] unat_plus_no_wrap [of ?off "p_start ?p + off"]
      by (simp add: part_on_def)
    let ?d = "part_bytes img ?p sector off n"
    obtain s' where r: "disk_read fw (p_dev ?p) n (?off + (p_start ?p + off)) w
        = (Inr (word_of_nat (length ?d), ?d), w\<lparr>fws := s'\<rparr>)"
      using disk_read_device [OF dev, of n "?off + (p_start ?p + off)" w] unfolding u part_bytes_def by blast
    have "unat (p_start ?p) + (512 * unat sector + unat off) + unat n \<le> length img"
      using b on unfolding part_on_def by linarith
    then have "length ?d = unat n" by (simp add: part_bytes_def)
    then have "part_read_into fw sector off n w =
      (Inr (if in_part ?p sector off n then (None, part_bytes img ?p sector off n)
          else (Some ERR_PART_BEYOND, [])), w\<lparr>fws := s'\<rparr>)"
      using True guard r by (simp add: part_read_into_def Let_def bnd_def ret_def)
    then show ?thesis by (intro exI)
  qed
qed

text \<open>
  Property C8: on a partition that lies inside its disk, \<open>part_read\<close> gives exactly the bytes of
  the disk at the partition's start plus the requested offset, and refuses a request that
  does not end before the end of the partition (one that ends exactly there included);
  it changes nothing but the state of the firmware.
\<close>

theorem part_read_bytes:
  assumes "block_device fw (p_dev (the_part w)) img pos" and "part_on img (the_part w)"
    and "unat sector < 2 ^ 50" and "unat off < 2 ^ 32"
  shows "\<exists>s'. part_read fw sector off n w =
    (if in_part (the_part w) sector off n then Inr (part_bytes img (the_part w) sector off n)
     else Inl (Err ERR_PART_BEYOND), w\<lparr>fws := s'\<rparr>)"
proof -
  obtain s' where "part_read_into fw sector off n w =
    (Inr (if in_part (the_part w) sector off n then (None, part_bytes img (the_part w) sector off n)
          else (Some ERR_PART_BEYOND, [])), w\<lparr>fws := s'\<rparr>)"
    using part_read_into_eq [OF assms] by blast
  then have "part_read fw sector off n w =
    (if in_part (the_part w) sector off n then Inr (part_bytes img (the_part w) sector off n)
     else Inl (Err ERR_PART_BEYOND), w\<lparr>fws := s'\<rparr>)"
    by (cases "in_part (the_part w) sector off n") (simp_all add: part_read_def bnd_def ret_def throw_def)
  then show ?thesis by (intro exI)
qed

text \<open>A firmware with one disk: its state is the position of the next read.\<close>

definition ram_disk :: "bytes \<Rightarrow> nat firmware" where
  "ram_disk img p a =
     (if service a = ''seek'' then
        (case args a of
           [Num ih, Num hi, Num lo] \<Rightarrow> (unat hi * 2 ^ 32 + unat lo, [0], [])
         | _ \<Rightarrow> (p, [], []))
      else if service a = ''read'' then
        (case args a of
           [Num ih, b, Num n] \<Rightarrow>
             (let d = slice p (unat n) img in (p + length d, [word_of_nat (length d)], d))
         | _ \<Rightarrow> (p, [], []))
      else (p, [], []))"

lemma ram_disk_device: "block_device (ram_disk img) ih img (\<lambda>p. p)"
  by (simp add: block_device_def ram_disk_def Let_def)

definition demo_disk :: "part_t \<Rightarrow> nat pmachine" where
  "demo_disk p = machine.extend (demo_machine 0) \<lparr>the_part = p\<rparr>"

definition demo_image :: bytes where
  "demo_image = replicate 1024 0 @ map word_of_nat [0..<1024]"

lemma demo_image_slice: "slice 1538 3 demo_image = [2, 3, 4]"
proof -
  have "take 3 [514..<1024::nat] = [514..<517]" by (subst take_upt) simp_all
  also have "\<dots> = [514, 515, 516]" by (simp add: upt_rec)
  finally show ?thesis
    by (simp add: slice_def demo_image_def drop_map take_map del: upt_rec_numeral)
qed

theorem part_read_bytes_witness:
  "\<exists>s'. part_read (ram_disk demo_image) 1 2 3 (demo_disk (part_zero\<lparr>p_start := 1024, p_len := 1024\<rparr>))
     = (Inr [2, 3, 4], (demo_disk (part_zero\<lparr>p_start := 1024, p_len := 1024\<rparr>))\<lparr>fws := s'\<rparr>)"
proof -
  let ?p = "part_zero\<lparr>p_start := 1024, p_len := 1024\<rparr>"
  have p: "the_part (demo_disk ?p) = ?p" by (simp add: demo_disk_def machine.defs)
  have "part_on demo_image ?p" by (simp add: part_on_def demo_image_def)
  moreover have "in_part ?p 1 2 3" by (simp add: in_part_def)
  moreover have "part_bytes demo_image ?p 1 2 3 = [2, 3, 4]"
    using demo_image_slice by (simp add: part_bytes_def)
  ultimately show ?thesis
    using part_read_bytes [of "ram_disk demo_image" "demo_disk ?p" demo_image "\<lambda>p. p" 1 2 3]
    by (simp add: p ram_disk_device)
qed

text \<open>
  A well-formed Macintosh map of \<open>m\<close> entries: entry \<open>i\<close> is the 512 bytes at \<open>i\<close> times the block
  size of the driver descriptor, and the first entry tells how many there are.
\<close>

definition mac_entry :: "bytes \<Rightarrow> nat \<Rightarrow> bytes" where
  "mac_entry img i = slice (i * unat (md_block_size img)) 512 img"

definition mac_map :: "bytes \<Rightarrow> nat \<Rightarrow> bool" where
  "mac_map img m \<longleftrightarrow> 512 \<le> length img \<and> md_signature img = MAC_DRIVER_MAGIC
     \<and> 1 \<le> m \<and> m < 2 ^ 32 - 1 \<and> unat (mp_map_count (mac_entry img 1)) = m
     \<and> (\<forall>i \<in> {1..m}. length (mac_entry img i) = 512 \<and> mp_signature (mac_entry img i) = MAC_PARTITION_MAGIC)"

text \<open>
  Entry \<open>k\<close> for \<open>k\<close>, and for 0 the first entry with the bootable bit whose processor is a
  PowerPC in any case of letters; where it starts and how long it is, in bytes.
\<close>

definition mac_bootable :: "bytes \<Rightarrow> bool" where
  "mac_bootable blk \<longleftrightarrow> mp_status blk AND 8 \<noteq> 0 \<and> map fold_case (mp_processor blk) = map fold_case ''powerpc''"

definition mac_place :: "bytes \<Rightarrow> nat \<Rightarrow> extent" where
  "mac_place img i =
     (let at = (\<lambda>blocks. word_of_nat (unat (blocks (mac_entry img i)) * unat (md_block_size img)))
      in (at mp_start_block, at mp_block_count))"

definition mac_find :: "bytes \<Rightarrow> nat \<Rightarrow> u32 \<Rightarrow> extent option" where
  "mac_find img m part = map_option (mac_place img)
     (if part = 0 then find (\<lambda>i. mac_bootable (mac_entry img i)) [1..<Suc m]
      else if unat part \<le> m then Some (unat part) else None)"

lemma mac_place_extent: "mac_extent (ucast (md_block_size img)) (mac_entry img i) = mac_place img i"
proof -
  have "(ucast (ucast b :: u32) :: u64) = ucast b" for b :: u16
    by (rule bit_word_eqI) (auto simp: bit_simps dest: bit_imp_le_length)
  then show ?thesis by (simp add: mac_extent_def mac_place_def Let_def)
qed

lemma find_number: "find (\<lambda>i. k = i) [1..<Suc m] = (if 1 \<le> k \<and> k \<le> m then Some k else None)"
proof (induction m)
  case (Suc m)
  have "find P (xs @ ys) = (case find P xs of None \<Rightarrow> find P ys | Some x \<Rightarrow> Some x)" for P and xs ys :: "nat list"
    by (induction xs) auto
  then show ?case using Suc by auto
qed simp

lemma find_selected:
  assumes "m < 2 ^ 32 - 1"
  shows "find (\<lambda>i. mac_selects part (word_of_nat i) (mac_entry img i)) [1..<Suc m]
    = (if part = 0 then find (\<lambda>i. mac_bootable (mac_entry img i)) [1..<Suc m]
       else if unat part \<le> m then Some (unat part) else None)"
proof -
  have u: "unat (word_of_nat i :: u32) = i" if "i \<in> set [1..<Suc m]" for i
    using that assms by (intro unat_word_of_nat_small) auto
  show ?thesis
  proof (cases "part = 0")
    case True
    have "NUL \<notin> set (mp_processor blk)" for blk
      unfolding mp_processor_def by (rule cstr_no_NUL)
    then have "mac_selects part (word_of_nat i) (mac_entry img i) = mac_bootable (mac_entry img i)"
      if "i \<in> set [1..<Suc m]" for i
      using True u [OF that] that
      by (auto simp: mac_selects_def mac_bootable_def STATUS_BOOTABLE_def strcasecmp_eq_0_iff unat_eq_zero [symmetric])
    then have "find (\<lambda>i. mac_selects part (word_of_nat i) (mac_entry img i)) [1..<Suc m]
        = find (\<lambda>i. mac_bootable (mac_entry img i)) [1..<Suc m]" by (rule find_cong [OF refl])
    then show ?thesis using True by simp
  next
    case False
    then have "mac_selects part (word_of_nat i) (mac_entry img i) = (unat part = i)" if "i \<in> set [1..<Suc m]" for i
      using u [OF that] by (auto simp: mac_selects_def)
    then have "find (\<lambda>i. mac_selects part (word_of_nat i) (mac_entry img i)) [1..<Suc m]
        = find (\<lambda>i. unat part = i) [1..<Suc m]" by (rule find_cong [OF refl])
    then show ?thesis using False find_number [of "unat part" m] by (simp add: unat_eq_zero Suc_le_eq unat_gt_0)
  qed
qed

lemma mac_loop_finds:
  assumes "block_device fw dev img pos" and "mac_map img m"
    and "1 \<le> i" and "i \<le> Suc m" and "Suc m - i < n"
    and "blocks = (if i = 1 then 1 else word_of_nat m)"
  shows "\<exists>s'. mac_loop fw dev part (ucast (md_block_size img)) blocks (word_of_nat (i - 1)) (word_of_nat i) n w
    = (case find (\<lambda>i. mac_selects part (word_of_nat i) (mac_entry img i)) [i..<Suc m] of
         Some k \<Rightarrow> Inr (mac_extent (ucast (md_block_size img)) (mac_entry img k))
       | None \<Rightarrow> Inl (Err ERR_PART_NOT_FOUND), w\<lparr>fws := s'\<rparr>)"
  using assms(3-)
proof (induction "Suc m - i" arbitrary: i n blocks w)
  case 0
  then have i: "i = Suc m" by simp
  obtain n' where n: "n = Suc n'" using 0 by (cases n) auto
  have m: "1 \<le> m" "m < 2 ^ 32 - 1" using assms(2) by (simp_all add: mac_map_def)
  have "unat (word_of_nat (Suc m) :: u32) = Suc m" "unat (word_of_nat m :: u32) = m"
    using m by (intro unat_word_of_nat_small; simp)+
  moreover have "blocks = word_of_nat m" using 0(5) i m by simp
  ultimately have "\<not> (word_of_nat (Suc m) :: u32) \<le> blocks" by (simp only: word_le_nat_alt)
  then have "mac_loop fw dev part (ucast (md_block_size img)) blocks (word_of_nat (i - 1)) (word_of_nat i) n w
    = (case find (\<lambda>i. mac_selects part (word_of_nat i) (mac_entry img i)) [i..<Suc m] of
         Some k \<Rightarrow> Inr (mac_extent (ucast (md_block_size img)) (mac_entry img k))
       | None \<Rightarrow> Inl (Err ERR_PART_NOT_FOUND), w\<lparr>fws := fws w\<rparr>)"
    unfolding n i by (simp add: throw_def del: of_nat_Suc)
  then show ?case by (intro exI)
next
  case (Suc d)
  then have i: "1 \<le> i" "i \<le> m" by auto
  obtain n' where n: "n = Suc n'" using Suc by (cases n) auto
  have m: "1 \<le> m" "m < 2 ^ 32 - 1" using assms(2) by (auto simp: mac_map_def)
  have ui: "unat (word_of_nat i :: u32) = i" "unat (word_of_nat m :: u32) = m"
    using i m by (auto intro!: unat_word_of_nat_small)
  have le: "(word_of_nat i :: u32) \<le> blocks"
    using Suc.prems(4) ui i by (auto simp: word_le_nat_alt)
  have "unat (md_block_size img) < 2 ^ 16" using unat_lt [of "md_block_size img"] by simp
  then have "i * unat (md_block_size img) < 2 ^ 32 * 2 ^ 16" using i m
    by (intro mult_strict_mono) auto
  then have off: "unat (ucast (word_of_nat i :: u32) * ucast (ucast (md_block_size img) :: u32) :: u64)
      = i * unat (md_block_size img)"
    using ui(1) unat_word_ariths(2) [of "ucast (word_of_nat i :: u32) :: u64" "ucast (ucast (md_block_size img) :: u32)"]
    by (simp only: unat_ucast_u64 unat_ucast_u16) simp
  let ?e = "mac_entry img i"
  have e: "length ?e = 512" "mp_signature ?e = MAC_PARTITION_MAGIC" using assms(2) i by (auto simp: mac_map_def)
  obtain s1 where "disk_read fw dev SECTOR_SIZE (ucast (word_of_nat i :: u32) * ucast (ucast (md_block_size img) :: u32)) w
      = (Inr (word_of_nat (length (slice (i * unat (md_block_size img)) (unat SECTOR_SIZE) img)),
          slice (i * unat (md_block_size img)) (unat SECTOR_SIZE) img), w\<lparr>fws := s1\<rparr>)"
    using disk_read_device [OF assms(1), of SECTOR_SIZE _ w] unfolding off [symmetric] by blast
  then have rd: "disk_read fw dev SECTOR_SIZE (ucast (word_of_nat i :: u32) * ucast (ucast (md_block_size img) :: u32)) w
      = (Inr (SECTOR_SIZE, ?e), w\<lparr>fws := s1\<rparr>)"
    using e(1) by (simp add: mac_entry_def layout_defs)
  have up: "word_of_nat (i - 1) + 1 = (word_of_nat i :: u32)" "word_of_nat i + 1 = (word_of_nat (Suc i) :: u32)"
    using i by (simp_all add: of_nat_diff)
  have one: "(word_of_nat i :: u32) = 1 \<longleftrightarrow> i = 1" using ui(1) by (metis One_nat_def unat_1 of_nat_1)
  have blocks': "(if (word_of_nat i :: u32) = 1 then mp_map_count ?e else blocks) = word_of_nat m"
  proof (cases "i = 1")
    case True
    then have "unat (mp_map_count ?e) = m" using assms(2) by (simp add: mac_map_def)
    then have "mp_map_count ?e = word_of_nat m" using ui(2) by (simp only: word_unat_eq_iff)
    then show ?thesis using True one by simp
  next
    case False
    then show ?thesis using one Suc.prems(4) by simp
  qed
  have cons: "[i..<Suc m] = i # [Suc i..<Suc m]" using i by (simp add: upt_conv_Cons)
  show ?case
  proof (cases "mac_selects part (word_of_nat i) ?e")
    case True
    then show ?thesis
      unfolding n mac_loop.simps cons using le rd e(2) up(1)
      by (simp add: bnd_def ret_def Let_def) blast
  next
    case False
    have "mac_loop fw dev part (ucast (md_block_size img)) blocks (word_of_nat (i - 1)) (word_of_nat i) n w
      = mac_loop fw dev part (ucast (md_block_size img)) (word_of_nat m) (word_of_nat (Suc i - 1)) (word_of_nat (Suc i)) n'
          (w\<lparr>fws := s1\<rparr>)"
      unfolding n mac_loop.simps using le rd e(2) False up blocks' by (simp add: bnd_def Let_def del: of_nat_Suc)
    moreover obtain s' where "mac_loop fw dev part (ucast (md_block_size img)) (word_of_nat m) (word_of_nat (Suc i - 1)) (word_of_nat (Suc i)) n'
          (w\<lparr>fws := s1\<rparr>)
        = (case find (\<lambda>i. mac_selects part (word_of_nat i) (mac_entry img i)) [Suc i..<Suc m] of
         Some k \<Rightarrow> Inr (mac_extent (ucast (md_block_size img)) (mac_entry img k))
       | None \<Rightarrow> Inl (Err ERR_PART_NOT_FOUND), w\<lparr>fws := s1\<rparr>\<lparr>fws := s'\<rparr>)"
    proof -
      have "d = Suc m - Suc i" "1 \<le> Suc i" "Suc i \<le> Suc m" "Suc m - Suc i < n'"
        "word_of_nat m = (if Suc i = 1 then 1 else word_of_nat m :: u32)"
        using Suc.hyps(2) Suc.prems(3) i n by auto
      from Suc.hyps(1) [OF this, of "w\<lparr>fws := s1\<rparr>"] show thesis using that by blast
    qed
    ultimately show ?thesis unfolding cons using False by (simp del: of_nat_Suc) blast
  qed
qed

lemma read_mac_finds:
  assumes "block_device fw dev img pos" and "mac_map img m" and "Suc m \<le> budget w"
  shows "\<exists>s'. read_mac_partition fw dev part w
    = (case mac_find img m part of Some e \<Rightarrow> Inr e | None \<Rightarrow> Inl (Err ERR_PART_NOT_FOUND), w\<lparr>fws := s'\<rparr>)"
proof -
  have hd: "md_signature (slice 0 512 img) = md_signature img" "md_block_size (slice 0 512 img) = md_block_size img"
    "length (slice 0 512 img) = 512" "md_signature img = MAC_DRIVER_MAGIC"
    using assms(2) slice_slice [of 0 2 512 0 img] slice_slice [of 2 2 512 0 img]
    by (simp_all add: mac_map_def md_signature_def md_block_size_def be16_def numeral_2_eq_2)
  obtain s1 where "disk_read fw dev SECTOR_SIZE 0 w
      = (Inr (word_of_nat (length (slice 0 512 img)), slice 0 512 img), w\<lparr>fws := s1\<rparr>)"
    using disk_read_device [OF assms(1), of SECTOR_SIZE 0 w] by (auto simp: layout_defs)
  then have rd: "disk_read fw dev SECTOR_SIZE 0 w = (Inr (SECTOR_SIZE, slice 0 512 img), w\<lparr>fws := s1\<rparr>)"
    using hd(3) by (simp add: layout_defs)
  have "read_mac_partition fw dev part w
      = mac_loop fw dev part (ucast (md_block_size img)) 1 0 1 (budget w) (w\<lparr>fws := s1\<rparr>)"
    using rd hd by (simp add: read_mac_partition_def bnd_def)
  moreover obtain s2 where "mac_loop fw dev part (ucast (md_block_size img)) 1 0 1 (budget w) (w\<lparr>fws := s1\<rparr>)
    = (case find (\<lambda>i. mac_selects part (word_of_nat i) (mac_entry img i)) [1..<Suc m] of
         Some k \<Rightarrow> Inr (mac_extent (ucast (md_block_size img)) (mac_entry img k))
       | None \<Rightarrow> Inl (Err ERR_PART_NOT_FOUND), w\<lparr>fws := s1\<rparr>\<lparr>fws := s2\<rparr>)"
    using mac_loop_finds [OF assms(1,2), of 1 "budget w" 1 part "w\<lparr>fws := s1\<rparr>"] assms(3) by auto
  ultimately have "read_mac_partition fw dev part w
    = (case mac_find img m part of Some e \<Rightarrow> Inr e | None \<Rightarrow> Inl (Err ERR_PART_NOT_FOUND), w\<lparr>fws := s2\<rparr>)"
    using find_selected [of m part img] assms(2) by (simp add: mac_find_def mac_map_def mac_place_extent split: option.split)
  then show ?thesis by (intro exI)
qed

text \<open>
  Property C12: on a disk with a well-formed Macintosh partition map, asking for partition \<open>k\<close>
  finds the \<open>k\<close>-th entry of the map, asking for partition 0 finds the first entry that is
  bootable on this processor, and anything else is reported as not found; the search
  ends within one iteration an entry.
\<close>

theorem mac_partition_found:
  assumes "block_device fw dev img pos" and "mac_map img m" and "Suc m \<le> budget w"
  shows "\<exists>s'. read_mac_partition fw dev part w
    = (case mac_find img m part of Some e \<Rightarrow> Inr e | None \<Rightarrow> Inl (Err ERR_PART_NOT_FOUND), w\<lparr>fws := s'\<rparr>)"
  using assms by (rule read_mac_finds)

text \<open>A disk with two partitions, the second bootable on a PowerPC.\<close>

definition demo_ddm :: bytes where
  "demo_ddm = [0x45, 0x52, 2, 0] @ replicate 508 0"

definition demo_mp1 :: bytes where
  "demo_mp1 = [0x50, 0x4d, 0, 0, 0, 0, 0, 2, 0, 0, 0, 1, 0, 0, 0, 2] @ replicate 72 0 @ [0, 0, 0, 0]
     @ replicate 420 0"

definition demo_mp2 :: bytes where
  "demo_mp2 = [0x50, 0x4d, 0, 0, 0, 0, 0, 2, 0, 0, 0, 3, 0, 0, 0, 8] @ replicate 72 0 @ [0, 0, 0, 8]
     @ replicate 28 0 @ map byte ''PowerPC'' @ replicate 385 0"

definition demo_mac_disk :: bytes where
  "demo_mac_disk = demo_ddm @ demo_mp1 @ demo_mp2"

lemma demo_mac_lengths: "length demo_ddm = 512" "length demo_mp1 = 512" "length demo_mp2 = 512"
  by (simp_all add: demo_ddm_def demo_mp1_def demo_mp2_def)

lemma demo_mac_head: "md_signature demo_mac_disk = MAC_DRIVER_MAGIC" "md_block_size demo_mac_disk = 512"
  by (simp_all add: demo_mac_disk_def demo_ddm_def md_signature_def md_block_size_def be16_def slice_def
      be_nat_def MAC_DRIVER_MAGIC_def)

lemma demo_mac_entries: "mac_entry demo_mac_disk 1 = demo_mp1" "mac_entry demo_mac_disk 2 = demo_mp2"
  by (simp_all add: mac_entry_def demo_mac_head) (simp_all add: demo_mac_disk_def slice_def demo_mac_lengths)

lemma demo_mp1_fields: "mp_signature demo_mp1 = MAC_PARTITION_MAGIC" "mp_map_count demo_mp1 = 2" "mp_status demo_mp1 = 0"
  by (simp_all add: demo_mp1_def mp_signature_def mp_map_count_def mp_status_def be16_def be32_def slice_def
      be_nat_def MAC_PARTITION_MAGIC_def)

lemma demo_mp2_fields: "mp_signature demo_mp2 = MAC_PARTITION_MAGIC" "mp_status demo_mp2 = 8"
    "mp_start_block demo_mp2 = 3" "mp_block_count demo_mp2 = 8" "mp_processor demo_mp2 = ''PowerPC''"
  by (simp_all add: demo_mp2_def mp_signature_def mp_start_block_def mp_block_count_def mp_status_def mp_processor_def
      be16_def be32_def slice_def be_nat_def MAC_PARTITION_MAGIC_def cstr_def takeWhile_append)

theorem mac_partition_found_witness:
  "\<exists>s'. read_mac_partition (ram_disk demo_mac_disk) 7 0 (demo_machine 0)
     = (Inr (1536, 4096), (demo_machine 0)\<lparr>fws := s'\<rparr>)"
proof -
  have "{1..2} = {1, 2 :: nat}" by auto
  then have "mac_map demo_mac_disk 2"
    using demo_mac_head demo_mac_entries demo_mp1_fields demo_mp2_fields demo_mac_lengths
    by (simp add: mac_map_def) (simp add: demo_mac_disk_def)
  moreover have "mac_find demo_mac_disk 2 0 = Some (1536, 4096)"
    using demo_mac_entries demo_mac_entries(2) [unfolded numeral_2_eq_2]
    by (simp add: mac_find_def mac_bootable_def demo_mac_head demo_mp1_fields demo_mp2_fields mac_place_def
        fold_case_def tolower_def ccode_def upt_rec)
  ultimately show ?thesis
    using mac_partition_found [OF ram_disk_device, of demo_mac_disk 2 "demo_machine 0" 7 0]
    by (simp add: demo_machine_def)
qed

definition dos_disk :: "bytes \<Rightarrow> bool" where
  "dos_disk img \<longleftrightarrow> 512 \<le> length img \<and> img ! 0x1fe = 0x55 \<and> img ! 0x1ff = 0xaa"

definition dos_spec :: "bytes \<Rightarrow> nat \<Rightarrow> nat \<times> nat" where
  "dos_spec img off =
     (le_nat (slice (off + 8) 4 img) * 512 mod 2 ^ 32, le_nat (slice (off + 12) 4 img) * 512 mod 2 ^ 32)"

lemma le_word_sectors:
  assumes "off + 4 \<le> length bs"
  shows "unat (swab32 (be32 bs off) * SECTOR_SIZE) = le_nat (slice off 4 bs) * 512 mod 2 ^ 32"
proof -
  have "length (rev (slice off 4 bs)) = 4" using assms by simp
  then have "unat (le32 bs off) = le_nat (slice off 4 bs)"
    unfolding le32_def le_nat_def by (rule be_nat_word32)
  moreover have "unat (le32 bs off * SECTOR_SIZE) = unat (le32 bs off) * 512 mod 2 ^ 32"
    using unat_word_ariths(2) [of "le32 bs off" SECTOR_SIZE] by (simp add: layout_defs)
  ultimately show ?thesis unfolding swab32_be32 [OF assms] by simp
qed

lemma dos_extent_slice:
  assumes "off + 16 \<le> 512" and "512 \<le> length img"
  shows "dos_extent (slice 0 512 img) off = dos_extent img off"
    and "unat (fst (dos_extent img off)) = fst (dos_spec img off)"
    and "unat (snd (dos_extent img off)) = snd (dos_spec img off)"
  using assms slice_slice [of "off + 8" 4 512 0 img] slice_slice [of "off + 12" 4 512 0 img]
  by (simp_all add: dos_extent_def dos_spec_def be32_def [symmetric] le_word_sectors)
     (simp add: be32_def)

text \<open>
  Property C24: on a disk with a DOS boot sector, partitions 1 to 3 are found at the
  little-endian sector numbers of their table entries, with the byte position and length
  cut to 32 bits; partition 4 is refused, and partition 0 takes its entry from the
  sixteen bytes before the table.
\<close>

theorem dos_partition_found:
  assumes "block_device fw dev img pos" and "dos_disk img"
  shows "\<exists>r s'. read_dos_partition fw dev part w = (r, w\<lparr>fws := s'\<rparr>)
    \<and> (part \<ge> 4 \<longrightarrow> r = Inl (Err ERR_PART_NOT_FOUND))
    \<and> (part < 4 \<longrightarrow> (\<exists>st ln. r = Inr (st, ln)
          \<and> (unat st, unat ln) = dos_spec img (if part = 0 then 0x1ae else 0x1be + 16 * (unat part - 1))))"
proof -
  have l: "512 \<le> length img" and sig: "img ! 0x1fe = 0x55" "img ! 0x1ff = 0xaa"
    using assms(2) by (simp_all add: dos_disk_def)
  obtain s1 where "disk_read fw dev SECTOR_SIZE 0 w
      = (Inr (word_of_nat (length (slice 0 512 img)), slice 0 512 img), w\<lparr>fws := s1\<rparr>)"
    using disk_read_device [OF assms(1), of SECTOR_SIZE 0 w] by (auto simp: layout_defs)
  then have rd: "disk_read fw dev SECTOR_SIZE 0 w = (Inr (SECTOR_SIZE, slice 0 512 img), w\<lparr>fws := s1\<rparr>)"
    using l by (simp add: layout_defs)
  have b: "byte_at (slice 0 512 img) 0x1fe = 0x55" "byte_at (slice 0 512 img) 0x1ff = 0xaa"
    using l sig by (simp_all add: byte_at_def nth_slice)
  have e: "read_dos_partition fw dev part w =
      (if part \<ge> 4 then Inl (Err ERR_PART_NOT_FOUND) else Inr (dos_extent (slice 0 512 img) (dos_entry part)),
       w\<lparr>fws := s1\<rparr>)"
    using rd b by (simp add: read_dos_partition_def bnd_def ret_def throw_def)
  show ?thesis
  proof (cases "part \<ge> 4")
    case True
    with e show ?thesis by auto
  next
    case False
    let ?off = "if part = 0 then 0x1ae else 0x1be + 16 * (unat part - 1)"
    have "unat part < 4" using False by (simp add: word_le_nat_alt)
    then have "unat part = 0 \<or> unat part = 1 \<or> unat part = 2 \<or> unat part = 3" by linarith
    then have "part = 0 \<or> part = 1 \<or> part = 2 \<or> part = 3" by (simp add: word_unat_eq_iff)
    then have off: "dos_entry part = ?off" "?off + 16 \<le> 512" by (auto simp: dos_entry_def)
    obtain st ln where x: "dos_extent img ?off = (st, ln)" by fastforce
    then have "(unat st, unat ln) = dos_spec img ?off"
      using dos_extent_slice(2,3) [OF off(2) l] by (simp add: prod_eq_iff)
    moreover have "read_dos_partition fw dev part w = (Inr (st, ln), w\<lparr>fws := s1\<rparr>)"
      using e False off(1) x dos_extent_slice(1) [OF off(2) l] by simp
    ultimately show ?thesis using False by blast
  qed
qed

definition demo_dos_disk :: bytes where
  "demo_dos_disk = replicate 454 0 @ [0x3f, 0, 0, 0] @ [0, 8, 0, 0] @ replicate 48 0 @ [0x55, 0xaa]"

theorem dos_partition_found_witness:
  "\<exists>st ln. fst (read_dos_partition (ram_disk demo_dos_disk) 7 1 (demo_machine 0)) = Inr (st, ln)
     \<and> unat st = 63 * 512 \<and> unat ln = 2048 * 512"
proof -
  have "dos_disk demo_dos_disk" by (simp add: dos_disk_def demo_dos_disk_def nth_append)
  moreover have "dos_spec demo_dos_disk 0x1be = (63 * 512, 2048 * 512)"
    by (simp add: dos_spec_def demo_dos_disk_def slice_def le_nat_def be_nat_def)
  ultimately show ?thesis
    using dos_partition_found [OF ram_disk_device, of demo_dos_disk 7 1 "demo_machine 0"] by auto
qed

end
