(* ===== verification/Ext2fs.thy ===== *)
theory Ext2fs
  imports Part
begin

unbundle bit_operations_syntax

text \<open>
  The read-only ext2 file system of \<^verbatim>\<open>loader/ext2fs.c\<close>.  On-disk structures are the bytes read
  from the disk; a field is read at its offset, big-endian as the processor does, and then
  byte-swapped as the code does.  A node is a value that carries the address of its heap
  block.  The two one-block caches of indirect blocks are globals, as in the code.

  A read through the end of a short buffer gives 0 bits here; division by zero, which the
  processor leaves undefined, gives 0.
\<close>

section \<open>On-disk structures\<close>

definition cpu32 :: "bytes \<Rightarrow> nat \<Rightarrow> u32" where "cpu32 bs off = swab32 (be32 bs off)"
definition cpu16 :: "bytes \<Rightarrow> nat \<Rightarrow> u16" where "cpu16 bs off = swab16 (be16 bs off)"

text \<open>\<open>struct ext2_sblock\<close>, 204 bytes.\<close>

definition sizeof_sblock :: u32 where "sizeof_sblock = 204"
definition sb_first_data_block :: "bytes \<Rightarrow> u32" where "sb_first_data_block sb = cpu32 sb 20"
definition sb_log2_block_size :: "bytes \<Rightarrow> u32" where "sb_log2_block_size sb = cpu32 sb 24"
definition sb_inodes_per_group :: "bytes \<Rightarrow> u32" where "sb_inodes_per_group sb = cpu32 sb 40"
definition sb_magic :: "bytes \<Rightarrow> u16" where "sb_magic sb = cpu16 sb 56"
definition sb_inode_size :: "bytes \<Rightarrow> u16" where "sb_inode_size sb = cpu16 sb 88"

text \<open>\<open>struct ext2_block_group\<close>, 32 bytes.\<close>

definition sizeof_block_group :: u32 where "sizeof_block_group = 32"
definition bg_inode_table_id :: "bytes \<Rightarrow> u32" where "bg_inode_table_id bg = cpu32 bg 8"

text \<open>\<open>struct ext2_inode\<close>, 128 bytes.\<close>

definition sizeof_inode :: u32 where "sizeof_inode = 128"
definition i_mode :: "bytes \<Rightarrow> u16" where "i_mode ino = cpu16 ino 0"
definition i_size :: "bytes \<Rightarrow> u32" where "i_size ino = cpu32 ino 4"
definition i_dir_block :: "bytes \<Rightarrow> nat \<Rightarrow> u32" where "i_dir_block ino k = cpu32 ino (40 + 4 * k)"
definition i_indir_block :: "bytes \<Rightarrow> u32" where "i_indir_block ino = cpu32 ino 88"
definition i_double_indir_block :: "bytes \<Rightarrow> u32" where "i_double_indir_block ino = cpu32 ino 92"
definition i_symlink :: "bytes \<Rightarrow> bytes" where "i_symlink ino = slice 40 60 ino"

text \<open>\<open>struct ext2_dirent\<close>, 8 bytes.\<close>

definition sizeof_dirent :: u32 where "sizeof_dirent = 8"
definition d_inode :: "bytes \<Rightarrow> u32" where "d_inode d = cpu32 d 0"
definition d_direntlen :: "bytes \<Rightarrow> u16" where "d_direntlen d = cpu16 d 4"
definition d_namelen :: "bytes \<Rightarrow> u8" where "d_namelen d = byte_at d 6"
definition d_filetype :: "bytes \<Rightarrow> u8" where "d_filetype d = byte_at d 7"

text \<open>File types in directory entries, and in inode modes (octal 0170000, 0100000, 0040000, 0120000).\<close>

definition FILETYPE_UNKNOWN :: u8 where "FILETYPE_UNKNOWN = 0"
definition FILETYPE_REG :: u8 where "FILETYPE_REG = 1"
definition FILETYPE_DIRECTORY :: u8 where "FILETYPE_DIRECTORY = 2"
definition FILETYPE_SYMLINK :: u8 where "FILETYPE_SYMLINK = 7"
definition FILETYPE_INO_MASK :: u16 where "FILETYPE_INO_MASK = 0xF000"
definition FILETYPE_INO_REG :: u16 where "FILETYPE_INO_REG = 0x8000"
definition FILETYPE_INO_DIRECTORY :: u16 where "FILETYPE_INO_DIRECTORY = 0x4000"
definition FILETYPE_INO_SYMLINK :: u16 where "FILETYPE_INO_SYMLINK = 0xA000"

lemmas filetype_defs = FILETYPE_UNKNOWN_def FILETYPE_REG_def FILETYPE_DIRECTORY_def FILETYPE_SYMLINK_def

definition EXT2_MAGIC :: u16 where "EXT2_MAGIC = 0xEF53"
definition INDIRECT_BLOCKS :: u32 where "INDIRECT_BLOCKS = 12"

text \<open>The processor's shift: the amount counts modulo 64, and 32 or more gives 0.\<close>

definition slw :: "u32 \<Rightarrow> u32 \<Rightarrow> u32" where
  "slw w n = push_bit (unat n mod 64) w"

definition LOG2_EXT2_BLOCK_SIZE :: "bytes \<Rightarrow> u32" where
  "LOG2_EXT2_BLOCK_SIZE sb = sb_log2_block_size sb + 1"

definition LOG2_BLOCK_SIZE :: "bytes \<Rightarrow> u32" where
  "LOG2_BLOCK_SIZE sb = sb_log2_block_size sb + 10"

definition EXT2_BLOCK_SIZE :: "bytes \<Rightarrow> u32" where
  "EXT2_BLOCK_SIZE sb = slw 1 (LOG2_BLOCK_SIZE sb)"

section \<open>State\<close>

record ext2_data =
  ed_addr :: u32
  ed_sblock :: bytes

record ext2fs_node =
  nd_addr :: u32
  nd_data :: ext2_data
  nd_inode :: bytes
  nd_ino :: u32
  nd_read :: bool

text \<open>A block of block numbers: buffer address (0 is null), its size, the sector it was read from.\<close>

record icache =
  ic_addr :: u32
  ic_size :: u32
  ic_blkno :: u32
  ic_block :: bytes

definition icache_none :: icache where
  "icache_none = \<lparr>ic_addr = 0, ic_size = 0, ic_blkno = - 1, ic_block = []\<rparr>"

text \<open>\<open>fs_root\<close> is \<open>ext2fs_root\<close>, given as its node \<open>diropen\<close>.\<close>

record 's emachine = "'s pmachine" +
  fs_root :: "ext2fs_node option"
  fs_file :: "ext2fs_node option"
  symlinknest :: u32
  indir1 :: icache
  indir2 :: icache
  inode_size :: u32

type_synonym ('s, 'z, 'a) eprog = "(('s, 'z) emachine_scheme, stop, 'a) io"

definition sizeof_node :: u32 where "sizeof_node = 140"
definition sizeof_data :: u32 where "sizeof_data = 352"
definition offsetof_diropen :: u32 where "offsetof_diropen = 212"

section \<open>Inodes\<close>

definition ext2fs_blockgroup :: "'s firmware \<Rightarrow> bytes \<Rightarrow> u32 \<Rightarrow> ('s, 'z, bytes) eprog" where
  "ext2fs_blockgroup fw sb grp =
     (let desc_per_blk = EXT2_BLOCK_SIZE sb div sizeof_block_group;
          blkno = sb_first_data_block sb + 1 + grp div desc_per_blk;
          blkoff = (grp mod desc_per_blk) * sizeof_block_group
      in part_read fw (ucast (slw blkno (LOG2_EXT2_BLOCK_SIZE sb))) (ucast blkoff) sizeof_block_group)"

text \<open>The remainder of two \<open>int\<close>s.\<close>

definition srem :: "u32 \<Rightarrow> u32 \<Rightarrow> u32" where
  "srem a b = word_of_int (sint a - (sgn (sint a) * sgn (sint b) * (\<bar>sint a\<bar> div \<bar>sint b\<bar>)) * sint b)"

definition ext2fs_read_inode :: "'s firmware \<Rightarrow> bytes \<Rightarrow> u32 \<Rightarrow> ('s, 'z, bytes) eprog" where
  "ext2fs_read_inode fw sb ino0 =
     (let ino = ino0 - 1; ipg = sb_inodes_per_group sb in
      bnd (ext2fs_blockgroup fw sb (ino div ipg)) (\<lambda>blkgrp w.
        let inodes_per_block = EXT2_BLOCK_SIZE sb div inode_size w;
            blkno = bg_inode_table_id blkgrp + (ino mod ipg) div inodes_per_block;
            blkoff = srem ino inodes_per_block * inode_size w
        in part_read fw (ucast (slw blkno (LOG2_EXT2_BLOCK_SIZE sb))) (ucast blkoff) sizeof_inode w))"

definition root_addr :: "('s, 'z) emachine_scheme \<Rightarrow> u32" where
  "root_addr w = (case fs_root w of None \<Rightarrow> offsetof_diropen | Some n \<Rightarrow> nd_addr n)"

definition ext2fs_free_node :: "u32 \<Rightarrow> u32 \<Rightarrow> ('s, 'z, unit) eprog" where
  "ext2fs_free_node node currroot =
     (\<lambda>w. if node \<noteq> root_addr w \<and> node \<noteq> currroot then freeM node w else (Inr (), w))"

section \<open>Blocks of a file\<close>

text \<open>One of the two caches is chosen by its field and its update.\<close>

type_synonym ('s, 'z) slot =
  "(('s, 'z) emachine_scheme \<Rightarrow> icache) \<times> (icache \<Rightarrow> ('s, 'z) emachine_scheme \<Rightarrow> ('s, 'z) emachine_scheme)"

definition slot1 :: "('s, 'z) slot" where
  "slot1 = (indir1, \<lambda>c w. w\<lparr>indir1 := c\<rparr>)"

definition slot2 :: "('s, 'z) slot" where
  "slot2 = (indir2, \<lambda>c w. w\<lparr>indir2 := c\<rparr>)"

definition upd_slot :: "('s, 'z) slot \<Rightarrow> (icache \<Rightarrow> icache) \<Rightarrow> ('s, 'z, unit) eprog" where
  "upd_slot sl f = modify (\<lambda>w. snd sl (f (fst sl w)) w)"

text \<open>A buffer of the block size, allocated first, or again when the size has changed.\<close>

definition cache_alloc :: "('s, 'z) slot \<Rightarrow> u32 \<Rightarrow> ('s, 'z, unit) eprog" where
  "cache_alloc sl blksz =
     (\<lambda>w. bnd (if ic_addr (fst sl w) = 0 then
                 bnd (mallocM blksz) (\<lambda>p.
                   if p = 0 then throw (Err ERR_NO_MEM)
                   else upd_slot sl (\<lambda>c. c\<lparr>ic_addr := p, ic_size := blksz, ic_blkno := - 1\<rparr>))
               else ret ()) (\<lambda>_ w.
            if blksz \<noteq> ic_size (fst sl w) then
              bnd (freeM (ic_addr (fst sl w))) (\<lambda>_.
              bnd (upd_slot sl (\<lambda>c. c\<lparr>ic_addr := 0, ic_size := 0, ic_blkno := - 1\<rparr>)) (\<lambda>_.
              bnd (mallocM blksz) (\<lambda>p.
              bnd (upd_slot sl (\<lambda>c. c\<lparr>ic_addr := p\<rparr>)) (\<lambda>_.
                if p = 0 then throw (Err ERR_NO_MEM)
                else upd_slot sl (\<lambda>c. c\<lparr>ic_size := blksz\<rparr>))))) w
            else (Inr (), w)) w)"

text \<open>The block is read unless it is the one that is there; the buffer is overwritten even when that fails.\<close>

definition cache_fill :: "'s firmware \<Rightarrow> ('s, 'z) slot \<Rightarrow> u32 \<Rightarrow> u32 \<Rightarrow> ('s, 'z, unit) eprog" where
  "cache_fill fw sl blkno blksz =
     (\<lambda>w. if blkno \<noteq> ic_blkno (fst sl w) then
            bnd (part_read_into fw (ucast blkno) 0 blksz) (\<lambda>(e, data).
            bnd (upd_slot sl (\<lambda>c. c\<lparr>ic_block := data @ drop (length data) (ic_block c)\<rparr>)) (\<lambda>_.
              case e of
                Some err \<Rightarrow> throw (Err err)
              | None \<Rightarrow> upd_slot sl (\<lambda>c. c\<lparr>ic_blkno := blkno\<rparr>))) w
          else (Inr (), w))"

definition cache_entry :: "('s, 'z) slot \<Rightarrow> u32 \<Rightarrow> ('s, 'z, u32) eprog" where
  "cache_entry sl k = gets (\<lambda>w. cpu32 (ic_block (fst sl w)) (4 * unat k))"

definition ext2fs_read_block :: "'s firmware \<Rightarrow> ext2fs_node \<Rightarrow> u32 \<Rightarrow> ('s, 'z, u32) eprog" where
  "ext2fs_read_block fw node fileblock =
     (let sb = ed_sblock (nd_data node); inode = nd_inode node;
          blksz = EXT2_BLOCK_SIZE sb; log2_blksz = LOG2_EXT2_BLOCK_SIZE sb;
          perblock = word_of_int (trunc_div (sint blksz) 4) :: u32
      in if fileblock <s INDIRECT_BLOCKS then ret (i_dir_block inode (unat fileblock))
         else if fileblock <s INDIRECT_BLOCKS + perblock then
           bnd (cache_alloc slot1 blksz) (\<lambda>_.
           bnd (cache_fill fw slot1 (slw (i_indir_block inode) log2_blksz) blksz) (\<lambda>_.
           cache_entry slot1 (fileblock - INDIRECT_BLOCKS)))
         else if fileblock <s INDIRECT_BLOCKS + perblock * (perblock + 1) then
           (let rblock = fileblock - (INDIRECT_BLOCKS + perblock) in
            bnd (cache_alloc slot1 blksz) (\<lambda>_.
            bnd (cache_fill fw slot1 (slw (i_double_indir_block inode) log2_blksz) blksz) (\<lambda>_.
            bnd (cache_alloc slot2 blksz) (\<lambda>_.
            bnd (cache_entry slot1 (rblock div perblock)) (\<lambda>b2.
            bnd (cache_fill fw slot2 (slw b2 log2_blksz) blksz) (\<lambda>_.
            cache_entry slot2 (rblock mod perblock)))))))
         else throw (Err ERR_FS_CORRUPT))"

section \<open>Reading a file\<close>

text \<open>
  What is stored from the buffer on.  A hole is a run of zero bytes up to the end of its
  block, also where the request ends earlier.
\<close>

function read_blocks :: "'s firmware \<Rightarrow> ext2fs_node \<Rightarrow> u32 \<Rightarrow> u32 \<Rightarrow> u32 \<Rightarrow> u32 \<Rightarrow> ('s, 'z, bytes) eprog" where
  "read_blocks fw node pos len blockcnt i =
     (if i < blockcnt then
        (let sb = ed_sblock (nd_data node); log2blocksize = LOG2_EXT2_BLOCK_SIZE sb;
             blocksize = slw 1 (log2blocksize + 9);
             blockend =
               (if i = blockcnt - 1
                then (let e = (len + pos) mod blocksize in if e = 0 then blocksize else e) else blocksize);
             skipfirst = (if i = pos div blocksize then pos mod blocksize else 0)
         in bnd (spinner fw 5) (\<lambda>_.
            bnd (ext2fs_read_block fw node i) (\<lambda>b.
              let blknr = slw b log2blocksize in
              bnd (if blknr \<noteq> 0 then part_read fw (ucast blknr) (ucast skipfirst) (blockend - skipfirst)
                   else ret (replicate (unat (blocksize - skipfirst)) 0)) (\<lambda>chunk.
              bnd (read_blocks fw node pos len blockcnt (i + 1)) (\<lambda>rest. ret (chunk @ rest))))))
      else ret [])"
  by pat_completeness auto
termination
proof (relation "measure (\<lambda>(fw, node, pos, len, blockcnt, i). unat blockcnt - unat i)", goal_cases)
  case (2 fw node pos len blockcnt i)
  then have "unat i < unat blockcnt" by (simp add: word_less_nat_alt)
  then have "unat (i + 1) = unat i + 1" using unat_lt_u32 [of blockcnt] unat_plus_no_wrap [of i 1] by simp
  then show ?case using \<open>unat i < unat blockcnt\<close> by simp
qed simp

declare read_blocks.simps [simp del]

definition ext2fs_read_file :: "'s firmware \<Rightarrow> ext2fs_node \<Rightarrow> u32 \<Rightarrow> u32 \<Rightarrow> ('s, 'z, bytes) eprog" where
  "ext2fs_read_file fw node pos len0 =
     (let sb = ed_sblock (nd_data node); blocksize = slw 1 (LOG2_EXT2_BLOCK_SIZE sb + 9);
          len = min len0 (i_size (nd_inode node))
      in read_blocks fw node pos len ((len + pos + blocksize - 1) div blocksize) (pos div blocksize))"

end
