(* ===== verification/Ext2dir.thy ===== *)
theory Ext2dir
  imports Ext2fs
begin

unbundle bit_operations_syntax

text \<open>
  Directories, symbolic links and path lookup of \<^verbatim>\<open>loader/ext2fs.c\<close>, and the calls
  \<^verbatim>\<open>file.c\<close> makes of it.
\<close>

section \<open>Directories\<close>

definition dirent_type :: "u8 \<Rightarrow> u8" where
  "dirent_type t =
     (if t = FILETYPE_DIRECTORY then FILETYPE_DIRECTORY
      else if t = FILETYPE_SYMLINK then FILETYPE_SYMLINK
      else if t = FILETYPE_REG then FILETYPE_REG else FILETYPE_UNKNOWN)"

definition mode_type :: "u16 \<Rightarrow> u8" where
  "mode_type m =
     (if m AND FILETYPE_INO_MASK = FILETYPE_INO_DIRECTORY then FILETYPE_DIRECTORY
      else if m AND FILETYPE_INO_MASK = FILETYPE_INO_SYMLINK then FILETYPE_SYMLINK
      else if m AND FILETYPE_INO_MASK = FILETYPE_INO_REG then FILETYPE_REG else FILETYPE_UNKNOWN)"

definition type_label :: "u8 \<Rightarrow> string" where
  "type_label t =
     (if t = FILETYPE_DIRECTORY then ''<DIR> '' else if t = FILETYPE_SYMLINK then ''<SYM> ''
      else if t = FILETYPE_REG then ''      '' else ''< ? > '')"

text \<open>An inode read after the node was allocated: the node is freed if that fails.\<close>

definition read_or_free :: "'s firmware \<Rightarrow> bytes \<Rightarrow> u32 \<Rightarrow> u32 \<Rightarrow> ('s, 'z, bytes) eprog" where
  "read_or_free fw sb ino addr =
     bnd (catch (ext2fs_read_inode fw sb ino)) (\<lambda>r.
       case r of Inl e \<Rightarrow> bnd (freeM addr) (\<lambda>_. throw (Err e)) | Inr i \<Rightarrow> ret i)"

text \<open>One entry with a name: its file name, the node made for it and its type.\<close>

definition dir_entry ::
    "'s firmware \<Rightarrow> ext2fs_node \<Rightarrow> u32 \<Rightarrow> bytes \<Rightarrow> ('s, 'z, string \<times> ext2fs_node \<times> u8) eprog" where
  "dir_entry fw diro fpos dirent =
     (let sb = ed_sblock (nd_data diro) in
      bnd (ext2fs_read_file fw diro (fpos + sizeof_dirent) (ucast (d_namelen dirent))) (\<lambda>nm.
      bnd (mallocM sizeof_node) (\<lambda>p.
        if p = 0 then throw (Err ERR_NO_MEM)
        else
          (let filename = cstr (take (unat (d_namelen dirent)) nm);
               node = \<lparr>nd_addr = p, nd_data = nd_data diro, nd_inode = [], nd_ino = d_inode dirent, nd_read = False\<rparr>
           in if d_filetype dirent \<noteq> FILETYPE_UNKNOWN
              then ret (filename, node, dirent_type (d_filetype dirent))
              else
                bnd (read_or_free fw sb (d_inode dirent) p) (\<lambda>inode.
                ret (filename, node\<lparr>nd_inode := inode, nd_read := True\<rparr>, mode_type (i_mode inode)))))))"

text \<open>Without a name to look for, the entry is listed.\<close>

definition list_entry :: "'s firmware \<Rightarrow> string \<Rightarrow> ext2fs_node \<Rightarrow> u8 \<Rightarrow> ('s, 'z, unit) eprog" where
  "list_entry fw filename node t =
     bnd (if nd_read node then ret (nd_inode node)
          else read_or_free fw (ed_sblock (nd_data node)) (nd_ino node) (nd_addr node)) (\<lambda>inode.
     bnd (printk fw (type_label t) []) (\<lambda>_.
     printk fw (''%d %s'' @ [LF]) [Va_u (i_size inode), Va_s (Some filename)]))"

fun dir_loop :: "'s firmware \<Rightarrow> ext2fs_node \<Rightarrow> string option \<Rightarrow> u32 \<Rightarrow> nat \<Rightarrow> ('s, 'z, ext2fs_node \<times> u8) eprog" where
  "dir_loop fw diro name fpos 0 = throw Hang"
| "dir_loop fw diro name fpos (Suc n) =
     (if fpos < i_size (nd_inode diro) then
        bnd (ext2fs_read_file fw diro fpos sizeof_dirent) (\<lambda>dirent.
          let next_entry = dir_loop fw diro name (fpos + ucast (d_direntlen dirent)) n in
          if d_namelen dirent = 0 then next_entry
          else
            bnd (dir_entry fw diro fpos dirent) (\<lambda>(filename, node, t).
              case name of
                Some nm \<Rightarrow>
                  if strcmp filename nm = 0 then ret (node, t)
                  else bnd (freeM (nd_addr node)) (\<lambda>_. next_entry)
              | None \<Rightarrow>
                  bnd (list_entry fw filename node t) (\<lambda>_.
                  bnd (freeM (nd_addr node)) (\<lambda>_. next_entry))))
      else throw (Err ERR_FS_NOT_FOUND))"

definition ext2fs_iterate_dir ::
    "'s firmware \<Rightarrow> ext2fs_node \<Rightarrow> string option \<Rightarrow> ('s, 'z, ext2fs_node \<times> u8) eprog" where
  "ext2fs_iterate_dir fw dir name =
     bnd (if nd_read dir then ret dir
          else bnd (ext2fs_read_inode fw (ed_sblock (nd_data dir)) (nd_ino dir))
                 (\<lambda>i. ret (dir\<lparr>nd_inode := i\<rparr>))) (\<lambda>diro w.
     dir_loop fw diro name 0 (budget w) w)"

section \<open>Symbolic links\<close>

text \<open>The result is the address of the buffer and the target.\<close>

definition ext2fs_read_symlink :: "'s firmware \<Rightarrow> ext2fs_node \<Rightarrow> ('s, 'z, u32 \<times> string) eprog" where
  "ext2fs_read_symlink fw node =
     bnd (if nd_read node then ret node
          else bnd (ext2fs_read_inode fw (ed_sblock (nd_data node)) (nd_ino node))
                 (\<lambda>i. ret (node\<lparr>nd_inode := i\<rparr>))) (\<lambda>diro.
       let sz = i_size (nd_inode diro) in
       bnd (mallocM (sz + 1)) (\<lambda>p.
         if p = 0 then throw (Err ERR_NO_MEM)
         else if sz \<le> 60 then ret (p, cstr (take (unat sz) (i_symlink (nd_inode diro))))
         else
           bnd (catch (ext2fs_read_file fw diro 0 sz)) (\<lambda>r.
             case r of
               Inl e \<Rightarrow> bnd (freeM p) (\<lambda>_. throw (Err e))
             | Inr data \<Rightarrow> ret (p, cstr (take (unat sz) data)))))"

section \<open>Path lookup\<close>

definition path_head :: "string \<Rightarrow> string" where
  "path_head name = takeWhile (\<lambda>c. c \<noteq> CHR ''/'') name"

definition skip_slashes :: "string \<Rightarrow> string" where
  "skip_slashes s = dropWhile (\<lambda>c. c = CHR ''/'') s"

text \<open>What follows the component and its slashes; empty also where \<open>next\<close> is null.\<close>

definition path_tail :: "string \<Rightarrow> string" where
  "path_tail name = skip_slashes (dropWhile (\<lambda>c. c \<noteq> CHR ''/'') name)"

text \<open>
  A lookup gives the node found and, where the code stores it, its type: the empty path
  stores none.
\<close>

type_synonym ('s, 'z) lookup = "string \<Rightarrow> ext2fs_node \<Rightarrow> ('s, 'z, ext2fs_node \<times> u8 option) eprog"

text \<open>
  Following the link \<open>node\<close>, found in \<open>oldnode\<close>, by a further lookup: the node found, the type
  \<open>type\<close> ends with, and the node that \<open>oldnode\<close> ends as.
\<close>

definition max_symlinks :: u32 where
  "max_symlinks = 8"

definition follow_link ::
    "'s firmware \<Rightarrow> ('s, 'z) lookup \<Rightarrow> ext2fs_node \<Rightarrow> ext2fs_node \<Rightarrow> ext2fs_node
      \<Rightarrow> ('s, 'z, ext2fs_node \<times> u8 \<times> ext2fs_node) eprog" where
  "follow_link fw find_file1 currroot node oldnode =
     bnd (modify (\<lambda>w. w\<lparr>symlinknest := symlinknest w + 1\<rparr>)) (\<lambda>_ w.
       if symlinknest w = max_symlinks then
         bnd (ext2fs_free_node (nd_addr node) (nd_addr currroot)) (\<lambda>_.
         bnd (ext2fs_free_node (nd_addr oldnode) (nd_addr currroot)) (\<lambda>_.
         throw (Err ERR_FS_LOOP))) w
       else
         bnd (catch (ext2fs_read_symlink fw node)) (\<lambda>r.
         bnd (ext2fs_free_node (nd_addr node) (nd_addr currroot)) (\<lambda>_.
           case r of
             Inl e \<Rightarrow> bnd (ext2fs_free_node (nd_addr oldnode) (nd_addr currroot)) (\<lambda>_. throw (Err e))
           | Inr (addr, link) \<Rightarrow>
               bnd (if cnth link 0 = CHR ''/'' then
                      bnd (ext2fs_free_node (nd_addr oldnode) (nd_addr currroot)) (\<lambda>_.
                      gets (\<lambda>w. case fs_root w of Some rt \<Rightarrow> rt | None \<Rightarrow> oldnode))
                    else ret oldnode) (\<lambda>from.
               bnd (catch (find_file1 link from)) (\<lambda>r2.
               bnd (freeM addr) (\<lambda>_.
                 case r2 of
                   Inl e \<Rightarrow> bnd (ext2fs_free_node (nd_addr from) (nd_addr currroot))
                               (\<lambda>_. throw (Err ERR_FS_NOT_FOUND))
                 | Inr (found, t) \<Rightarrow>
                     ret (found, case t of Some ft \<Rightarrow> ft | None \<Rightarrow> FILETYPE_SYMLINK, from)))))) w)"

lemma path_tail_shorter: "path_tail name \<noteq> [] \<Longrightarrow> length (path_tail name) < length name"
proof -
  assume "path_tail name \<noteq> []"
  then have "dropWhile (\<lambda>c. c \<noteq> CHR ''/'') name \<noteq> []"
    by (metis dropWhile.simps(1) path_tail_def skip_slashes_def)
  then obtain c r where d: "dropWhile (\<lambda>c. c \<noteq> CHR ''/'') name = c # r"
    by (meson neq_Nil_conv)
  then have "c = CHR ''/''" using hd_dropWhile [of "\<lambda>c. c \<noteq> CHR ''/''" name] by simp
  then have "path_tail name = skip_slashes r" using d by (simp add: path_tail_def skip_slashes_def)
  moreover have "length (skip_slashes r) \<le> length r" by (simp add: skip_slashes_def length_dropWhile_le)
  moreover have "length (c # r) \<le> length name" using length_dropWhile_le [of "\<lambda>c. c \<noteq> CHR ''/''" name] d by simp
  ultimately show ?thesis by simp
qed

text \<open>The loop over the components of a path; \<open>name\<close> is what is left of it.\<close>

function walk_path ::
    "'s firmware \<Rightarrow> ('s, 'z) lookup \<Rightarrow> ext2fs_node \<Rightarrow> string \<Rightarrow> ext2fs_node \<Rightarrow> u8
      \<Rightarrow> ('s, 'z, ext2fs_node \<times> u8 option) eprog" where
  "walk_path fw find_file1 currroot name currnode type =
     (if type \<noteq> FILETYPE_DIRECTORY then
        bnd (ext2fs_free_node (nd_addr currnode) (nd_addr currroot)) (\<lambda>_. throw (Err ERR_FS_NOT_DIR))
      else
        bnd (ext2fs_iterate_dir fw currnode (Some (path_head name))) (\<lambda>(node, t).
        bnd (if t = FILETYPE_SYMLINK then follow_link fw find_file1 currroot node currnode
             else ret (node, t, currnode)) (\<lambda>(node2, t2, oldnode).
        bnd (ext2fs_free_node (nd_addr oldnode) (nd_addr currroot)) (\<lambda>_.
          if path_tail name = [] then ret (node2, Some t2)
          else walk_path fw find_file1 currroot (path_tail name) node2 t2))))"
  by pat_completeness auto

termination
proof (relation "measure (\<lambda>(fw, find_file1, currroot, name, currnode, type). length name)", goal_cases)
  case 1
  show ?case by simp
next
  case (2 fw find_file1 currroot name)
  then have "length (path_tail name) < length name" by (intro path_tail_shorter)
  then show ?case by simp
qed

declare walk_path.simps [simp del]

text \<open>
  \<open>ext2fs_find_file1\<close> calls itself for the target of a link.  The calls are counted: each one
  raises \<open>symlinknest\<close>, which may not reach 8, so a depth of 8 is never used up.
\<close>

fun find_file1 :: "'s firmware \<Rightarrow> nat \<Rightarrow> ('s, 'z) lookup" where
  "find_file1 fw 0 currpath currroot = throw Hang"
| "find_file1 fw (Suc d) currpath currroot =
     (if skip_slashes currpath = [] then ret (currroot, None)
      else walk_path fw (find_file1 fw d) currroot (skip_slashes currpath) currroot FILETYPE_DIRECTORY)"

definition ext2fs_find_file1 :: "'s firmware \<Rightarrow> ('s, 'z) lookup" where
  "ext2fs_find_file1 fw = find_file1 fw 8"

text \<open>The error, if any, and the node stored in \<open>*foundnode\<close>, which is also stored where the type is wrong.\<close>

definition ext2fs_find_file ::
    "'s firmware \<Rightarrow> string option \<Rightarrow> ext2fs_node \<Rightarrow> u8 \<Rightarrow> ('s, 'z, quik_err_t \<times> ext2fs_node option) eprog" where
  "ext2fs_find_file fw path rootnode expecttype =
     bnd (modify (\<lambda>w. w\<lparr>symlinknest := 0\<rparr>)) (\<lambda>_.
       case path of
         None \<Rightarrow> ret (ERR_FS_NOT_FOUND, None)
       | Some p \<Rightarrow>
           bnd (catch (ext2fs_find_file1 fw p rootnode)) (\<lambda>r.
             case r of
               Inl e \<Rightarrow> ret (e, None)
             | Inr (node, t) \<Rightarrow>
                 (let foundtype = (case t of None \<Rightarrow> FILETYPE_DIRECTORY | Some ft \<Rightarrow> ft) in
                  ret (if expecttype = FILETYPE_REG \<and> foundtype \<noteq> expecttype then ERR_FS_NOT_REG
                       else if expecttype = FILETYPE_DIRECTORY \<and> foundtype \<noteq> expecttype then ERR_FS_NOT_DIR
                       else ERR_NONE, Some node))))"

section \<open>Interface\<close>

definition ext2fs_ls :: "'s firmware \<Rightarrow> string option \<Rightarrow> ('s, 'z, unit) eprog" where
  "ext2fs_ls fw dirname =
     (\<lambda>w. case fs_root w of
        None \<Rightarrow> (Inl (Err ERR_FS_NOT_FOUND), w)
      | Some rt \<Rightarrow>
          bnd (ext2fs_find_file fw dirname rt FILETYPE_DIRECTORY) (\<lambda>(e, dirnode).
            if e \<noteq> ERR_NONE then throw (Err e)
            else
              (case dirnode of
                 None \<Rightarrow> ret ()
               | Some n \<Rightarrow>
                   bnd (catch (ext2fs_iterate_dir fw n None)) (\<lambda>_.
                   ext2fs_free_node (nd_addr n) (nd_addr rt)))) w)"

text \<open>The result is the length of the file.\<close>

definition ext2fs_open :: "'s firmware \<Rightarrow> string option \<Rightarrow> ('s, 'z, u32) eprog" where
  "ext2fs_open fw filename =
     (\<lambda>w. case fs_root w of
        None \<Rightarrow> (Inl (Err ERR_FS_NOT_FOUND), w)
      | Some rt \<Rightarrow>
          bnd (modify (\<lambda>w. w\<lparr>fs_file := None\<rparr>)) (\<lambda>_.
          bnd (ext2fs_find_file fw filename rt FILETYPE_REG) (\<lambda>(e, fdiro).
            let addr = (case fdiro of None \<Rightarrow> 0 | Some n \<Rightarrow> nd_addr n);
                fail = (\<lambda>e. bnd (ext2fs_free_node addr (nd_addr rt)) (\<lambda>_. throw (Err e))) in
            case fdiro of
              None \<Rightarrow> fail e
            | Some n \<Rightarrow>
                if e \<noteq> ERR_NONE then fail e
                else
                  bnd (if nd_read n then ret (Inr (nd_inode n))
                       else catch (ext2fs_read_inode fw (ed_sblock (nd_data n)) (nd_ino n))) (\<lambda>r.
                    case r of
                      Inl e2 \<Rightarrow> fail e2
                    | Inr inode \<Rightarrow>
                        bnd (modify (\<lambda>w. w\<lparr>fs_file := Some (n\<lparr>nd_inode := inode\<rparr>)\<rparr>)) (\<lambda>_.
                        ret (i_size inode))))) w)"

definition cache_drop :: "('s, 'z) slot \<Rightarrow> ('s, 'z, unit) eprog" where
  "cache_drop sl =
     (\<lambda>w. if ic_addr (fst sl w) \<noteq> 0 then
            bnd (freeM (ic_addr (fst sl w))) (\<lambda>_.
            upd_slot sl (\<lambda>c. c\<lparr>ic_addr := 0, ic_size := 0, ic_blkno := - 1\<rparr>)) w
          else (Inr (), w))"

definition ext2fs_close :: "('s, 'z, unit) eprog" where
  "ext2fs_close =
     bnd (\<lambda>w. case (fs_file w, fs_root w) of
                 (Some f, Some rt) \<Rightarrow>
                   bnd (ext2fs_free_node (nd_addr f) (nd_addr rt)) (\<lambda>_. modify (\<lambda>w. w\<lparr>fs_file := None\<rparr>)) w
               | _ \<Rightarrow> (Inr (), w)) (\<lambda>_.
     bnd (\<lambda>w. case fs_root w of
                 Some rt \<Rightarrow> bnd (freeM (ed_addr (nd_data rt))) (\<lambda>_. modify (\<lambda>w. w\<lparr>fs_root := None\<rparr>)) w
               | None \<Rightarrow> (Inr (), w)) (\<lambda>_.
     bnd (cache_drop slot1) (\<lambda>_. cache_drop slot2)))"

definition ext2fs_read :: "'s firmware \<Rightarrow> u32 \<Rightarrow> ('s, 'z, bytes) eprog" where
  "ext2fs_read fw len =
     (\<lambda>w. case (fs_root w, fs_file w) of
        (Some rt, Some f) \<Rightarrow> ext2fs_read_file fw f 0 len w
      | _ \<Rightarrow> (Inl (Err ERR_FS_NOT_FOUND), w))"

definition mount_fail :: "u32 \<Rightarrow> quik_err_t \<Rightarrow> ('s, 'z, unit) eprog" where
  "mount_fail data e =
     bnd (freeM data) (\<lambda>_. bnd (modify (\<lambda>w. w\<lparr>fs_root := None\<rparr>)) (\<lambda>_. throw (Err e)))"

text \<open>The revision test swaps the bytes of a truth value.\<close>

definition superblock_inode_size :: "bytes \<Rightarrow> u32" where
  "superblock_inode_size sb =
     (if swab32 (if be32 sb 76 = 0 then 1 else 0) \<noteq> 0 then 128 else ucast (sb_inode_size sb))"

definition ext2fs_mount :: "'s firmware \<Rightarrow> ('s, 'z, unit) eprog" where
  "ext2fs_mount fw =
     bnd (mallocM sizeof_data) (\<lambda>data.
       if data = 0 then throw (Err ERR_NO_MEM)
       else
         bnd (catch (part_read fw 2 0 sizeof_sblock)) (\<lambda>r.
           case r of
             Inl e \<Rightarrow> mount_fail data e
           | Inr sb \<Rightarrow>
               if sb_magic sb \<noteq> EXT2_MAGIC then mount_fail data ERR_FS_NOT_EXT2
               else
                 bnd (modify (\<lambda>w. w\<lparr>inode_size := superblock_inode_size sb\<rparr>)) (\<lambda>_.
                 bnd (catch (ext2fs_read_inode fw sb 2)) (\<lambda>r2.
                   case r2 of
                     Inl e \<Rightarrow> mount_fail data e
                   | Inr inode \<Rightarrow>
                       modify (\<lambda>w. w\<lparr>fs_root := Some
                         \<lparr>nd_addr = data + offsetof_diropen,
                          nd_data = \<lparr>ed_addr = data, ed_sblock = sb\<rparr>,
                          nd_inode = inode, nd_ino = 2, nd_read = True\<rparr>\<rparr>)))))"

end
