(* ===== verification/Env.thy ===== *)
theory Env
  imports Prom_Init
begin

unbundle bit_operations_syntax

text \<open>
  The operating environment of \<^verbatim>\<open>loader/env.c\<close>: devices with a partition, and the default
  device, configuration file and boot arguments that the firmware's boot arguments and
  boot file give at start-up.
\<close>

section \<open>Devices\<close>

definition env_dev_set_part :: "env_dev_t \<Rightarrow> u32 \<Rightarrow> env_dev_t" where
  "env_dev_set_part dp p = dp\<lparr>dev_part := p, dev_part_valid := True\<rparr>"

definition env_dev_is_valid :: "env_dev_t \<Rightarrow> quik_err_t" where
  "env_dev_is_valid dp =
     (if dev_device dp = None \<or> \<not> dev_part_valid dp then ERR_ENV_CURRENT_BAD else ERR_NONE)"

text \<open>The result is the new value of \<open>*cur_dev\<close>.\<close>

definition env_dev_update_from_default :: "env_dev_t \<Rightarrow> ('s, 'z, env_dev_t) prog" where
  "env_dev_update_from_default cur_dev =
     (\<lambda>w. if env_dev_is_valid (bi_default_dev (bi w)) \<noteq> ERR_NONE
          then (Inl (Err ERR_ENV_DEFAULT_BAD), w)
          else (Inr (bi_default_dev (bi w)), w))"

section \<open>Start-up\<close>

definition ENV_SZ :: u32 where "ENV_SZ = 512"

definition modify_bi :: "(boot_info_t \<Rightarrow> boot_info_t) \<Rightarrow> ('s, 'z, unit) prog" where
  "modify_bi f = modify (\<lambda>w. w\<lparr>bi := f (bi w)\<rparr>)"

definition set_device :: "string option \<Rightarrow> boot_info_t \<Rightarrow> boot_info_t" where
  "set_device d b = b\<lparr>bi_default_dev := (bi_default_dev b)\<lparr>dev_device := d\<rparr>\<rparr>"

text \<open>The part after the device is chosen: a colon introduces partition and configuration file.\<close>

definition env_split :: "string \<Rightarrow> boot_info_t \<Rightarrow> boot_info_t" where
  "env_split device b =
     (case strchr device CHR '':'' of
        None \<Rightarrow> set_device (Some device) b
      | Some p \<Rightarrow>
          (let rest = tl p;
               b1 = b\<lparr>bi_default_dev :=
                      env_dev_set_part
                        ((bi_default_dev b)\<lparr>dev_device := Some (takeWhile (\<lambda>c. c \<noteq> CHR '':'') device)\<rparr>)
                        (fst (strtol rest 0))\<rparr>
           in b1\<lparr>bi_config_file :=
                Some (case strchr rest CHR ''/'' of Some q \<Rightarrow> q | None \<Rightarrow> ''/etc/quik.conf'')\<rparr>))"

definition env_choose :: "string \<Rightarrow> string \<Rightarrow> ('s, 'z, unit) prog" where
  "env_choose bootargs_buf bootfile_buf =
     (\<lambda>w. let preboot = flag_set (bi_flags (bi w)) WITH_PREBOOT in
        case word_split (Some (if preboot then bootfile_buf else bootargs_buf)) of
          (dev, params) \<Rightarrow>
            bnd (modify_bi (\<lambda>b. set_device dev (b\<lparr>bi_bootargs := Some params\<rparr>))) (\<lambda>_.
              case dev of
                None \<Rightarrow>
                  if preboot then throw (Err ERR_ENV_PREBOOT_BAD)
                  else modify_bi (env_split (chomp bootfile_buf))
              | Some d \<Rightarrow>
                  if memcmp_prefix d ''--'' then
                    (if preboot then throw (Err ERR_ENV_PREBOOT_BAD)
                     else modify_bi (env_split (chomp bootfile_buf)))
                  else modify_bi (env_split d)) w)"

definition env_init :: "'s firmware \<Rightarrow> ('s, 'z, unit) prog" where
  "env_init fw =
     bnd (mallocM ENV_SZ) (\<lambda>a.
     bnd (mallocM ENV_SZ) (\<lambda>f.
       if a = 0 \<or> f = 0 then throw (Err ERR_NO_MEM)
       else
         bnd (prom_get_chosen fw ''bootargs'' ENV_SZ) (\<lambda>bootargs_buf.
         bnd (prom_get_options fw ''boot-file'' ENV_SZ) (\<lambda>bootfile_buf.
         bnd (modify_bi (\<lambda>b. b\<lparr>bi_of_bootargs_buf := Some bootargs_buf, bi_of_bootfile_buf := Some bootfile_buf\<rparr>)) (\<lambda>_.
         bnd (printk fw (''/chosen/bootargs = '' @ [CHR 0x27] @ ''%s'' @ [CHR 0x27, LF]) [Va_s (Some bootargs_buf)]) (\<lambda>_.
         bnd (printk fw (''       boot-file = '' @ [CHR 0x27] @ ''%s'' @ [CHR 0x27, LF]) [Va_s (Some bootfile_buf)]) (\<lambda>_.
         env_choose bootargs_buf bootfile_buf)))))))"

section \<open>Properties\<close>

text \<open>
  Property C33: boot arguments of the form \<open>device:partition/path arguments\<close>, given without a
  preboot script, make the device and its partition the default ones, the path the
  configuration file, and the rest the boot arguments.
\<close>

theorem env_boot_path:
  assumes "\<not> flag_set (bi_flags (bi w)) WITH_PREBOOT"
    and "d \<noteq> []" and "take 2 d \<noteq> ''--''" and "CHR '':'' \<notin> set d"
    and "CHR '' '' \<notin> set (d @ p @ path)" and "CHR ''/'' \<notin> set p" and "path \<noteq> []" and "hd path = CHR ''/''"
    and "opts = [] \<or> hd opts = CHR '' ''"
  shows "\<exists>w'. env_choose (replicate n CHR '' '' @ d @ '':'' @ p @ path @ opts) file w = (Inr (), w')
    \<and> dev_device (bi_default_dev (bi w')) = Some d
    \<and> dev_part (bi_default_dev (bi w')) = fst (strtol (p @ path) 0)
    \<and> env_dev_is_valid (bi_default_dev (bi w')) = ERR_NONE
    \<and> bi_config_file (bi w') = Some path \<and> bi_bootargs (bi w') = Some (chomp opts)"
proof -
  let ?word = "d @ '':'' @ p @ path"
  have "word_split (Some (replicate n CHR '' '' @ ?word @ opts)) = (Some ?word, chomp opts)"
    using assms(2,5,9) by (intro word_split_word) auto
  then have ws: "word_split (Some (replicate n CHR '' '' @ d @ '':'' @ p @ path @ opts)) = (Some ?word, chomp opts)"
    by simp
  have "take 2 ?word \<noteq> ''--''"
    using assms(2,3,4) by (cases d; cases "tl d") auto
  then have m: "\<not> memcmp_prefix ?word ''--''" by (simp add: memcmp_prefix_def numeral_2_eq_2)
  have c: "strchr ?word CHR '':'' = Some ('':'' @ p @ path)"
    using assms(4) by (subst strchr_Some_iff) auto
  have t: "takeWhile (\<lambda>c. c \<noteq> CHR '':'') ?word = d"
    using assms(4) by (auto simp: takeWhile_append)
  have s: "strchr (p @ path) CHR ''/'' = Some path"
    using assms(6-8) by (subst strchr_Some_iff) auto
  show ?thesis
    using assms(1) ws m c t s
    by (simp add: env_choose_def modify_bi_def modify_def bnd_def set_device_def env_split_def Let_def
        env_dev_set_part_def env_dev_is_valid_def)
qed

theorem env_boot_path_witness:
  "\<exists>w'. env_choose ''scsi/sd@0:3/quik.conf -s'' [] (demo_machine 0) = (Inr (), w')
     \<and> dev_part (bi_default_dev (bi w')) = 3 \<and> bi_config_file (bi w') = Some ''/quik.conf''
     \<and> bi_bootargs (bi w') = Some ''-s''"
proof -
  have v: "fst (strtol ''3/quik.conf'' 0) = 3"
    by (simp add: strtol_def is_space_def digit_val_def ccode_def Let_def)
  show ?thesis
    using env_boot_path [of "demo_machine 0" "''scsi/sd@0''" "''3''" "''/quik.conf''" "'' -s''" 0 "[]"] v
    by (auto simp: demo_machine_def bi_zero_def flag_set_def flag_defs)
qed

end
