(* ===== verification/File.thy ===== *)
theory File
  imports Ext2dir Env
begin

unbundle bit_operations_syntax

text \<open>
  File paths and whole-file access (\<^verbatim>\<open>loader/file.c\<close>): a path specification is parsed
  against a default device, the partition is opened and mounted, and a file is measured,
  loaded to an address or listed.  A path is its heap address and its value.  What a
  failed load stored before it failed is not kept.
\<close>

section \<open>Opening a volume\<close>

text \<open>\<open>ext2fs_close\<close> is called only if the partition was flagged as mounted before.\<close>

definition open_ext2 :: "'s firmware \<Rightarrow> string \<Rightarrow> u32 \<Rightarrow> ('s, 'z, unit) eprog" where
  "open_ext2 fw device partno =
     (\<lambda>w. let old_was_mounted = flag_set (p_flags (the_part w)) PART_MOUNTED in
        bnd (part_open fw device partno) (\<lambda>_ w.
          if flag_set (p_flags (the_part w)) PART_MOUNTED then (Inr (), w)
          else bnd (if old_was_mounted then ext2fs_close else ret ()) (\<lambda>_. ext2fs_mount fw) w) w)"

text \<open>A null string is read at address 0.\<close>

definition or_null :: "string option \<Rightarrow> ('s, 'z) machine_scheme \<Rightarrow> string" where
  "or_null s w = (case s of Some x \<Rightarrow> x | None \<Rightarrow> jk_nulstr (junk w))"

definition open_path :: "'s firmware \<Rightarrow> path_t \<Rightarrow> ('s, 'z, unit) eprog" where
  "open_path fw p = (\<lambda>w. open_ext2 fw (or_null (pt_device p) w) (pt_part p) w)"

definition file_len :: "'s firmware \<Rightarrow> path_t \<Rightarrow> ('s, 'z, length_t) eprog" where
  "file_len fw p = bnd (open_path fw p) (\<lambda>_. ext2fs_open fw (pt_path p))"

definition poke_bytes :: "u32 \<Rightarrow> bytes \<Rightarrow> ('s, 'z, unit) prog" where
  "poke_bytes a bs =
     modify (\<lambda>w. w\<lparr>mem := (mem w)\<lparr>ram := (\<lambda>x. if unat (x - a) < length bs then bs ! unat (x - a) else ram (mem w) x)\<rparr>\<rparr>)"

text \<open>The bytes are stored at \<open>buffer\<close>; they are the result too.\<close>

definition file_load :: "'s firmware \<Rightarrow> path_t \<Rightarrow> u32 \<Rightarrow> ('s, 'z, bytes) eprog" where
  "file_load fw p buffer =
     bnd (open_path fw p) (\<lambda>_.
     bnd (ext2fs_open fw (pt_path p)) (\<lambda>sz.
     bnd (ext2fs_read fw sz) (\<lambda>data.
     bnd (poke_bytes buffer data) (\<lambda>_. ret data))))"

definition file_ls :: "'s firmware \<Rightarrow> path_t \<Rightarrow> ('s, 'z, unit) eprog" where
  "file_ls fw p = bnd (open_path fw p) (\<lambda>_. ext2fs_ls fw (pt_path p))"

section \<open>Path specifications\<close>

definition sizeof_path :: u32 where "sizeof_path = 12"

text \<open>The last test: a path is absolute, and the empty one is the root.\<close>

definition fix_path :: "string \<Rightarrow> string option" where
  "fix_path p = (if cnth p 0 = CHR ''/'' then Some p else if p = [] then Some ''/'' else None)"

text \<open>The parse itself: device, partition and path, or the error, and whether the block is freed.\<close>

definition parse_path :: "string \<Rightarrow> env_dev_t \<Rightarrow> (quik_err_t \<times> bool) + path_t" where
  "parse_path pathspec dev =
     (let finish = (\<lambda>d n p. case fix_path p of
                      None \<Rightarrow> Inl (ERR_FS_PATH, True)
                    | Some q \<Rightarrow> Inr \<lparr>pt_device = d, pt_part = n, pt_path = Some q\<rparr>)
      in case strchr pathspec CHR '':'' of
           None \<Rightarrow>
             if env_dev_is_valid dev \<noteq> ERR_NONE then Inl (env_dev_is_valid dev, False)
             else finish (dev_device dev) (dev_part dev) pathspec
         | Some colon \<Rightarrow>
             (let device = takeWhile (\<lambda>c. c \<noteq> CHR '':'') pathspec; path = tl colon in
              if length device = 0 then Inl (ERR_FS_PATH, True)
              else
                (case strtol path 0 of (n, endp) \<Rightarrow>
                   if endp = path then Inl (ERR_FS_PATH, True) else finish (Some device) n endp)))"

definition file_path :: "string \<Rightarrow> env_dev_t \<Rightarrow> ('s, 'z, u32 \<times> path_t) prog" where
  "file_path pathspec default_dev =
     bnd (mallocM (word_of_nat (length pathspec + 1) + sizeof_path)) (\<lambda>p.
       if p = 0 then throw (Err ERR_NO_MEM)
       else
         (case parse_path (chomp pathspec) default_dev of
            Inl (e, freed) \<Rightarrow> bnd (if freed then freeM p else ret ()) (\<lambda>_. throw (Err e))
          | Inr pt \<Rightarrow> ret (p, pt)))"

section \<open>Commands\<close>

definition file_cmd_dev :: "string \<Rightarrow> ('s, 'z, unit) prog" where
  "file_cmd_dev p =
     (if length p = 0 then throw (Err ERR_CMD_BAD_PARAM)
      else
        (\<lambda>w. bnd (file_path p (bi_default_dev (bi w))) (\<lambda>(a, pt).
           bnd (modify_bi (\<lambda>b. b\<lparr>bi_default_dev :=
             env_dev_set_part ((bi_default_dev b)\<lparr>dev_device := pt_device pt\<rparr>) (pt_part pt)\<rparr>)) (\<lambda>_ w.
             if env_dev_is_valid (bi_default_dev (bi w)) \<noteq> ERR_NONE
             then (Inl (Err (env_dev_is_valid (bi_default_dev (bi w)))), w) else (Inr (), w))) w))"

text \<open>A path against the default device, whose absence is reported as the default being bad.\<close>

definition default_path :: "string \<Rightarrow> ('s, 'z, u32 \<times> path_t) prog" where
  "default_path p =
     (\<lambda>w. bnd (catch (file_path p (bi_default_dev (bi w)))) (\<lambda>r.
        case r of
          Inl e \<Rightarrow> throw (Err (if e = ERR_ENV_CURRENT_BAD then ERR_ENV_DEFAULT_BAD else e))
        | Inr x \<Rightarrow> ret x) w)"

text \<open>
  The terminating NUL is stored one past the block.  If the block cannot be had the command
  returns the \<open>ERR_NONE\<close> of the call before.
\<close>

definition file_cmd_cat :: "'s firmware \<Rightarrow> string \<Rightarrow> ('s, 'z, unit) eprog" where
  "file_cmd_cat fw p =
     (if length p = 0 then throw (Err ERR_CMD_BAD_PARAM)
      else
        bnd (default_path p) (\<lambda>(a, pt).
        bnd (catch (file_len fw pt)) (\<lambda>r.
          case r of
            Inl e \<Rightarrow> bnd (freeM a) (\<lambda>_. throw (Err e))
          | Inr len \<Rightarrow>
              bnd (mallocM len) (\<lambda>message.
                if message = 0 then freeM a
                else
                  bnd (catch (file_load fw pt message)) (\<lambda>r2.
                  bnd (case r2 of
                         Inl e \<Rightarrow> ret ()
                       | Inr data \<Rightarrow>
                           bnd (poke_bytes (message + len) [0]) (\<lambda>_.
                           printk fw ''%s'' [Va_s (Some (cstr (take (unat len) data)))])) (\<lambda>_.
                  bnd (freeM message) (\<lambda>_.
                  bnd (freeM a) (\<lambda>_.
                    case r2 of Inl e \<Rightarrow> throw (Err e) | Inr data \<Rightarrow> ret ()))))))))"

definition file_cmd_ls :: "'s firmware \<Rightarrow> string \<Rightarrow> ('s, 'z, unit) eprog" where
  "file_cmd_ls fw as =
     bnd (default_path (if length as = 0 then ''/'' else as)) (\<lambda>(a, pt).
     bnd (printk fw (''Listing '' @ [CHR 0x27] @ ''%P'' @ [CHR 0x27, LF]) [Va_P (Some pt)]) (\<lambda>_.
     bnd (catch (file_ls fw pt)) (\<lambda>r.
     bnd (freeM a) (\<lambda>_. case r of Inl e \<Rightarrow> throw (Err e) | Inr x \<Rightarrow> ret ()))))"

end
