(* ===== verification/Memtest.thy ===== *)
theory Memtest
  imports Prom_Init
begin

unbundle bit_operations_syntax

text \<open>
  The memory test (\<^verbatim>\<open>loader/memtest.c\<close>).  What a word of memory reads back as is up to the
  hardware: \<open>peek\<close> is that read, a parameter, which on sound memory is \<open>load32\<close>.
\<close>

type_synonym hardware = "ram \<Rightarrow> u32 \<Rightarrow> u32"

definition poke32 :: "u32 \<Rightarrow> u32 \<Rightarrow> ('s, 'z, unit) prog" where
  "poke32 a v = modify (\<lambda>w. w\<lparr>mem := (mem w)\<lparr>ram := store32 a v (ram (mem w))\<rparr>\<rparr>)"

fun write_words :: "'s firmware \<Rightarrow> u32 \<Rightarrow> u32 \<Rightarrow> nat \<Rightarrow> ('s, 'z, unit) prog" where
  "write_words fw buf_end p 0 = throw Hang"
| "write_words fw buf_end p (Suc n) =
     (if p < buf_end then
        bnd (whenM (p mod SIZE_1M = 0) (printk fw (''Writing 0x%x...'' @ [LF]) [Va_u p])) (\<lambda>_.
        bnd (poke32 p p) (\<lambda>_. write_words fw buf_end (p + 4) n))
      else ret ())"

fun read_words :: "'s firmware \<Rightarrow> hardware \<Rightarrow> u32 \<Rightarrow> u32 \<Rightarrow> nat \<Rightarrow> ('s, 'z, unit) prog" where
  "read_words fw peek buf_end p 0 = throw Hang"
| "read_words fw peek buf_end p (Suc n) =
     (if p < buf_end then
        bnd (whenM (p mod SIZE_1M = 0) (printk fw (''Reading 0x%x...'' @ [LF]) [Va_u p])) (\<lambda>_.
        bnd (\<lambda>w. whenM (peek (ram (mem w)) p \<noteq> p)
               (printk fw (''bad address 0x%x, got 0x%x'' @ [LF]) [Va_u p, Va_u (peek (ram (mem w)) p)]) w) (\<lambda>_.
        read_words fw peek buf_end (p + 4) n))
      else ret ())"

definition memtest :: "'s firmware \<Rightarrow> hardware \<Rightarrow> string \<Rightarrow> ('s, 'z, unit) prog" where
  "memtest fw peek as =
     bnd (printk fw (''memtest args: '' @ [CHR 0x27] @ ''%s'' @ [CHR 0x27, LF]) [Va_s (Some as)]) (\<lambda>_.
     case strtol as 0 of (base0, p1) \<Rightarrow>
       if p1 = as then throw (Err ERR_CMD_BAD_PARAM)
       else
         (case strtol p1 0 of (size0, p2) \<Rightarrow>
            if p2 = p1 then throw (Err ERR_CMD_BAD_PARAM)
            else
              (let base = ALIGN_UP base0 SIZE_1M; sz = ALIGN_UP size0 SIZE_1M in
               bnd (printk fw (''mem test range 0x%x-0x%x'' @ [LF]) [Va_u base, Va_u (base + sz)]) (\<lambda>_.
               bnd (prom_claim fw base sz) (\<lambda>buf.
                 if buf = - 1 then throw (Err ERR_NO_MEM)
                 else
                   bnd (\<lambda>w. write_words fw (buf + sz) buf (budget w) w) (\<lambda>_.
                   bnd (\<lambda>w. read_words fw peek (buf + sz) buf (budget w) w) (\<lambda>_.
                   prom_release fw buf sz)))))))"

end
