(* ===== verification/Commands.thy ===== *)
theory Commands
  imports File Memtest Cfg
begin

unbundle bit_operations_syntax

text \<open>
  The interactive commands (\<^verbatim>\<open>loader/commands.c\<close> and the commands of \<^verbatim>\<open>loader/main.c\<close>): the table,
  the dispatcher, help, and the line editor.
\<close>

section \<open>State\<close>

text \<open>
  The loader's whole state: the parsed configuration, the command line buffer and the
  buffer \<open>make_params\<close> keeps.
\<close>

record 's lmachine = "'s emachine" +
  conf :: cfg
  cbuff :: u32
  params_buf :: u32

type_synonym ('s, 'z, 'a) lprog = "(('s, 'z) lmachine_scheme, stop, 'a) io"

section \<open>The command table\<close>

text \<open>
  The linker collects the \<open>COMMAND\<close> entries of all files; here they stand in the order of
  the object files.  A command's function is named by a constructor.
\<close>

datatype cmd_fn =
    Cmd_debug | Cmd_old_kernel | Cmd_halt | Cmd_of_interp | File_cmd_dev | File_cmd_cat | File_cmd_ls
  | Cmd_prom_flags | Cmd_help | Memtest

record command_t =
  c_name :: string
  c_fn :: cmd_fn
  c_desc :: string

definition command :: "string \<Rightarrow> cmd_fn \<Rightarrow> string \<Rightarrow> command_t" where
  "command n f d = \<lparr>c_name = CHR ''!'' # n, c_fn = f, c_desc = d\<rparr>"

definition commands :: "command_t list" where
  "commands =
    [command ''debug'' Cmd_debug ''show debug info'',
     command ''old'' Cmd_old_kernel ''boot pre-2.4 kernel'',
     command ''halt'' Cmd_halt ''break into OF'',
     command ''of'' Cmd_of_interp ''intepret a series of OF commands'',
     command ''dev'' File_cmd_dev ''change default device path given a device:part'',
     command ''cat'' File_cmd_cat ''show file contents given a [device:part]/fs/path'',
     command ''ls'' File_cmd_ls ''list files given a [device:part][/fs/path]'',
     command ''prom_flags'' Cmd_prom_flags ''show or set prom flags'',
     command ''help'' Cmd_help ''show help, given an optional command name'',
     command ''memtest'' Memtest ''simple mem tester'']"

fun find_command :: "string \<Rightarrow> nat \<Rightarrow> command_t list \<Rightarrow> command_t option" where
  "find_command nm add [] = None"
| "find_command nm add (c # cs) = (if strcmp nm (drop add (c_name c)) = 0 then Some c else find_command nm add cs)"

section \<open>Help\<close>

definition cmd_show_command :: "'s firmware \<Rightarrow> command_t \<Rightarrow> ('s, 'z, unit) prog" where
  "cmd_show_command fw c =
     bnd (table_print fw (table_print_start 2 16) (c_name c)) (\<lambda>tp.
     bnd (printk fw ''- '' []) (\<lambda>_.
     bnd (table_print fw tp (c_desc c)) (\<lambda>tp. table_print_end fw tp)))"

definition cmd_show_commands :: "'s firmware \<Rightarrow> ('s, 'z, unit) prog" where
  "cmd_show_commands fw =
     bnd (printk fw (''Available commands:'' @ [LF]) []) (\<lambda>_.
     bnd (table_prints fw (table_print_start 4 16) (map c_name commands)) (\<lambda>tp. table_print_end fw tp))"

fun show_each :: "'s firmware \<Rightarrow> command_t list \<Rightarrow> ('s, 'z, unit) prog" where
  "show_each fw [] = ret ()"
| "show_each fw (c # cs) = bnd (cmd_show_command fw c) (\<lambda>_. show_each fw cs)"

text \<open>Without a name every command is shown, and then the list of names as well.\<close>

definition cmd_help :: "'s firmware \<Rightarrow> string \<Rightarrow> ('s, 'z, unit) prog" where
  "cmd_help fw as =
     (case fst (word_split (Some as)) of
        None \<Rightarrow> bnd (show_each fw commands) (\<lambda>_. cmd_show_commands fw)
      | Some nm \<Rightarrow>
          (case find_command nm (if cnth nm 0 \<noteq> CHR ''!'' then 1 else 0) commands of
             Some c \<Rightarrow> cmd_show_command fw c
           | None \<Rightarrow> cmd_show_commands fw))"

section \<open>The commands of main.c\<close>

definition cmd_debug :: "('s, 'z, unit) prog" where
  "cmd_debug = bi_or (SHIM_OF OR DEBUG_BEFORE_BOOT)"

definition cmd_old_kernel :: "'s firmware \<Rightarrow> ('s, 'z, unit) prog" where
  "cmd_old_kernel fw =
     bnd (modify_bi (\<lambda>b. b\<lparr>bi_flags := bi_flags b XOR BOOT_PRE_2_4\<rparr>)) (\<lambda>_ w.
       printk fw (''%s pre-2.4 kernel'' @ [LF])
         [Va_s (Some (if flag_set (bi_flags (bi w)) BOOT_PRE_2_4 then ''Booting'' else ''Not booting''))] w)"

definition cmd_halt :: "'s firmware \<Rightarrow> ('s, 'z, unit) prog" where
  "cmd_halt fw = prom_pause fw None"

definition cmd_of_interp :: "'s firmware \<Rightarrow> string \<Rightarrow> ('s, 'z, unit) prog" where
  "cmd_of_interp fw as = bnd (prom_interpret fw as) (\<lambda>_. ret ())"

section \<open>Dispatch\<close>

definition run_command :: "'s firmware \<Rightarrow> hardware \<Rightarrow> cmd_fn \<Rightarrow> string \<Rightarrow> ('s, 'z, unit) eprog" where
  "run_command fw peek f as =
     (case f of
        Cmd_debug \<Rightarrow> cmd_debug | Cmd_old_kernel \<Rightarrow> cmd_old_kernel fw | Cmd_halt \<Rightarrow> cmd_halt fw
      | Cmd_of_interp \<Rightarrow> cmd_of_interp fw as | File_cmd_dev \<Rightarrow> file_cmd_dev as
      | File_cmd_cat \<Rightarrow> file_cmd_cat fw as | File_cmd_ls \<Rightarrow> file_cmd_ls fw as
      | Cmd_prom_flags \<Rightarrow> cmd_prom_flags fw as | Cmd_help \<Rightarrow> cmd_help fw as
      | Memtest \<Rightarrow> memtest fw peek as)"

definition cmd_dispatch :: "'s firmware \<Rightarrow> hardware \<Rightarrow> string \<Rightarrow> ('s, 'z, unit) eprog" where
  "cmd_dispatch fw peek line =
     (case word_split (Some line) of
        (None, e) \<Rightarrow> throw (Err ERR_CMD_UNKNOWN)
      | (Some nm, e) \<Rightarrow>
          (case find_command nm 0 commands of
             None \<Rightarrow> throw (Err ERR_CMD_UNKNOWN)
           | Some c \<Rightarrow>
               bnd (catch (run_command fw peek (c_fn c) (chomp e))) (\<lambda>r.
                 case r of
                   Inr x \<Rightarrow> ret ()
                 | Inl err \<Rightarrow>
                     if err = ERR_CMD_BAD_PARAM then cmd_show_command fw c
                     else printk fw ([CHR 0x27] @ ''%s'' @ [CHR 0x27] @ '': %r'' @ [LF])
                            [Va_s (Some (c_name c)), Va_r err])))"

section \<open>The line editor\<close>

definition CMD_LENG :: nat where "CMD_LENG = 512"

definition cmd_init :: "('s, 'z, unit) lprog" where
  "cmd_init =
     bnd (mallocM (word_of_nat CMD_LENG)) (\<lambda>p.
     bnd (modify (\<lambda>w. w\<lparr>cbuff := p\<rparr>)) (\<lambda>_. if p = 0 then throw (Err ERR_NO_MEM) else ret ()))"

text \<open>
  What a key other than the end of the line does to \<open>x\<close> characters typed; \<open>tabfunc\<close> may be
  null.  Keys are compared as \<open>int\<close>s.
\<close>

definition is_code :: "u32 \<Rightarrow> char \<Rightarrow> bool" where
  "is_code k c \<longleftrightarrow> k = word_of_nat (ccode c)"

definition edit_key ::
    "'s firmware \<Rightarrow> (string \<Rightarrow> ('s, 'z, unit) lprog) option \<Rightarrow> u32 \<Rightarrow> string \<Rightarrow> ('s, 'z, string) lprog" where
  "edit_key fw tabfunc c line =
     (if is_code c TAB \<and> tabfunc \<noteq> None then bnd (the tabfunc line) (\<lambda>_. ret line)
      else if is_code c BS \<or> c = 0x7F then
        if 0 < length line
        then bnd (prom_print fw [BS, CHR '' '', BS]) (\<lambda>_. ret (butlast line))
        else ret line
      else if word_of_nat (ccode CHR '' '') \<le>s c \<and> length line < CMD_LENG - 1 then
        bnd (putchar fw (char_of (unat c))) (\<lambda>_. ret (line @ [char_of (unat c)]))
      else ret line)"

definition ends_line :: "u32 \<Rightarrow> bool" where
  "ends_line c \<longleftrightarrow> c = KEY_NONE \<or> is_code c LF \<or> is_code c CR"

fun edit_loop ::
    "'s firmware \<Rightarrow> (string \<Rightarrow> ('s, 'z, unit) lprog) option \<Rightarrow> u32 \<Rightarrow> string \<Rightarrow> nat \<Rightarrow> ('s, 'z, string) lprog" where
  "edit_loop fw tabfunc c line 0 = throw Hang"
| "edit_loop fw tabfunc c line (Suc n) =
     (if ends_line c then ret line
      else bnd (edit_key fw tabfunc c line) (\<lambda>line'. bnd (getchar fw) (\<lambda>c'. edit_loop fw tabfunc c' line' n)))"

text \<open>A line that starts with an exclamation mark is a command, and the result is null.\<close>

definition cmd_edit ::
    "'s firmware \<Rightarrow> hardware \<Rightarrow> (string \<Rightarrow> ('s, 'z, unit) lprog) option \<Rightarrow> u32 \<Rightarrow> ('s, 'z, string option) lprog" where
  "cmd_edit fw peek tabfunc c0 =
     bnd (if c0 = KEY_NONE then getchar fw else ret c0) (\<lambda>c.
     bnd (\<lambda>w. edit_loop fw tabfunc c [] (budget w) w) (\<lambda>line.
     bnd (putchar fw LF) (\<lambda>_.
       if cnth line 0 = CHR ''!'' then
         bnd (catch (cmd_dispatch fw peek line)) (\<lambda>r.
         bnd (case r of Inl e \<Rightarrow> cmd_show_commands fw | Inr x \<Rightarrow> ret ()) (\<lambda>_. ret None))
       else ret (Some line))))"

end
