(* ===== verification/Elf.thy ===== *)
theory Elf
  imports Prom_Init
begin

unbundle bit_operations_syntax

text \<open>
  The kernel image (\<^verbatim>\<open>loader/elf.c\<close>, \<^verbatim>\<open>include/elf.h\<close>): finding the loadable part of a 32-bit ELF file
  in memory, moving it where it has to run, and the hand-over.  The image is read from the
  memory of the machine; the running kernel is not part of the program.
\<close>

section \<open>ELF structures\<close>

definition load8 :: "ram \<Rightarrow> u32 \<Rightarrow> u8" where "load8 m a = m a"
definition load16 :: "ram \<Rightarrow> u32 \<Rightarrow> u16" where "load16 m a = be16 [m a, m (a + 1)] 0"

text \<open>\<open>Elf32_Ehdr\<close>: the identification, then the fields at their offsets.\<close>

definition e_ident :: "ram \<Rightarrow> u32 \<Rightarrow> u32 \<Rightarrow> u8" where "e_ident m e i = load8 m (e + i)"
definition e_entry :: "ram \<Rightarrow> u32 \<Rightarrow> u32" where "e_entry m e = load32 m (e + 24)"
definition e_phoff :: "ram \<Rightarrow> u32 \<Rightarrow> u32" where "e_phoff m e = load32 m (e + 28)"
definition e_phnum :: "ram \<Rightarrow> u32 \<Rightarrow> u16" where "e_phnum m e = load16 m (e + 44)"

text \<open>\<open>Elf32_Phdr\<close>, 32 bytes.\<close>

definition sizeof_phdr :: u32 where "sizeof_phdr = 32"
definition p_type :: "ram \<Rightarrow> u32 \<Rightarrow> u32" where "p_type m p = load32 m p"
definition p_offset :: "ram \<Rightarrow> u32 \<Rightarrow> u32" where "p_offset m p = load32 m (p + 4)"
definition p_vaddr :: "ram \<Rightarrow> u32 \<Rightarrow> u32" where "p_vaddr m p = load32 m (p + 8)"
definition p_memsz :: "ram \<Rightarrow> u32 \<Rightarrow> u32" where "p_memsz m p = load32 m (p + 20)"

definition EI_CLASS :: u32 where "EI_CLASS = 4"
definition EI_DATA :: u32 where "EI_DATA = 5"
definition ELFCLASS32 :: u8 where "ELFCLASS32 = 1"
definition ELFDATA2MSB :: u8 where "ELFDATA2MSB = 2"
definition PT_LOAD :: u32 where "PT_LOAD = 1"
definition ADDRMASK :: u32 where "ADDRMASK = 0x0fffffff"

text \<open>0x7f, E, L, F.\<close>

definition elf_magic :: "ram \<Rightarrow> u32 \<Rightarrow> bool" where
  "elf_magic m e \<longleftrightarrow> e_ident m e 0 = 0x7f \<and> e_ident m e 1 = 0x45 \<and> e_ident m e 2 = 0x4c \<and> e_ident m e 3 = 0x46"

section \<open>Parsing\<close>

text \<open>
  The loop over the program headers from \<open>p\<close>: the offset, the length and the linked base
  found so far.  The offset is 64 bits wide; the length is cut to 32.
\<close>

fun elf_segments :: "ram \<Rightarrow> u32 \<Rightarrow> nat \<Rightarrow> u64 \<times> u32 \<times> u32 \<Rightarrow> u64 \<times> u32 \<times> u32" where
  "elf_segments m p 0 found = found"
| "elf_segments m p (Suc n) (off, len, linked_base) =
     elf_segments m (p + sizeof_phdr) n
       (if p_type m p \<noteq> PT_LOAD \<or> p_offset m p = 0 then (off, len, linked_base)
        else if len = 0 then (ucast (p_offset m p), p_memsz m p, p_vaddr m p AND ADDRMASK)
        else (off, ucast (ucast (p_offset m p + p_memsz m p) - off), linked_base))"

definition elf_parse :: "'s firmware \<Rightarrow> u32 \<Rightarrow> length_t \<Rightarrow> ('s, 'z, load_state_t) prog" where
  "elf_parse fw load_buf load_buf_len =
     (\<lambda>w. let m = ram (mem w) in
        if \<not> elf_magic m load_buf then (Inl (Err ERR_ELF_NOT), w)
        else if e_ident m load_buf EI_CLASS \<noteq> ELFCLASS32 \<or> e_ident m load_buf EI_DATA \<noteq> ELFDATA2MSB
        then (Inl (Err ERR_ELF_WRONG), w)
        else
          (case elf_segments m (load_buf + e_phoff m load_buf) (unat (e_phnum m load_buf)) (0, 0, 0) of
             (off, len, linked_base) \<Rightarrow>
               if len = 0 then (Inl (Err ERR_ELF_NOT_LOADABLE), w)
               else
                 bnd (if ucast len + off > ucast load_buf_len
                      then prom_ensure_claimed fw (load_buf + load_buf_len) (ucast ((ucast len + off) - ucast load_buf_len))
                      else ret ()) (\<lambda>_.
                 ret \<lparr>ls_buf = load_buf, ls_linked_base = linked_base, ls_text_offset = ucast off,
                      ls_text_len = len, ls_entry = e_entry m load_buf AND ADDRMASK\<rparr>) w))"

section \<open>Relocation\<close>

text \<open>\<open>memmove\<close> copies as if through a buffer, as \<open>memcpy\<close> of the model does.\<close>

definition elf_relo :: "'s firmware \<Rightarrow> load_state_t \<Rightarrow> ('s, 'z, load_state_t) prog" where
  "elf_relo fw img =
     (\<lambda>w. if flag_set (bi_flags (bi w)) BOOT_PRE_2_4 then
            if ls_text_len img > IQUIK_BASE then (Inl (Err ERR_KERNEL_OLD_BIG), w)
            else
              bnd (prom_ensure_claimed fw (ls_linked_base img) (ls_text_len img)) (\<lambda>_.
              bnd (modify (\<lambda>w. w\<lparr>mem := (mem w)\<lparr>ram := memcpy (ls_linked_base img)
                     (ls_buf img + ls_text_offset img) (ls_text_len img) (ram (mem w))\<rparr>\<rparr>)) (\<lambda>_.
              ret img)) w
          else
            (let base = ls_buf img + ls_text_offset img in
             (Inr (img\<lparr>ls_linked_base := base, ls_entry := ls_entry img - ls_linked_base img + base\<rparr>), w)))"

section \<open>Hand-over\<close>

text \<open>The word of a PowerPC no-op.\<close>

definition start_address :: "ram \<Rightarrow> load_state_t \<Rightarrow> u32" where
  "start_address m img =
     (let start = load32 m (ls_entry img) in
      if start = 0x60000000 then ls_linked_base img
      else if start < ls_linked_base img \<or> start \<ge> ls_linked_base img + ls_text_len img
              \<or> load32 m (ls_entry img + 8) \<noteq> 0
      then start + ls_entry img else start)"

text \<open>
  The kernel takes the address it is entered at, its five arguments and the state; a
  kernel that returns gives the state it leaves.
\<close>

type_synonym ('s, 'z) kernel = "u32 \<Rightarrow> u32 list \<Rightarrow> ('s, 'z) machine_scheme \<Rightarrow> ('s, 'z) machine_scheme option"

definition kernel_args :: "boot_info_t \<Rightarrow> u32 list" where
  "kernel_args b =
     [bi_initrd_base b, bi_initrd_len b,
      if flag_set (bi_flags b) SHIM_OF then bi_prom_shim b else bi_prom_entry b, 0, 0]"

definition elf_boot :: "'s firmware \<Rightarrow> ('s, 'z) kernel \<Rightarrow> load_state_t \<Rightarrow> string \<Rightarrow> ('s, 'z, unit) prog" where
  "elf_boot fw enter img params =
     (\<lambda>w. let start = start_address (ram (mem w)) img in
        bnd (set_bootargs fw params) (\<lambda>_ w.
          case enter start (kernel_args (bi w)) w of
            None \<Rightarrow> (Inl Hang, w)
          | Some w' \<Rightarrow> (Inl (Err ERR_KERNEL_RETURNED), w')) w)"

end
