(* ===== verification/Boot.thy ===== *)
theory Boot
  imports Commands Elf
begin

unbundle bit_operations_syntax

text \<open>
  The loader itself (\<^verbatim>\<open>loader/main.c\<close>): loading the configuration, choosing an image at the prompt or
  from the boot arguments, assembling the kernel's parameters, loading kernel and initrd, and
  the hand-over.  Strings are values: none of the buffers they point into is written again
  before they are last read.
\<close>

section \<open>Configuration\<close>

text \<open>A lookup in the configuration; \<open>None\<close> for the image asks for the global options.\<close>

definition conf_strg :: "('s, 'z) lmachine_scheme \<Rightarrow> string option \<Rightarrow> string \<Rightarrow> string option" where
  "conf_strg w img item = cfg_get_strg (jk_nulstr (junk w)) (conf w) img item"

definition conf_flag :: "('s, 'z) lmachine_scheme \<Rightarrow> string option \<Rightarrow> string \<Rightarrow> bool" where
  "conf_flag w img item = cfg_get_flag (jk_nulstr (junk w)) (conf w) img item"

fun print_cfg_msgs :: "'s firmware \<Rightarrow> string option \<Rightarrow> (string \<times> string \<times> nat) list \<Rightarrow> ('s, 'z, unit) prog" where
  "print_cfg_msgs fw file [] = ret ()"
| "print_cfg_msgs fw file ((kind, msg, line) # ms) =
     bnd (printk fw kind []) (\<lambda>_.
     bnd (printk fw ''%s'' [Va_s (Some msg)]) (\<lambda>_.
     bnd (printk fw ('' near line %d in file %s'' @ [LF]) [Va_u (word_of_nat line), Va_s file]) (\<lambda>_.
     print_cfg_msgs fw file ms)))"

text \<open>
  The parser run on the loader's heap and flags.  The messages it prints are printed after
  it; nothing else reaches the console in between.
\<close>

definition parse_config :: "'s firmware \<Rightarrow> string \<Rightarrow> nat \<Rightarrow> ('s, 'z, int) lprog" where
  "parse_config fw text len =
     (\<lambda>w. case cfg_parse (bi_config_file (bi w)) text len
              ((conf w)\<lparr>cfg_heap := mem w, cfg_bits := bi_flags (bi w), cfg_msgs := []\<rparr>) of
        (r, s) \<Rightarrow>
          bnd (print_cfg_msgs fw (file_name s) (cfg_msgs s)) (\<lambda>_.
            case r of Inr n \<Rightarrow> ret n | Inl e \<Rightarrow> throw Hang)
          (w\<lparr>conf := s, mem := cfg_heap s, bi := (bi w)\<lparr>bi_flags := cfg_bits s\<rparr>\<rparr>))"

definition config_attempts :: "string option \<Rightarrow> string list" where
  "config_attempts config_file =
     (case config_file of
        None \<Rightarrow> []
      | Some f \<Rightarrow> [f, ''/boot/iquik.conf'', ''/boot/quik.conf'', ''/boot/iquik.conf'', ''/quik.conf''])"

fun try_configs :: "'s firmware \<Rightarrow> path_t \<Rightarrow> string list \<Rightarrow> ('s, 'z, path_t \<times> length_t) eprog" where
  "try_configs fw pt [] = throw (Err ERR_CONFIG_NOT_FOUND)"
| "try_configs fw pt (a # as) =
     (let p = pt\<lparr>pt_path := Some a\<rparr> in
      bnd (printk fw (''Trying configuration file @ '' @ [CHR 0x27] @ ''%P'' @ [CHR 0x27, LF]) [Va_P (Some p)]) (\<lambda>_.
      bnd (catch (file_len fw p)) (\<lambda>r.
        case r of Inr len \<Rightarrow> ret (p, len) | Inl e \<Rightarrow> try_configs fw pt as)))"

text \<open>A decimal number that is the whole string.\<close>

definition whole_number :: "string \<Rightarrow> u32 option" where
  "whole_number p = (case strtol p 10 of (n, endp) \<Rightarrow> if endp \<noteq> p \<and> endp = [] then Some n else None)"

definition on_some :: "'a option \<Rightarrow> ('a \<Rightarrow> ('w, 'e, unit) io) \<Rightarrow> ('w, 'e, unit) io" where
  "on_some x f = (case x of Some y \<Rightarrow> f y | None \<Rightarrow> ret ())"

text \<open>What the options of the configuration do once it has been parsed.\<close>

definition apply_config :: "'s firmware \<Rightarrow> ('s, 'z, unit) lprog" where
  "apply_config fw =
     bnd (\<lambda>w. on_some (conf_strg w None ''init-code'') (\<lambda>p. bnd (prom_interpret fw p) (\<lambda>_. ret ())) w) (\<lambda>_.
     bnd (\<lambda>w. on_some (conf_strg w None ''init-message'') (\<lambda>p. printk fw (''%s'' @ [LF]) [Va_s (Some p)]) w) (\<lambda>_.
     bnd (\<lambda>w. on_some (conf_strg w None ''device'') (\<lambda>p. modify_bi (set_device (Some p))) w) (\<lambda>_.
     bnd (\<lambda>w. on_some (Option.bind (conf_strg w None ''partition'') whole_number)
            (\<lambda>n. modify_bi (\<lambda>b. b\<lparr>bi_default_dev := env_dev_set_part (bi_default_dev b) n\<rparr>)) w) (\<lambda>_.
     bnd (\<lambda>w. on_some (conf_strg w None ''pause-message'')
            (\<lambda>p. modify_bi (\<lambda>b. b\<lparr>bi_pause_message := Some p\<rparr>)) w) (\<lambda>_ w.
       on_some (conf_strg w None ''message'') (\<lambda>p. bnd (catch (file_cmd_cat fw p)) (\<lambda>_. ret ())) w)))))"

text \<open>With no configuration file named, length and path are the uninitialised locals.\<close>

definition load_config :: "'s firmware \<Rightarrow> ('s, 'z, unit) lprog" where
  "load_config fw =
     (\<lambda>w. let dev = bi_default_dev (bi w); e = env_dev_is_valid dev;
              attempts = config_attempts (bi_config_file (bi w));
              pt = \<lparr>pt_device = dev_device dev, pt_part = dev_part dev, pt_path = None\<rparr> in
        if e \<noteq> ERR_NONE
        then (Inl (Err (if e = ERR_ENV_CURRENT_BAD then ERR_ENV_DEFAULT_BAD else e)), w)
        else
          bnd (if attempts = [] then ret (pt, jk_result (junk w)) else try_configs fw pt attempts) (\<lambda>(p, len).
          bnd (mallocM len) (\<lambda>buf.
            if buf = 0 then throw (Err ERR_NO_MEM)
            else
              bnd (catch (file_load fw p buf)) (\<lambda>r.
                case r of
                  Inl e2 \<Rightarrow>
                    bnd (printk fw ([LF] @ ''Couldn'' @ [CHR 0x27] @ ''t load '' @ [CHR 0x27] @ ''%P'' @ [CHR 0x27] @ '': %r'' @ [LF])
                           [Va_P (Some p), Va_r e2]) (\<lambda>_.
                    bnd (freeM buf) (\<lambda>_. throw (Err e2)))
                | Inr data \<Rightarrow>
                    bnd (parse_config fw (map chr (take (unat len) data)) (unat len)) (\<lambda>n.
                    bnd (whenM (n < 0)
                           (printk fw (''Syntax error or read error in '' @ [CHR 0x27] @ ''%P'' @ [CHR 0x27, LF]) [Va_P (Some p)])) (\<lambda>_.
                    bnd (freeM buf) (\<lambda>_.
                    bnd (bi_or CONFIG_VALID) (\<lambda>_. apply_config fw))))))) w)"

section \<open>Kernel parameters\<close>

text \<open>
  The text \<open>make_params\<close> puts together for an image and the parameters typed, for a lookup
  \<open>get\<close> of the image's options.
\<close>

definition params_text :: "(string \<Rightarrow> string option) \<Rightarrow> string \<Rightarrow> string" where
  "params_text get params =
     (case get ''literal'' of
        Some p \<Rightarrow> p @ (if params = [] then [] else (if p = [] then [] else '' '') @ params)
      | None \<Rightarrow>
          (case get ''root'' of Some p \<Rightarrow> ''root='' @ p @ '' '' | None \<Rightarrow> [])
          @ (if get ''read-only'' = None then [] else ''ro '')
          @ (if get ''read-write'' = None then [] else ''rw '')
          @ (case get ''ramdisk'' of Some p \<Rightarrow> ''ramdisk='' @ p @ '' '' | None \<Rightarrow> [])
          @ (case get ''append'' of Some p \<Rightarrow> p @ '' '' | None \<Rightarrow> [])
          @ params)"

text \<open>The buffer is allocated once, with this size; nothing checks that the text fits.\<close>

definition PARAMS_SIZE :: u32 where "PARAMS_SIZE = 2048"

definition make_params :: "string \<Rightarrow> string \<Rightarrow> ('s, 'z, string option) lprog" where
  "make_params label params =
     bnd (\<lambda>w. if params_buf w = 0 then bnd (mallocM PARAMS_SIZE) (\<lambda>p. modify (\<lambda>w. w\<lparr>params_buf := p\<rparr>)) w
              else (Inr (), w)) (\<lambda>_ w.
       if params_buf w = 0 then (Inr None, w)
       else
         (let get = conf_strg w (Some label) in
          bnd (whenM (get ''literal'' = None)
            (bnd (whenM (get ''pause-after'' \<noteq> None) (bi_or PAUSE_BEFORE_BOOT)) (\<lambda>_.
             on_some (get ''pause-message'') (\<lambda>p. modify_bi (\<lambda>b. b\<lparr>bi_pause_message := Some p\<rparr>)))))
          (\<lambda>_. ret (Some (params_text get params))) w))"

section \<open>The prompt\<close>

definition PROMPT :: string where "PROMPT = ''boot: ''"
definition DEFAULT_TIMEOUT :: u32 where "DEFAULT_TIMEOUT = - 1"

definition maintabfunc :: "'s firmware \<Rightarrow> string \<Rightarrow> ('s, 'z, unit) lprog" where
  "maintabfunc fw buf =
     bnd (putchar fw LF) (\<lambda>_.
     bnd (cmd_show_commands fw) (\<lambda>_.
     bnd (\<lambda>w. whenM (flag_set (bi_flags (bi w)) HAVE_IMAGES)
            (bnd (printk fw ([LF] @ ''Known selections:'' @ [LF]) []) (\<lambda>_.
             bnd (table_prints fw (table_print_start 3 25) (cfg_print_images (jk_nulstr (junk w)) (conf w))) (\<lambda>tp.
             table_print_end fw tp))) w) (\<lambda>_.
     bnd (printk fw ([LF] @ ''You can also type in custom image locations, like:'' @ [LF]) []) (\<lambda>_.
     bnd (printk fw (''[device:partno]/vmlinux'' @ [LF]) []) (\<lambda>_.
     bnd (printk fw (''[device:partno]/vmlinux -- kernel arguments'' @ [LF]) []) (\<lambda>_.
     bnd (printk fw (''[device:partno]/vmlinux [device:partno]/initrd kernel arguments'' @ [LF]) []) (\<lambda>_.
     printk fw (PROMPT @ ''%s'') [Va_s (Some buf)])))))))"

text \<open>
  The first time round the boot arguments, or else the default image, are chosen, and the
  timeout; afterwards nothing is.  A null pointer is \<open>None\<close>.
\<close>

definition auto_choice :: "string option \<Rightarrow> ('s, 'z, string option \<times> string option \<times> u32) lprog" where
  "auto_choice params =
     (\<lambda>w. if flag_set (bi_flags (bi w)) TRIED_AUTO then (Inr (None, params, DEFAULT_TIMEOUT), w)
          else
            bnd (modify_bi (\<lambda>b. b\<lparr>bi_flags := bi_flags b XOR TRIED_AUTO\<rparr>)) (\<lambda>_.
              case word_split (bi_bootargs (bi w)) of
                (Some k, ps) \<Rightarrow> ret (Some k, Some ps, 0)
              | (None, ps) \<Rightarrow>
                  ret (cfg_get_default (jk_nulstr (junk w)) (conf w), Some ps,
                    if flag_set (bi_flags (bi w)) CONFIG_VALID then
                      (case conf_strg w None ''timeout'' of
                         Some q \<Rightarrow> if q = [] then DEFAULT_TIMEOUT else fst (strtol q 0)
                       | None \<Rightarrow> DEFAULT_TIMEOUT)
                    else DEFAULT_TIMEOUT)) w)"

text \<open>The prompt: the choice is confirmed by the time or by return, or a line is typed.\<close>

definition prompt_choice ::
    "'s firmware \<Rightarrow> hardware \<Rightarrow> string option \<Rightarrow> string option \<Rightarrow> u32 \<Rightarrow> ('s, 'z, string option \<times> string option) lprog" where
  "prompt_choice fw peek kname params timeout =
     bnd (printk fw PROMPT []) (\<lambda>_.
     bnd (if timeout \<noteq> - 1 then wait_for_key fw timeout (word_of_nat (ccode LF)) else ret KEY_NONE) (\<lambda>lastkey.
       if is_code lastkey LF then
         bnd (printk fw ''%s'' [Va_s kname]) (\<lambda>_.
         bnd (whenM (params \<noteq> None) (printk fw '' %s'' [Va_s params])) (\<lambda>_.
         bnd (printk fw [LF] []) (\<lambda>_. ret (kname, params))))
       else
         bnd (cmd_edit fw peek (Some (maintabfunc fw)) lastkey) (\<lambda>buf.
           case buf of
             None \<Rightarrow> throw (Err ERR_NOT_READY)
           | Some b \<Rightarrow> (case word_split (Some b) of (k, ps) \<Rightarrow> ret (k, Some ps)))))"

text \<open>Device, partition and kernel generation from the section of an image.\<close>

definition image_dev :: "(string \<Rightarrow> string option) \<Rightarrow> env_dev_t \<Rightarrow> env_dev_t" where
  "image_dev get cur_dev =
     (let d1 = (case get ''device'' of Some p \<Rightarrow> cur_dev\<lparr>dev_device := Some p\<rparr> | None \<Rightarrow> cur_dev) in
      case Option.bind (get ''partition'') whole_number of
        Some n \<Rightarrow> env_dev_set_part d1 n
      | None \<Rightarrow> d1)"

record choice =
  ch_kernel :: "string option"
  ch_initrd :: "string option"
  ch_params :: "string option"
  ch_dev :: env_dev_t
  ch_label :: "string option"

text \<open>An image of the configuration replaces the name typed.\<close>

definition from_config :: "string option \<Rightarrow> string option \<Rightarrow> env_dev_t \<Rightarrow> ('s, 'z, choice) lprog" where
  "from_config kname params cur_dev =
     (\<lambda>w. let plain = \<lparr>ch_kernel = kname, ch_initrd = None, ch_params = params, ch_dev = cur_dev, ch_label = None\<rparr> in
        if \<not> flag_set (bi_flags (bi w)) CONFIG_VALID then (Inr plain, w)
        else
          (let initrd = conf_strg w None ''initrd''; p = conf_strg w kname ''image'' in
           if p = None \<or> p = Some [] then (Inr (plain\<lparr>ch_initrd := initrd\<rparr>), w)
           else
             (let get = conf_strg w kname in
              bnd (modify_bi (\<lambda>b. b\<lparr>bi_flags :=
                     if get ''old-kernel'' \<noteq> None then bi_flags b OR BOOT_PRE_2_4
                     else bi_flags b AND NOT BOOT_PRE_2_4\<rparr>)) (\<lambda>_.
              bnd (make_params (the kname) (or_null params w)) (\<lambda>ps.
                if ps = None then throw (Err ERR_NO_MEM)
                else ret \<lparr>ch_kernel = p,
                       ch_initrd = (case get ''initrd'' of Some i \<Rightarrow> Some i | None \<Rightarrow> initrd),
                       ch_params = ps, ch_dev = image_dev get cur_dev, ch_label = kname\<rparr>)) w)))"

text \<open>For a kernel path typed in, the next word is the initrd, or two dashes.\<close>

definition split_initrd :: "choice \<Rightarrow> choice" where
  "split_initrd c =
     (if ch_label c \<noteq> None then c
      else
        (let ps = chomp (case ch_params c of Some x \<Rightarrow> x | None \<Rightarrow> []) in
         if memcmp_prefix ps ''-- '' then c\<lparr>ch_params := Some (drop 3 ps)\<rparr>
         else (case word_split (Some ps) of (i, rest) \<Rightarrow> c\<lparr>ch_initrd := i, ch_params := Some rest\<rparr>)))"

definition get_params ::
    "'s firmware \<Rightarrow> hardware \<Rightarrow> string option \<Rightarrow> env_dev_t \<Rightarrow> ('s, 'z, choice) lprog" where
  "get_params fw peek params0 cur_dev =
     bnd (auto_choice params0) (\<lambda>(k0, ps0, timeout).
     bnd (prompt_choice fw peek k0 ps0 timeout) (\<lambda>(k, ps).
     bnd (from_config k ps cur_dev) (\<lambda>c.
       if ch_kernel c = None then
         bnd (printk fw (''<TAB> for list of bootable images, or !help'' @ [LF]) [])
           (\<lambda>_. throw (Err ERR_NOT_READY))
       else ret (split_initrd c))))"

section \<open>Loading\<close>

text \<open>A device the image left open is filled in from the kernel's path.\<close>

definition dev_from_path :: "path_t \<Rightarrow> env_dev_t \<Rightarrow> env_dev_t" where
  "dev_from_path pt d =
     (if env_dev_is_valid d \<noteq> ERR_NONE then (env_dev_set_part d (pt_part pt))\<lparr>dev_device := pt_device pt\<rparr> else d)"

text \<open>
  The results: kernel path, initrd path and parameters, a path with its block.  Where the
  initrd's path is bad the address of the local that points to the kernel's path is freed.
\<close>

definition paths_on ::
    "'s firmware \<Rightarrow> choice \<Rightarrow> env_dev_t \<Rightarrow> ('s, 'z, (u32 \<times> path_t) \<times> (u32 \<times> path_t) option \<times> string option) lprog" where
  "paths_on fw c d =
     bnd (catch (file_path (the (ch_kernel c)) d)) (\<lambda>r.
       case r of
         Inl e \<Rightarrow>
           bnd (printk fw (''Error parsing kernel path '' @ [CHR 0x27] @ ''%s'' @ [CHR 0x27] @ '': %r'' @ [LF])
                  [Va_s (ch_kernel c), Va_r e]) (\<lambda>_. throw (Err e))
       | Inr (ka, kp) \<Rightarrow>
           (case ch_initrd c of
              None \<Rightarrow> ret ((ka, kp), None, ch_params c)
            | Some ispec \<Rightarrow>
                bnd (catch (file_path ispec (dev_from_path kp d))) (\<lambda>r2.
                  case r2 of
                    Inr ip \<Rightarrow> ret ((ka, kp), Some ip, ch_params c)
                  | Inl e \<Rightarrow>
                      bnd (printk fw (''Error parsing initrd path '' @ [CHR 0x27] @ ''%s'' @ [CHR 0x27] @ '': %r'' @ [LF])
                             [Va_s (Some ispec), Va_r e]) (\<lambda>_ w.
                      bnd (freeM (jk_local (junk w))) (\<lambda>_. throw (Err e)) w))))"

definition resolve_paths ::
    "'s firmware \<Rightarrow> choice \<Rightarrow> ('s, 'z, (u32 \<times> path_t) \<times> (u32 \<times> path_t) option \<times> string option) lprog" where
  "resolve_paths fw c =
     bnd (catch (env_dev_update_from_default (ch_dev c))) (\<lambda>u.
       paths_on fw c (case u of Inr d \<Rightarrow> d | Inl e \<Rightarrow> ch_dev c))"

definition get_load_paths ::
    "'s firmware \<Rightarrow> hardware \<Rightarrow> string option \<Rightarrow> ('s, 'z, (u32 \<times> path_t) \<times> (u32 \<times> path_t) option \<times> string option) lprog" where
  "get_load_paths fw peek params0 = bnd (get_params fw peek params0 env_dev_zero) (resolve_paths fw)"

text \<open>The results are the error, if any, and the new values of \<open>*where\<close> and \<open>*len\<close>.\<close>

definition load_image :: "'s firmware \<Rightarrow> path_t \<Rightarrow> vaddr_t \<Rightarrow> ('s, 'z, quik_err_t option \<times> vaddr_t \<times> length_t) eprog" where
  "load_image fw pt addr =
     bnd (printk fw (''Loading '' @ [CHR 0x27] @ ''%P'' @ [CHR 0x27, LF]) [Va_P (Some pt)]) (\<lambda>_.
     bnd (catch (file_len fw pt)) (\<lambda>r.
       case r of
         Inl e \<Rightarrow>
           bnd (printk fw (''Error fetching size for '' @ [CHR 0x27] @ ''%P'' @ [CHR 0x27] @ '': %r'' @ [LF])
                  [Va_P (Some pt), Va_r e]) (\<lambda>_. ret (Some e, addr, 0))
       | Inr len \<Rightarrow>
           bnd (prom_claim_chunk fw addr len) (\<lambda>a.
             if a = - 1 then
               bnd (printk fw (''Couldn'' @ [CHR 0x27] @ ''t claim 0x%x bytes to load '' @ [CHR 0x27] @ ''%P'' @ [CHR 0x27, LF])
                      [Va_u len, Va_P (Some pt)]) (\<lambda>_. ret (Some ERR_NO_MEM, a, len))
             else
               bnd (catch (file_load fw pt a)) (\<lambda>r2.
                 case r2 of
                   Inr data \<Rightarrow> ret (None, a, len)
                 | Inl e \<Rightarrow>
                     bnd (printk fw (''Error loading '' @ [CHR 0x27] @ ''%P'' @ [CHR 0x27] @ '': %r'' @ [LF])
                            [Va_P (Some pt), Va_r e]) (\<lambda>_.
                     bnd (prom_release fw a len) (\<lambda>_. ret (Some e, a, len)))))))"

text \<open>The exit at \<open>out\<close>: the kernel's memory and both paths are given back.\<close>

definition give_up :: "'s firmware \<Rightarrow> vaddr_t \<Rightarrow> length_t \<Rightarrow> u32 \<Rightarrow> (u32 \<times> path_t) option \<Rightarrow> quik_err_t \<Rightarrow> ('s, 'z, 'a) prog" where
  "give_up fw kernel_buf kernel_len ka ip e =
     bnd (whenM (kernel_buf \<noteq> 0) (prom_release fw kernel_buf kernel_len)) (\<lambda>_.
     bnd (on_some ip (\<lambda>(a, pt). freeM a)) (\<lambda>_.
     bnd (whenM (ka \<noteq> 0) (freeM ka)) (\<lambda>_. throw (Err e))))"

definition set_initrd :: "vaddr_t \<Rightarrow> length_t \<Rightarrow> ('s, 'z, unit) prog" where
  "set_initrd base len = modify_bi (\<lambda>b. b\<lparr>bi_initrd_base := base, bi_initrd_len := len\<rparr>)"

definition try_load_loop :: "'s firmware \<Rightarrow> hardware \<Rightarrow> string option \<Rightarrow> ('s, 'z, load_state_t \<times> string option) lprog" where
  "try_load_loop fw peek params0 =
     bnd (get_load_paths fw peek params0) (\<lambda>((ka, kp), ip, params).
     bnd (load_image fw kp LOAD_BASE) (\<lambda>(e, kernel_buf, kernel_len).
     bnd (case e of
            Some err \<Rightarrow> ret (Inl err)
          | None \<Rightarrow> catch (elf_parse fw kernel_buf kernel_len)) (\<lambda>r.
       case r of
         Inl err \<Rightarrow>
           bnd (printk fw (''Error loading '' @ [CHR 0x27] @ ''%P'' @ [CHR 0x27] @ '': %r'' @ [LF])
                  [Va_P (Some kp), Va_r err]) (\<lambda>_. give_up fw kernel_buf kernel_len ka ip err)
       | Inr img \<Rightarrow>
           (case ip of
              None \<Rightarrow> bnd (set_initrd 0 0) (\<lambda>_. ret (img, params))
            | Some (ia, ipt) \<Rightarrow>
                bnd (load_image fw ipt (kernel_buf + kernel_len)) (\<lambda>(e2, initrd_buf, initrd_len).
                  case e2 of
                    Some err \<Rightarrow> give_up fw kernel_buf kernel_len ka ip err
                  | None \<Rightarrow> bnd (set_initrd initrd_buf initrd_len) (\<lambda>_. ret (img, params)))))))"

section \<open>The loader\<close>

text \<open>The choice is offered again until an image has been loaded.\<close>

fun load_until :: "'s firmware \<Rightarrow> hardware \<Rightarrow> nat \<Rightarrow> ('s, 'z, load_state_t \<times> string option) lprog" where
  "load_until fw peek 0 = throw Hang"
| "load_until fw peek (Suc n) =
     bnd (catch (try_load_loop fw peek None)) (\<lambda>r. case r of Inr x \<Rightarrow> ret x | Inl e \<Rightarrow> load_until fw peek n)"

definition drop_shim :: "'s firmware \<Rightarrow> ('s, 'z, unit) prog" where
  "drop_shim fw =
     (\<lambda>w. whenM (flag_set (bi_flags (bi w)) BOOT_PRE_2_4 \<and> flag_set (bi_flags (bi w)) SHIM_OF)
        (bnd (printk fw (''OF shimming unsupported for pre-2.4 kernels'' @ [LF]) []) (\<lambda>_.
         modify_bi (\<lambda>b. b\<lparr>bi_flags := bi_flags b XOR SHIM_OF\<rparr>))) w)"

definition before_boot :: "'s firmware \<Rightarrow> load_state_t \<Rightarrow> string option \<Rightarrow> ('s, 'z, unit) prog" where
  "before_boot fw img params =
     (\<lambda>w. if flag_set (bi_flags (bi w)) DEBUG_BEFORE_BOOT then
            bnd (whenM (flag_set (bi_flags (bi w)) BOOT_PRE_2_4) (printk fw (''Booting pre-2.4 kernel'' @ [LF]) [])) (\<lambda>_.
            bnd (printk fw (''Kernel: 0x%x @ 0x%x'' @ [LF]) [Va_u (ls_text_len img), Va_u (ls_linked_base img)]) (\<lambda>_.
            bnd (printk fw (''Initrd: 0x%x @ 0x%x'' @ [LF]) [Va_u (bi_initrd_len (bi w)), Va_u (bi_initrd_base (bi w))]) (\<lambda>_.
            bnd (printk fw (''Kernel parameters: %s'' @ [LF]) [Va_s params]) (\<lambda>_.
            bnd (printk fw (''Kernel entry: 0x%x'' @ [LF]) [Va_u (ls_entry img)]) (\<lambda>_.
            prom_pause fw None))))) w
          else if flag_set (bi_flags (bi w)) PAUSE_BEFORE_BOOT then prom_pause fw (bi_pause_message (bi w)) w
          else (Inr (), w))"

text \<open>What follows the memory set-up; every way through it ends in an error.\<close>

definition boot_sequence ::
    "'s firmware \<Rightarrow> hardware \<Rightarrow> (u32 \<Rightarrow> u32 list \<Rightarrow> ('s, 'z) lmachine_scheme \<Rightarrow> ('s, 'z) lmachine_scheme option)
      \<Rightarrow> ('s, 'z, unit) lprog" where
  "boot_sequence fw peek enter =
     bnd (malloc_init fw) (\<lambda>_.
     bnd cmd_init (\<lambda>_.
     bnd (env_init fw) (\<lambda>_.
     bnd (catch (load_config fw)) (\<lambda>r.
     bnd (case r of
            Inr x \<Rightarrow> ret ()
          | Inl e \<Rightarrow> printk fw (''No configuration file parsed: %r'' @ [LF]) [Va_r e]) (\<lambda>_.
     bnd (\<lambda>w. load_until fw peek (budget w) w) (\<lambda>(img, params).
     bnd (elf_relo fw img) (\<lambda>img2.
     bnd (drop_shim fw) (\<lambda>_.
     bnd (before_boot fw img2 params) (\<lambda>_ w.
     elf_boot fw enter img2 (or_null params w) w)))))))))"

definition iquik_main ::
    "'s firmware \<Rightarrow> hardware \<Rightarrow> (u32 \<Rightarrow> u32 list \<Rightarrow> ('s, 'z) lmachine_scheme \<Rightarrow> ('s, 'z) lmachine_scheme option)
      \<Rightarrow> string \<Rightarrow> vaddr_t \<Rightarrow> vaddr_t \<Rightarrow> ('s, 'z, unit) lprog" where
  "iquik_main fw peek enter preboot_script shim entry =
     bnd (catch (prom_init fw preboot_script shim entry)) (\<lambda>r.
       case r of
         Inl e \<Rightarrow> prom_exit fw
       | Inr x \<Rightarrow>
           bnd (printk fw ([LF] @ ''iQUIK OldWorld Bootloader'' @ [LF]) []) (\<lambda>_.
           bnd (printk fw (''Copyright (C) 2021 Andrei Warkentin <andreiw@mm.st>'' @ [LF]) []) (\<lambda>_.
           bnd (\<lambda>w. whenM (flag_set (bi_flags (bi w)) SHIM_OF)
                  (printk fw (''This firmware requires a shim to work around bugs'' @ [LF]) []) w) (\<lambda>_.
           bnd (catch (boot_sequence fw peek enter)) (\<lambda>r2.
             case r2 of
               Inr y \<Rightarrow> ret ()
             | Inl e \<Rightarrow> bnd (printk fw ''Exiting on error: %r'' [Va_r e]) (\<lambda>_. prom_exit fw))))))"

end
