(* ===== verification/Ext2spec.thy ===== *)
theory Ext2spec
  imports Ext2fs
begin

unbundle bit_operations_syntax

text \<open>
  What the block layer of the file system means: the blocks of a file as a function of the
  bytes of the partition, the invariant of the two caches of indirect blocks, and the
  content of a file.  The laws of one cache are stated in the locale \<open>cache_slot\<close>, which both
  caches interpret.
\<close>

section \<open>Sizes\<close>

lemma sless_small:
  fixes a b :: u32
  assumes "unat a < 2 ^ 31" and "unat b < 2 ^ 31"
  shows "a <s b \<longleftrightarrow> unat a < unat b"
proof -
  have s: "sint x = int (unat x)" if "unat x < 2 ^ 31" for x :: u32
  proof -
    have "uint x < 2 ^ 31" using that by (simp add: nat_less_iff flip: nat_uint_eq)
    then have "signed_take_bit 31 (uint x) = uint x"
      using order_trans [of "- (2 ^ 31)" 0 "uint x"] by (intro signed_take_bit_int_eq_self) auto
    then show ?thesis by (simp add: sint_uint)
  qed
  show ?thesis using s [OF assms(1)] s [OF assms(2)] by (simp add: word_sless_alt flip: word_less_nat_alt word_less_def)
qed

definition sane_sb :: "bytes \<Rightarrow> bool" where
  "sane_sb sb \<longleftrightarrow> unat (sb_log2_block_size sb) \<le> 6"

definition fs_bs :: "bytes \<Rightarrow> nat" where
  "fs_bs sb = 2 ^ (unat (sb_log2_block_size sb) + 10)"

lemma upto6: "unat (x :: u32) \<le> 6 \<Longrightarrow> x = 0 \<or> x = 1 \<or> x = 2 \<or> x = 3 \<or> x = 4 \<or> x = 5 \<or> x = 6"
proof -
  assume "unat x \<le> 6"
  then have "unat x = 0 \<or> unat x = 1 \<or> unat x = 2 \<or> unat x = 3 \<or> unat x = 4 \<or> unat x = 5 \<or> unat x = 6" by linarith
  then show ?thesis by (simp add: word_unat_eq_iff)
qed

lemma sane_sizes:
  assumes "sane_sb sb"
  shows "unat (EXT2_BLOCK_SIZE sb) = fs_bs sb"
    and "unat (LOG2_EXT2_BLOCK_SIZE sb) = unat (sb_log2_block_size sb) + 1"
    and "slw 1 (LOG2_EXT2_BLOCK_SIZE sb + 9) = EXT2_BLOCK_SIZE sb"
    and "unat (word_of_int (trunc_div (sint (EXT2_BLOCK_SIZE sb)) 4) :: u32) = fs_bs sb div 4"
    and "1024 \<le> fs_bs sb" and "fs_bs sb \<le> 65536" and "4 dvd fs_bs sb"
proof -
  define x where "x = sb_log2_block_size sb"
  have x: "unat x \<le> 6" using assms by (simp add: sane_sb_def x_def)
  note d = EXT2_BLOCK_SIZE_def LOG2_EXT2_BLOCK_SIZE_def LOG2_BLOCK_SIZE_def slw_def fs_bs_def x_def [symmetric] trunc_div_def
  show "unat (EXT2_BLOCK_SIZE sb) = fs_bs sb" "unat (LOG2_EXT2_BLOCK_SIZE sb) = unat (sb_log2_block_size sb) + 1"
    "slw 1 (LOG2_EXT2_BLOCK_SIZE sb + 9) = EXT2_BLOCK_SIZE sb"
    "unat (word_of_int (trunc_div (sint (EXT2_BLOCK_SIZE sb)) 4) :: u32) = fs_bs sb div 4"
    "1024 \<le> fs_bs sb" "fs_bs sb \<le> 65536" "4 dvd fs_bs sb"
    unfolding d using upto6 [OF x] by (elim disjE; simp)+
qed

section \<open>Reading through a cache\<close>

text \<open>Block \<open>b\<close> of the file system on a partition of a disk, and a word of it.\<close>

definition fs_block :: "bytes \<Rightarrow> part_t \<Rightarrow> nat \<Rightarrow> u32 \<Rightarrow> bytes" where
  "fs_block img p bs b = slice (unat (p_start p) + unat b * bs) bs img"

definition fs_entry :: "bytes \<Rightarrow> part_t \<Rightarrow> nat \<Rightarrow> u32 \<Rightarrow> nat \<Rightarrow> u32" where
  "fs_entry img p bs b j = cpu32 (fs_block img p bs b) (4 * j)"

text \<open>A block that the loader can address: its sectors are counted in 32 bits.\<close>

definition block_in :: "part_t \<Rightarrow> nat \<Rightarrow> u32 \<Rightarrow> bool" where
  "block_in p bs b \<longleftrightarrow> unat b * bs + bs < unat (p_len p) \<and> unat b * bs < 2 ^ 41"

text \<open>A cache holds the block of the partition that its tag names.\<close>

definition cache_ok :: "bytes \<Rightarrow> part_t \<Rightarrow> icache \<Rightarrow> bool" where
  "cache_ok img p c \<longleftrightarrow> (ic_blkno c \<noteq> - 1 \<longrightarrow>
     take (unat (ic_size c)) (ic_block c) = part_bytes img p (ucast (ic_blkno c)) 0 (ic_size c))"

definition cache_cost :: "nat \<Rightarrow> icache \<Rightarrow> nat" where
  "cache_cost bs c = (if ic_addr c \<noteq> 0 \<and> unat (ic_size c) = bs then 0 else bs + 8)"


locale cache_slot =
  fixes sl :: "('s, 'z) slot"
  assumes get_put: "fst sl (snd sl c w) = c"
    and put_get: "snd sl (fst sl w) w = w"
    and put_put: "snd sl c (snd sl d w) = snd sl c w"
    and put_mem: "mem (snd sl c w) = mem w"
    and put_part: "the_part (snd sl c w) = the_part w"
    and put_mem_mem: "(snd sl c w)\<lparr>mem := h\<rparr> = snd sl c (w\<lparr>mem := h\<rparr>)"
    and put_fws_fws: "(snd sl c w)\<lparr>fws := x\<rparr> = snd sl c (w\<lparr>fws := x\<rparr>)"
    and get_mem: "fst sl (w\<lparr>mem := h\<rparr>) = fst sl w"
    and get_fws: "fst sl (w\<lparr>fws := x\<rparr>) = fst sl w"
begin

lemmas laws = get_put put_get put_put put_mem put_part put_mem_mem put_fws_fws get_mem get_fws

lemma upd_slot_eq: "upd_slot sl f w = (Inr (), snd sl (f (fst sl w)) w)"
  by (simp add: upd_slot_def modify_def)

lemma alloc_ok:
  assumes room: "roomy (cache_cost (unat n) (fst sl w) + k) (mem w)" and ok: "cache_ok img p (fst sl w)"
  shows "\<exists>c h. cache_alloc sl n w = (Inr (), snd sl c (w\<lparr>mem := h\<rparr>))
    \<and> ic_addr c \<noteq> 0 \<and> ic_size c = n \<and> cache_ok img p c \<and> roomy k h"
proof -
  let ?c = "fst sl w"
  consider (null) "ic_addr ?c = 0" | (same) "ic_addr ?c \<noteq> 0" "ic_size ?c = n" | (other) "ic_addr ?c \<noteq> 0" "ic_size ?c \<noteq> n"
    by blast
  then show ?thesis
  proof cases
    case null
    then have "roomy (k + unat n + 8) (mem w)" using room by (simp add: cache_cost_def ac_simps)
    then obtain h where m: "malloc n (mem w) = (malloc_ptr (mem w) + 4, h)" "malloc_ptr (mem w) + 4 \<noteq> 0" "roomy k h"
      by (rule malloc_roomy)
    let ?d = "?c\<lparr>ic_addr := malloc_ptr (mem w) + 4, ic_size := n, ic_blkno := - 1\<rparr>"
    have "cache_alloc sl n w = (Inr (), snd sl ?d (w\<lparr>mem := h\<rparr>))"
      using null m by (simp add: cache_alloc_def mallocM_def bnd_def ret_def upd_slot_eq laws)
    then show ?thesis using m by (intro exI [of _ ?d] exI [of _ h]) (simp add: cache_ok_def)
  next
    case same
    then have "cache_alloc sl n w = (Inr (), snd sl ?c (w\<lparr>mem := mem w\<rparr>))"
      by (simp add: cache_alloc_def bnd_def ret_def laws)
    moreover have "roomy k (mem w)" using room by (rule roomy_mono) simp
    ultimately show ?thesis using same ok by (intro exI [of _ ?c] exI [of _ "mem w"]) simp
  next
    case other
    then have "unat (ic_size ?c) \<noteq> unat n" by (simp add: word_unat_eq_iff)
    then have "roomy (k + unat n + 8) (mem w)" using room by (simp add: cache_cost_def ac_simps)
    then have "roomy (k + unat n + 8) (free (ic_addr ?c) (mem w))" using other by (intro free_roomy)
    then obtain a h where m: "malloc n (free (ic_addr ?c) (mem w)) = (a, h)" "a \<noteq> 0" "roomy k h"
      by (rule malloc_roomy)
    let ?d = "?c\<lparr>ic_blkno := - 1, ic_addr := a, ic_size := n\<rparr>"
    have "cache_alloc sl n w = (Inr (), snd sl ?d (w\<lparr>mem := h\<rparr>))"
      using other m by (simp add: cache_alloc_def mallocM_def freeM_def modify_def bnd_def ret_def upd_slot_eq laws)
    then show ?thesis using m by (intro exI [of _ ?d] exI [of _ h]) (simp add: cache_ok_def)
  qed
qed

lemma fill_ok:
  assumes dev: "block_device fw (p_dev (the_part w)) img pos" and on: "part_on img (the_part w)"
    and inside: "in_part (the_part w) (ucast blkno) 0 n" and "blkno \<noteq> - 1"
    and ok: "cache_ok img (the_part w) (fst sl w)" and sz: "ic_size (fst sl w) = n"
  shows "\<exists>c s'. cache_fill fw sl blkno n w = (Inr (), snd sl c (w\<lparr>fws := s'\<rparr>))
    \<and> ic_addr c = ic_addr (fst sl w) \<and> ic_size c = n \<and> cache_ok img (the_part w) c
    \<and> take (unat n) (ic_block c) = part_bytes img (the_part w) (ucast blkno) 0 n"
proof (cases "blkno = ic_blkno (fst sl w)")
  case True
  then have "cache_fill fw sl blkno n w = (Inr (), snd sl (fst sl w) (w\<lparr>fws := fws w\<rparr>))"
    by (simp add: cache_fill_def laws)
  moreover have "take (unat n) (ic_block (fst sl w)) = part_bytes img (the_part w) (ucast blkno) 0 n"
    using ok sz True assms(4) by (simp add: cache_ok_def)
  ultimately show ?thesis using ok sz by (intro exI [of _ "fst sl w"] exI [of _ "fws w"]) simp
next
  case False
  let ?d = "part_bytes img (the_part w) (ucast blkno) 0 n"
  have "unat (ucast blkno :: u64) < 2 ^ 50" using unat_lt_u32 [of blkno] by simp
  then obtain s' where "part_read_into fw (ucast blkno) 0 n w =
    (Inr (if in_part (the_part w) (ucast blkno) 0 n then (None, ?d) else (Some ERR_PART_BEYOND, [])), w\<lparr>fws := s'\<rparr>)"
    using part_read_into_eq [OF dev on, of "ucast blkno" 0 n] by auto
  then have r: "part_read_into fw (ucast blkno) 0 n w = (Inr (None, ?d), w\<lparr>fws := s'\<rparr>)" using inside by simp
  have len: "length ?d = unat n"
  proof -
    have "unat (p_start (the_part w)) + 512 * unat blkno + unat n \<le> length img"
      using inside on by (simp add: in_part_def part_on_def)
    then show ?thesis by (simp add: part_bytes_def)
  qed
  let ?c = "(fst sl w)\<lparr>ic_block := ?d @ drop (length ?d) (ic_block (fst sl w)), ic_blkno := blkno\<rparr>"
  have "cache_fill fw sl blkno n w = (Inr (), snd sl ?c (w\<lparr>fws := s'\<rparr>))"
    using False r by (simp add: cache_fill_def bnd_def upd_slot_eq laws)
  then show ?thesis using len sz
    by (intro exI [of _ ?c] exI [of _ s']) (simp add: cache_ok_def)
qed

end

interpretation c1: cache_slot slot1
  by unfold_locales (simp_all add: slot1_def)

interpretation c2: cache_slot slot2
  by unfold_locales (simp_all add: slot2_def)


section \<open>Finding a block of a file\<close>

definition vol_inv :: "bytes \<Rightarrow> part_t \<Rightarrow> nat \<Rightarrow> nat \<Rightarrow> ('s, 'z) emachine_scheme \<Rightarrow> bool" where
  "vol_inv img p bs k w \<longleftrightarrow> the_part w = p \<and> cache_ok img p (indir1 w) \<and> cache_ok img p (indir2 w)
     \<and> roomy (cache_cost bs (indir1 w) + cache_cost bs (indir2 w) + k) (mem w)"

definition file_block :: "bytes \<Rightarrow> part_t \<Rightarrow> nat \<Rightarrow> bytes \<Rightarrow> nat \<Rightarrow> u32" where
  "file_block img p bs ino k =
     (let n = bs div 4 in
      if k < 12 then i_dir_block ino k
      else if k < 12 + n then fs_entry img p bs (i_indir_block ino) (k - 12)
      else fs_entry img p bs (fs_entry img p bs (i_double_indir_block ino) ((k - 12 - n) div n)) ((k - 12 - n) mod n))"

definition mapped :: "bytes \<Rightarrow> part_t \<Rightarrow> nat \<Rightarrow> bytes \<Rightarrow> nat \<Rightarrow> bool" where
  "mapped img p bs ino k \<longleftrightarrow>
     (let n = bs div 4 in
      k < 12 + n + n * n
      \<and> (12 \<le> k \<and> k < 12 + n \<longrightarrow> block_in p bs (i_indir_block ino))
      \<and> (12 + n \<le> k \<longrightarrow> block_in p bs (i_double_indir_block ino)
           \<and> block_in p bs (fs_entry img p bs (i_double_indir_block ino) ((k - 12 - n) div n))))"

lemma slw_small:
  assumes "unat n < 64" and "unat b * 2 ^ unat n < 2 ^ 32"
  shows "unat (slw b n) = unat b * 2 ^ unat n"
  using assms by (simp add: slw_def unat_push_bit_small)

lemma block_sector:
  assumes sb: "sane_sb sb" and b: "block_in p (fs_bs sb) b"
  defines "s \<equiv> slw b (LOG2_EXT2_BLOCK_SIZE sb)"
  shows "512 * unat s = unat b * fs_bs sb" and "s \<noteq> - 1"
    and "in_part p (ucast s) 0 (EXT2_BLOCK_SIZE sb)"
    and "part_bytes img p (ucast s) 0 (EXT2_BLOCK_SIZE sb) = fs_block img p (fs_bs sb) b"
proof -
  let ?l = "unat (LOG2_EXT2_BLOCK_SIZE sb)"
  have l: "?l = unat (sb_log2_block_size sb) + 1" "unat (sb_log2_block_size sb) \<le> 6"
    using sane_sizes(2) [OF sb] sb by (simp_all add: sane_sb_def)
  have bs: "fs_bs sb = 512 * 2 ^ ?l" unfolding fs_bs_def l by (simp add: power_add)
  have "512 * (unat b * 2 ^ ?l) < 512 * 2 ^ 32" using b unfolding block_in_def bs by simp
  then have lt: "unat b * 2 ^ ?l < 2 ^ 32" by simp
  then have us: "unat s = unat b * 2 ^ ?l" unfolding s_def using l by (intro slw_small) auto
  then show e: "512 * unat s = unat b * fs_bs sb" unfolding bs by simp
  have "even (unat s)" unfolding us l(1) by simp
  moreover have "odd (unat (4294967295 :: u32))" by simp
  moreover have "(- 1 :: u32) = 4294967295" by simp
  ultimately show "s \<noteq> - 1" by metis
  show "in_part p (ucast s) 0 (EXT2_BLOCK_SIZE sb)"
    using b e sane_sizes(1) [OF sb] by (simp add: in_part_def block_in_def)
  show "part_bytes img p (ucast s) 0 (EXT2_BLOCK_SIZE sb) = fs_block img p (fs_bs sb) b"
    using e sane_sizes(1) [OF sb] by (simp add: part_bytes_def fs_block_def)
qed

lemma cpu32_take: "4 * j + 4 \<le> m \<Longrightarrow> cpu32 (take m bs) (4 * j) = cpu32 bs (4 * j)"
  by (simp add: cpu32_def be32_def slice_def drop_take min_def)


definition ready :: "u32 \<Rightarrow> icache \<Rightarrow> bool" where
  "ready n c \<longleftrightarrow> ic_addr c \<noteq> 0 \<and> ic_size c = n"

lemma vol_alloc1:
  assumes "vol_inv img p (unat n) k w"
  shows "\<exists>w'. cache_alloc slot1 n w = (Inr (), w') \<and> vol_inv img p (unat n) k w'
    \<and> ready n (indir1 w') \<and> indir2 w' = indir2 w"
proof -
  have "roomy (cache_cost (unat n) (fst slot1 w) + (cache_cost (unat n) (indir2 w) + k)) (mem w)"
    and ok: "cache_ok img p (fst slot1 w)"
    using assms by (simp_all add: vol_inv_def slot1_def ac_simps)
  from c1.alloc_ok [OF this] obtain c h where a: "cache_alloc slot1 n w = (Inr (), snd slot1 c (w\<lparr>mem := h\<rparr>))"
    "ic_addr c \<noteq> 0" "ic_size c = n" "cache_ok img p c" "roomy (cache_cost (unat n) (indir2 w) + k) h" by blast
  then show ?thesis
    using assms by (intro exI [of _ "snd slot1 c (w\<lparr>mem := h\<rparr>)"]) (simp add: vol_inv_def slot1_def cache_cost_def ready_def)
qed

lemma vol_alloc2:
  assumes "vol_inv img p (unat n) k w"
  shows "\<exists>w'. cache_alloc slot2 n w = (Inr (), w') \<and> vol_inv img p (unat n) k w'
    \<and> ready n (indir2 w') \<and> indir1 w' = indir1 w"
proof -
  have "roomy (cache_cost (unat n) (fst slot2 w) + (cache_cost (unat n) (indir1 w) + k)) (mem w)"
    and ok: "cache_ok img p (fst slot2 w)"
    using assms by (simp_all add: vol_inv_def slot2_def ac_simps)
  from c2.alloc_ok [OF this] obtain c h where a: "cache_alloc slot2 n w = (Inr (), snd slot2 c (w\<lparr>mem := h\<rparr>))"
    "ic_addr c \<noteq> 0" "ic_size c = n" "cache_ok img p c" "roomy (cache_cost (unat n) (indir1 w) + k) h" by blast
  then show ?thesis
    using assms by (intro exI [of _ "snd slot2 c (w\<lparr>mem := h\<rparr>)"])
      (simp add: vol_inv_def slot2_def cache_cost_def ready_def)
qed

definition holds_block :: "bytes \<Rightarrow> part_t \<Rightarrow> nat \<Rightarrow> u32 \<Rightarrow> icache \<Rightarrow> bool" where
  "holds_block img p bs b c \<longleftrightarrow> (\<forall>j. 4 * j + 4 \<le> bs \<longrightarrow> cpu32 (ic_block c) (4 * j) = fs_entry img p bs b j)"

lemma vol_fill1:
  assumes "block_device fw (p_dev p) img pos" and "part_on img p" and "sane_sb sb" and "block_in p (fs_bs sb) b"
    and inv: "vol_inv img p (fs_bs sb) k w" and rd: "ready (EXT2_BLOCK_SIZE sb) (indir1 w)"
  shows "\<exists>w'. cache_fill fw slot1 (slw b (LOG2_EXT2_BLOCK_SIZE sb)) (EXT2_BLOCK_SIZE sb) w = (Inr (), w')
    \<and> vol_inv img p (fs_bs sb) k w' \<and> indir2 w' = indir2 w \<and> ready (EXT2_BLOCK_SIZE sb) (indir1 w')
    \<and> holds_block img p (fs_bs sb) b (indir1 w')"
proof -
  have p: "the_part w = p" and ok: "cache_ok img p (fst slot1 w)" and sz: "ic_size (fst slot1 w) = EXT2_BLOCK_SIZE sb"
    using inv rd by (simp_all add: vol_inv_def slot1_def ready_def)
  note s = block_sector(2-4) [OF assms(3,4)]
  obtain c s' where f: "cache_fill fw slot1 (slw b (LOG2_EXT2_BLOCK_SIZE sb)) (EXT2_BLOCK_SIZE sb) w = (Inr (), snd slot1 c (w\<lparr>fws := s'\<rparr>))"
    "ic_addr c = ic_addr (fst slot1 w)" "ic_size c = EXT2_BLOCK_SIZE sb" "cache_ok img p c"
    "take (fs_bs sb) (ic_block c) = fs_block img p (fs_bs sb) b"
    using c1.fill_ok [of fw w img pos "slw b (LOG2_EXT2_BLOCK_SIZE sb)" "EXT2_BLOCK_SIZE sb"] assms(1,2) ok sz s
    unfolding p s(3) sane_sizes(1) [OF assms(3)] by metis
  have "holds_block img p (fs_bs sb) b c"
    unfolding holds_block_def fs_entry_def f(5) [symmetric] by (simp add: cpu32_take)
  then show ?thesis using f inv rd
    by (intro exI [of _ "snd slot1 c (w\<lparr>fws := s'\<rparr>)"]) (simp add: vol_inv_def slot1_def cache_cost_def ready_def)
qed

lemma vol_fill2:
  assumes "block_device fw (p_dev p) img pos" and "part_on img p" and "sane_sb sb" and "block_in p (fs_bs sb) b"
    and inv: "vol_inv img p (fs_bs sb) k w" and rd: "ready (EXT2_BLOCK_SIZE sb) (indir2 w)"
  shows "\<exists>w'. cache_fill fw slot2 (slw b (LOG2_EXT2_BLOCK_SIZE sb)) (EXT2_BLOCK_SIZE sb) w = (Inr (), w')
    \<and> vol_inv img p (fs_bs sb) k w' \<and> holds_block img p (fs_bs sb) b (indir2 w')"
proof -
  have p: "the_part w = p" and ok: "cache_ok img p (fst slot2 w)" and sz: "ic_size (fst slot2 w) = EXT2_BLOCK_SIZE sb"
    using inv rd by (simp_all add: vol_inv_def slot2_def ready_def)
  note s = block_sector(2-4) [OF assms(3,4)]
  obtain c s' where f: "cache_fill fw slot2 (slw b (LOG2_EXT2_BLOCK_SIZE sb)) (EXT2_BLOCK_SIZE sb) w = (Inr (), snd slot2 c (w\<lparr>fws := s'\<rparr>))"
    "ic_addr c = ic_addr (fst slot2 w)" "ic_size c = EXT2_BLOCK_SIZE sb" "cache_ok img p c"
    "take (fs_bs sb) (ic_block c) = fs_block img p (fs_bs sb) b"
    using c2.fill_ok [of fw w img pos "slw b (LOG2_EXT2_BLOCK_SIZE sb)" "EXT2_BLOCK_SIZE sb"] assms(1,2) ok sz s
    unfolding p s(3) sane_sizes(1) [OF assms(3)] by metis
  have "holds_block img p (fs_bs sb) b c"
    unfolding holds_block_def fs_entry_def f(5) [symmetric] by (simp add: cpu32_take)
  then show ?thesis using f inv rd
    by (intro exI [of _ "snd slot2 c (w\<lparr>fws := s'\<rparr>)"]) (simp add: vol_inv_def slot2_def cache_cost_def ready_def)
qed


lemma read_block_cases:
  fixes fileblock :: u32
  assumes sane: "sane_sb (ed_sblock (nd_data node))"
  defines "sb \<equiv> ed_sblock (nd_data node)"
  defines "blksz \<equiv> EXT2_BLOCK_SIZE sb" and "l \<equiv> LOG2_EXT2_BLOCK_SIZE sb" and "n \<equiv> fs_bs sb div 4"
  assumes fits: "unat fileblock < 12 + n + n * n"
  shows "unat fileblock < 12 \<Longrightarrow> ext2fs_read_block fw node fileblock = ret (i_dir_block (nd_inode node) (unat fileblock))"
    and "12 \<le> unat fileblock \<Longrightarrow> unat fileblock < 12 + n \<Longrightarrow> ext2fs_read_block fw node fileblock =
           bnd (cache_alloc slot1 blksz) (\<lambda>_.
           bnd (cache_fill fw slot1 (slw (i_indir_block (nd_inode node)) l) blksz) (\<lambda>_.
           cache_entry slot1 (word_of_nat (unat fileblock - 12))))"
    and "12 + n \<le> unat fileblock \<Longrightarrow> ext2fs_read_block fw node fileblock =
           bnd (cache_alloc slot1 blksz) (\<lambda>_.
           bnd (cache_fill fw slot1 (slw (i_double_indir_block (nd_inode node)) l) blksz) (\<lambda>_.
           bnd (cache_alloc slot2 blksz) (\<lambda>_.
           bnd (cache_entry slot1 (word_of_nat ((unat fileblock - 12 - n) div n))) (\<lambda>b2.
           bnd (cache_fill fw slot2 (slw b2 l) blksz) (\<lambda>_.
           cache_entry slot2 (word_of_nat ((unat fileblock - 12 - n) mod n)))))))"
proof -
  define m where "m = (word_of_int (trunc_div (sint blksz) 4) :: u32)"
  have m: "unat m = n" "n \<le> 16384" "256 \<le> n"
    using sane_sizes(4-6) [OF sane] by (simp_all add: m_def n_def blksz_def sb_def)
  have nn: "n * n \<le> 16384 * 16384" using m(2) by (intro mult_mono) auto
  have u12: "unat INDIRECT_BLOCKS = 12" by (simp add: INDIRECT_BLOCKS_def)
  have u1: "unat (INDIRECT_BLOCKS + m) = 12 + n"
    using m unat_plus_no_wrap [of INDIRECT_BLOCKS m] u12 by simp
  have "unat (m + 1) = n + 1" using m unat_plus_no_wrap [of m 1] by simp
  then have "unat (m * (m + 1)) = n * (n + 1)"
    using m nn unat_word_ariths(2) [of m "m + 1"] by simp
  then have u2: "unat (INDIRECT_BLOCKS + m * (m + 1)) = 12 + n * (n + 1)"
    using u12 m nn unat_plus_no_wrap [of INDIRECT_BLOCKS "m * (m + 1)"] by simp
  have fb: "unat fileblock < 2 ^ 31" using fits nn m(2) by simp
  have lt1: "fileblock <s INDIRECT_BLOCKS \<longleftrightarrow> unat fileblock < 12"
    using fb u12 by (simp add: sless_small)
  have lt2: "fileblock <s INDIRECT_BLOCKS + m \<longleftrightarrow> unat fileblock < 12 + n"
    using fb u1 m by (simp add: sless_small)
  have lt3: "fileblock <s INDIRECT_BLOCKS + m * (m + 1)"
    using fb u2 m nn fits by (simp add: sless_small)
  show "unat fileblock < 12 \<Longrightarrow> ext2fs_read_block fw node fileblock = ret (i_dir_block (nd_inode node) (unat fileblock))"
    using lt1 by (simp add: ext2fs_read_block_def Let_def)
  show "ext2fs_read_block fw node fileblock =
           bnd (cache_alloc slot1 blksz) (\<lambda>_.
           bnd (cache_fill fw slot1 (slw (i_indir_block (nd_inode node)) l) blksz) (\<lambda>_.
           cache_entry slot1 (word_of_nat (unat fileblock - 12))))"
    if "12 \<le> unat fileblock" "unat fileblock < 12 + n"
  proof -
    have "fileblock - INDIRECT_BLOCKS = word_of_nat (unat fileblock - 12)"
      using that u12 by (simp add: of_nat_diff INDIRECT_BLOCKS_def)
    then show ?thesis using that lt1 lt2
      unfolding ext2fs_read_block_def Let_def sb_def [symmetric] blksz_def [symmetric] l_def [symmetric] m_def [symmetric]
      by simp
  qed
  show "ext2fs_read_block fw node fileblock =
           bnd (cache_alloc slot1 blksz) (\<lambda>_.
           bnd (cache_fill fw slot1 (slw (i_double_indir_block (nd_inode node)) l) blksz) (\<lambda>_.
           bnd (cache_alloc slot2 blksz) (\<lambda>_.
           bnd (cache_entry slot1 (word_of_nat ((unat fileblock - 12 - n) div n))) (\<lambda>b2.
           bnd (cache_fill fw slot2 (slw b2 l) blksz) (\<lambda>_.
           cache_entry slot2 (word_of_nat ((unat fileblock - 12 - n) mod n)))))))"
    if "12 + n \<le> unat fileblock"
  proof -
    let ?r = "fileblock - (INDIRECT_BLOCKS + m)"
    have "unat ?r = unat fileblock - (12 + n)"
      using that u1 by (simp add: unat_sub word_le_nat_alt)
    then have r: "unat ?r = unat fileblock - 12 - n" by simp
    have "?r div m = word_of_nat (unat (?r div m))" "?r mod m = word_of_nat (unat (?r mod m))" by simp_all
    then have "?r div m = word_of_nat ((unat fileblock - 12 - n) div n)" "?r mod m = word_of_nat ((unat fileblock - 12 - n) mod n)"
      unfolding unat_div_distrib unat_mod_distrib r m(1) by simp_all
    then show ?thesis using that lt1 lt2 lt3
      unfolding ext2fs_read_block_def Let_def sb_def [symmetric] blksz_def [symmetric] l_def [symmetric] m_def [symmetric]
      by simp
  qed
qed


lemma cache_entry1:
  assumes "holds_block img p bs b (indir1 w)" and "4 * j + 4 \<le> bs" and "bs \<le> 65536"
  shows "cache_entry slot1 (word_of_nat j) w = (Inr (fs_entry img p bs b j), w)"
proof -
  have "unat (word_of_nat j :: u32) = j" using assms(2,3) by (intro unat_word_of_nat_small) simp
  then show ?thesis using assms(1,2) by (simp add: cache_entry_def gets_def slot1_def holds_block_def)
qed

lemma cache_entry2:
  assumes "holds_block img p bs b (indir2 w)" and "4 * j + 4 \<le> bs" and "bs \<le> 65536"
  shows "cache_entry slot2 (word_of_nat j) w = (Inr (fs_entry img p bs b j), w)"
proof -
  have "unat (word_of_nat j :: u32) = j" using assms(2,3) by (intro unat_word_of_nat_small) simp
  then show ?thesis using assms(1,2) by (simp add: cache_entry_def gets_def slot2_def holds_block_def)
qed

lemma read_block_ok:
  assumes dev: "block_device fw (p_dev p) img pos" and on: "part_on img p"
    and sane: "sane_sb (ed_sblock (nd_data node))"
    and map: "mapped img p (fs_bs (ed_sblock (nd_data node))) (nd_inode node) (unat k)"
    and inv: "vol_inv img p (fs_bs (ed_sblock (nd_data node))) j w"
  shows "\<exists>w'. ext2fs_read_block fw node k w
      = (Inr (file_block img p (fs_bs (ed_sblock (nd_data node))) (nd_inode node) (unat k)), w')
    \<and> vol_inv img p (fs_bs (ed_sblock (nd_data node))) j w'"
proof -
  let ?sb = "ed_sblock (nd_data node)" and ?ino = "nd_inode node"
  let ?bs = "fs_bs ?sb" and ?B = "EXT2_BLOCK_SIZE ?sb"
  let ?n = "?bs div 4"
  have B: "unat ?B = ?bs" and b: "?bs \<le> 65536" "4 dvd ?bs" "1024 \<le> ?bs" using sane_sizes [OF sane] by simp_all
  have fits: "unat k < 12 + ?n + ?n * ?n" using map by (simp add: mapped_def Let_def)
  note cases = read_block_cases [OF sane fits, of fw]
  have idx: "4 * i + 4 \<le> ?bs" if "i < ?n" for i using that b(2) by auto
  consider (direct) "unat k < 12" | (single) "12 \<le> unat k" "unat k < 12 + ?n" | (double) "12 + ?n \<le> unat k" by linarith
  then show ?thesis
  proof cases
    case direct
    then show ?thesis unfolding cases(1) [OF direct] using inv by (simp add: ret_def file_block_def)
  next
    case single
    have bi: "block_in p ?bs (i_indir_block ?ino)" using map single by (simp add: mapped_def Let_def)
    obtain w1 where w1: "cache_alloc slot1 ?B w = (Inr (), w1)" "vol_inv img p ?bs j w1" "ready ?B (indir1 w1)"
      using vol_alloc1 [of img p ?B j w] inv unfolding B by blast
    obtain w2 where w2: "cache_fill fw slot1 (slw (i_indir_block ?ino) (LOG2_EXT2_BLOCK_SIZE ?sb)) ?B w1 = (Inr (), w2)"
      "vol_inv img p ?bs j w2" "holds_block img p ?bs (i_indir_block ?ino) (indir1 w2)"
      using vol_fill1 [OF dev on sane bi w1(2,3)] by blast
    let ?e = "fs_entry img p ?bs (i_indir_block ?ino) (unat k - 12)"
    have "unat k - 12 < ?n" using single by linarith
    then have e: "cache_entry slot1 (word_of_nat (unat k - 12)) w2 = (Inr ?e, w2)"
      using cache_entry1 [OF w2(3) idx b(1)] by blast
    have "ext2fs_read_block fw node k w = (Inr ?e, w2)"
      unfolding cases(2) [OF single] bnd_def using w1(1) w2(1) e by (simp only: prod.case sum.case)
    then show ?thesis using w2(2) single by (simp add: file_block_def Let_def)
  next
    case double
    let ?d = "i_double_indir_block ?ino" and ?q = "(unat k - 12 - ?n) div ?n" and ?m = "(unat k - 12 - ?n) mod ?n"
    let ?b2 = "fs_entry img p ?bs ?d ?q"
    have bd: "block_in p ?bs ?d" and bi: "block_in p ?bs ?b2" using map double by (simp_all add: mapped_def Let_def)
    obtain w1 where w1: "cache_alloc slot1 ?B w = (Inr (), w1)" "vol_inv img p ?bs j w1" "ready ?B (indir1 w1)"
      using vol_alloc1 [of img p ?B j w] inv unfolding B by blast
    obtain w2 where w2: "cache_fill fw slot1 (slw ?d (LOG2_EXT2_BLOCK_SIZE ?sb)) ?B w1 = (Inr (), w2)"
      "vol_inv img p ?bs j w2" "holds_block img p ?bs ?d (indir1 w2)"
      using vol_fill1 [OF dev on sane bd w1(2,3)] by blast
    obtain w3 where w3: "cache_alloc slot2 ?B w2 = (Inr (), w3)" "vol_inv img p ?bs j w3" "ready ?B (indir2 w3)"
      "indir1 w3 = indir1 w2"
      using vol_alloc2 [of img p ?B j w2] w2(2) unfolding B by blast
    obtain w4 where w4: "cache_fill fw slot2 (slw ?b2 (LOG2_EXT2_BLOCK_SIZE ?sb)) ?B w3 = (Inr (), w4)"
      "vol_inv img p ?bs j w4" "holds_block img p ?bs ?b2 (indir2 w4)"
      using vol_fill2 [OF dev on sane bi w3(2,3)] by blast
    have n0: "0 < ?n" using b by simp
    have "unat k - 12 - ?n < ?n * ?n" using fits double by linarith
    then have q: "?q < ?n" "?m < ?n" using n0 by (simp_all add: div_less_iff_less_mult)
    have e1: "cache_entry slot1 (word_of_nat ?q) w3 = (Inr ?b2, w3)"
      using cache_entry1 [of img p ?bs ?d w3 ?q] w2(3) w3(4) idx [OF q(1)] b(1) by simp
    have e2: "cache_entry slot2 (word_of_nat ?m) w4 = (Inr (fs_entry img p ?bs ?b2 ?m), w4)"
      using cache_entry2 [OF w4(3) idx [OF q(2)] b(1)] .
    have "ext2fs_read_block fw node k w = (Inr (fs_entry img p ?bs ?b2 ?m), w4)"
      unfolding cases(3) [OF double] bnd_def using w1(1) w2(1) w3(1) w4(1) e1 e2 by (simp only: prod.case sum.case)
    then show ?thesis using w4(2) double n0 by (simp add: file_block_def Let_def)
  qed
qed


section \<open>Reading a file\<close>

lemma vol_inv_console: "vol_inv img p bs k (w\<lparr>fws := s', spin := x\<rparr>) = vol_inv img p bs k w"
  by (simp add: vol_inv_def)

lemma vol_inv_fws: "vol_inv img p bs k (w\<lparr>fws := s'\<rparr>) = vol_inv img p bs k w"
  by (simp add: vol_inv_def)

lemma spinner_ok: "\<exists>s'. spinner fw freq w = (Inr (), w\<lparr>fws := s', spin := spin w + 1\<rparr>)"
proof -
  let ?as = "[Va_u (word_of_nat (ccode ((BACKSLASH # ''|/-'') ! unat (spin w div freq mod 4))))]"
  obtain s' where "(if spin w mod freq = 0 then printk fw [CHR ''%'', CHR ''c'', BS] ?as else ret ()) w
      = (Inr (), w\<lparr>fws := s'\<rparr>)"
    using printk_or_not [of "spin w mod freq = 0" fw "[CHR ''%'', CHR ''c'', BS]" ?as w] by (elim exE)
  then have "spinner fw freq w = (Inr (), w\<lparr>fws := s'\<rparr>\<lparr>spin := spin w + 1\<rparr>)"
    unfolding spinner_def Let_def by (subst bnd_Inr) (simp_all add: modify_def)
  then show ?thesis by auto
qed

definition file_byte :: "bytes \<Rightarrow> part_t \<Rightarrow> nat \<Rightarrow> bytes \<Rightarrow> nat \<Rightarrow> u8" where
  "file_byte img p bs ino j =
     (let b = file_block img p bs ino (j div bs) in
      if b = 0 then 0 else img ! (unat (p_start p) + unat b * bs + j mod bs))"

definition readable :: "bytes \<Rightarrow> part_t \<Rightarrow> nat \<Rightarrow> bytes \<Rightarrow> nat \<Rightarrow> bool" where
  "readable img p bs ino k \<longleftrightarrow> mapped img p bs ino k
     \<and> (file_block img p bs ino k = 0 \<or> block_in p bs (file_block img p bs ino k))"

lemma file_bytes_hole:
  assumes "file_block img p bs ino i = 0" and "a \<le> b" and "i * bs \<le> a" and "b \<le> Suc i * bs"
  shows "map (file_byte img p bs ino) [a..<b] = replicate (b - a) 0"
proof (rule nth_equalityI)
  fix j assume "j < length (map (file_byte img p bs ino) [a..<b])"
  then have j: "a + j < b" by simp
  then have "i * bs \<le> a + j" "a + j < Suc i * bs" using assms by linarith+
  then have "(a + j) div bs = i" by (metis div_nat_eqI mult.commute)
  then show "map (file_byte img p bs ino) [a..<b] ! j = replicate (b - a) 0 ! j"
    using j assms(1) by (simp add: file_byte_def)
qed simp

lemma file_bytes_block:
  assumes b: "file_block img p bs ino i = b" "b \<noteq> 0" and "x + n \<le> bs"
    and "unat (p_start p) + unat b * bs + bs \<le> length img"
  shows "map (file_byte img p bs ino) [i * bs + x..<i * bs + x + n]
    = slice (unat (p_start p) + (unat b * bs + x)) n img"
proof (rule nth_equalityI)
  show "length (map (file_byte img p bs ino) [i * bs + x..<i * bs + x + n])
    = length (slice (unat (p_start p) + (unat b * bs + x)) n img)" using assms by simp
next
  fix j assume "j < length (map (file_byte img p bs ino) [i * bs + x..<i * bs + x + n])"
  then have j: "j < n" by simp
  then have xj: "x + j < bs" using assms by linarith
  have "(i * bs + (x + j)) div bs = i" "(i * bs + (x + j)) mod bs = x + j" using xj by simp_all
  then have d: "(i * bs + x + j) div bs = i" "(i * bs + x + j) mod bs = x + j" by (simp_all only: add.assoc)
  have "slice (unat (p_start p) + (unat b * bs + x)) n img ! j = img ! (unat (p_start p) + (unat b * bs + x) + j)"
    using j xj assms(4) by (intro nth_slice) linarith+
  then show "map (file_byte img p bs ino) [i * bs + x..<i * bs + x + n] ! j
      = slice (unat (p_start p) + (unat b * bs + x)) n img ! j"
    using j d b by (simp add: file_byte_def ac_simps)
qed


lemma upt_split: "a \<le> b \<Longrightarrow> b \<le> c \<Longrightarrow> [a..<c] = [a..<b] @ [b..<c]"
  by (metis le_add_diff_inverse upt_add_eq_append)

text \<open>Where the part of block \<open>i\<close> that is read begins and ends, for a request inside \<open>cnt\<close> blocks.\<close>

definition blk_skip :: "nat \<Rightarrow> nat \<Rightarrow> nat \<Rightarrow> nat" where
  "blk_skip bs pos i = (if i = pos div bs then pos mod bs else 0)"

definition blk_end :: "nat \<Rightarrow> nat \<Rightarrow> nat \<Rightarrow> nat \<Rightarrow> nat" where
  "blk_end bs stop cnt i = (if i = cnt - 1 then stop - i * bs else bs)"

definition blk_count :: "nat \<Rightarrow> nat \<Rightarrow> nat" where
  "blk_count bs stop = (stop + bs - 1) div bs"

lemma blk_count_up: "0 < bs \<Longrightarrow> stop \<le> blk_count bs stop * bs"
  unfolding blk_count_def using dividend_less_div_times [of bs "stop + bs - 1"] by (simp add: algebra_simps)

lemma blk_bounds:
  assumes "0 < bs" and "pos < stop" and "pos div bs \<le> i" and "i < blk_count bs stop"
  shows "i * bs + blk_skip bs pos i = max pos (i * bs)" and "blk_skip bs pos i < blk_end bs stop (blk_count bs stop) i"
    and "blk_end bs stop (blk_count bs stop) i \<le> bs" and "i * bs < stop"
    and "Suc i < blk_count bs stop \<Longrightarrow> Suc i * bs < stop"
    and "i = blk_count bs stop - 1 \<Longrightarrow> stop \<le> Suc i * bs"
    and "i = blk_count bs stop - 1 \<Longrightarrow> stop - i * bs = (if stop mod bs = 0 then bs else stop mod bs)"
    and "pos < Suc i * bs"
proof -
  have le: "k < blk_count bs stop \<Longrightarrow> k * bs < stop" for k
  proof -
    assume "k < blk_count bs stop"
    then have "Suc k * bs \<le> stop + bs - 1"
      using assms(1) by (metis Suc_leI blk_count_def less_eq_div_iff_mult_less_eq)
    then show "k * bs < stop" using assms(1,2) by simp
  qed
  show i: "i * bs < stop" using assms(4) by (rule le)
  show "Suc i < blk_count bs stop \<Longrightarrow> Suc i * bs < stop" by (rule le)
  have up: "stop \<le> Suc i * bs" if "i = blk_count bs stop - 1"
  proof -
    have "stop + bs - 1 < (blk_count bs stop + 1) * bs"
      unfolding blk_count_def using assms(1) dividend_less_div_times [of bs "stop + bs - 1"] by (simp add: algebra_simps)
    moreover have "blk_count bs stop = Suc i" using that assms(4) by simp
    ultimately show ?thesis using assms(1) by (simp add: algebra_simps)
  qed
  then show "i = blk_count bs stop - 1 \<Longrightarrow> stop \<le> Suc i * bs" .
  have pos: "pos < (pos div bs + 1) * bs"
    using assms(1) dividend_less_div_times [of bs pos] by (simp add: algebra_simps)
  also have "\<dots> \<le> Suc i * bs" using assms(3) by (intro mult_le_mono1) simp
  finally show ps: "pos < Suc i * bs" .
  have pm: "pos = pos div bs * bs + pos mod bs" by simp
  have far: "pos < i * bs" if "pos div bs < i"
  proof -
    have "(pos div bs + 1) * bs \<le> i * bs" using that by (intro mult_le_mono1) simp
    with pos show ?thesis by linarith
  qed
  show sk: "i * bs + blk_skip bs pos i = max pos (i * bs)"
  proof (cases "i = pos div bs")
    case True
    then have "i * bs + blk_skip bs pos i = pos" using pm by (simp add: blk_skip_def)
    moreover have "i * bs \<le> pos" unfolding True by (rule div_times_less_eq_dividend)
    ultimately show ?thesis by simp
  next
    case False
    then show ?thesis using far assms(3) by (simp add: blk_skip_def)
  qed
  have "i * bs + blk_skip bs pos i < stop" unfolding sk using i assms(2) by simp
  moreover have "blk_skip bs pos i < bs" using assms(1) by (simp add: blk_skip_def)
  ultimately show "blk_skip bs pos i < blk_end bs stop (blk_count bs stop) i"
    by (auto simp: blk_end_def)
  show "blk_end bs stop (blk_count bs stop) i \<le> bs" using up by (auto simp: blk_end_def)
  show "stop - i * bs = (if stop mod bs = 0 then bs else stop mod bs)" if "i = blk_count bs stop - 1"
  proof -
    let ?d = "stop - i * bs"
    have d: "0 < ?d" "?d \<le> bs" "stop = i * bs + ?d" using i up [OF that] by auto
    have "stop mod bs = ?d mod bs" using d(3) by (metis mod_mult_self3)
    then show ?thesis using d(1,2) by (cases "?d = bs") auto
  qed
qed


text \<open>What a request for the bytes from \<open>pos\<close> to \<open>stop\<close> stores; a hole at its end is filled to the end of its block.\<close>

definition file_content :: "bytes \<Rightarrow> part_t \<Rightarrow> nat \<Rightarrow> bytes \<Rightarrow> nat \<Rightarrow> nat \<Rightarrow> bytes" where
  "file_content img p bs ino pos stop =
     map (file_byte img p bs ino) [pos..<stop]
     @ (if file_block img p bs ino (blk_count bs stop - 1) = 0
        then replicate (blk_count bs stop * bs - stop) 0 else [])"

lemma read_chunk:
  fixes node :: ext2fs_node
  defines "sb \<equiv> ed_sblock (nd_data node)" and "ino \<equiv> nd_inode node"
  assumes dev: "block_device fw (p_dev p) img dpos" and on: "part_on img p" and sane: "sane_sb sb"
    and rd: "readable img p (fs_bs sb) ino i"
    and inv: "vol_inv img p (fs_bs sb) j w"
    and x: "unat skip < unat e" "unat e \<le> fs_bs sb"
    and cap: "fs_bs sb = unat (slw 1 (LOG2_EXT2_BLOCK_SIZE sb + 9))"
  shows "\<exists>s'. (let blknr = slw (file_block img p (fs_bs sb) ino i) (LOG2_EXT2_BLOCK_SIZE sb) in
      if blknr \<noteq> 0 then part_read fw (ucast blknr) (ucast skip) (e - skip)
      else ret (replicate (unat (slw 1 (LOG2_EXT2_BLOCK_SIZE sb + 9) - skip)) 0)) w
    = (Inr (if file_block img p (fs_bs sb) ino i = 0 then replicate (fs_bs sb - unat skip) 0
            else map (file_byte img p (fs_bs sb) ino) [i * fs_bs sb + unat skip..<i * fs_bs sb + unat e]), w\<lparr>fws := s'\<rparr>)"
proof -
  let ?bs = "fs_bs sb" and ?b = "file_block img p (fs_bs sb) ino i"
  let ?nr = "slw ?b (LOG2_EXT2_BLOCK_SIZE sb)"
  show ?thesis
  proof (cases "?b = 0")
    case True
    have "unat (slw 1 (LOG2_EXT2_BLOCK_SIZE sb + 9) - skip) = ?bs - unat skip"
      using x cap by (simp add: unat_sub word_le_nat_alt)
    moreover have "?nr = 0" using True by (simp add: slw_def)
    ultimately have "(let blknr = ?nr in
      if blknr \<noteq> 0 then part_read fw (ucast blknr) (ucast skip) (e - skip)
      else ret (replicate (unat (slw 1 (LOG2_EXT2_BLOCK_SIZE sb + 9) - skip)) 0)) w
      = (Inr (if ?b = 0 then replicate (?bs - unat skip) 0
            else map (file_byte img p ?bs ino) [i * ?bs + unat skip..<i * ?bs + unat e]), w\<lparr>fws := fws w\<rparr>)"
      using True by (simp add: ret_def)
    then show ?thesis by (intro exI)
  next
    case False
    have bi: "block_in p ?bs ?b" using rd False by (simp add: readable_def)
    note s = block_sector(1) [OF sane bi]
    have "unat ?b \<noteq> 0" using False by (simp add: unat_eq_0)
    then have nz: "?nr \<noteq> 0" using s sane_sizes(5) [OF sane] by (metis mult_eq_0_iff not_numeral_le_zero unat_0)
    have n: "unat (e - skip) = unat e - unat skip" using x(1) by (simp add: unat_sub word_le_nat_alt)
    have "unat (ucast skip :: u64) = unat skip" "unat (ucast ?nr :: u64) = unat ?nr" by simp_all
    moreover have ub: "unat ?b * ?bs + ?bs < unat (p_len p)" using bi by (simp add: block_in_def)
    ultimately have inp: "in_part p (ucast ?nr) (ucast skip) (e - skip)"
      using x n s by (simp add: in_part_def)
    have "part_bytes img p (ucast ?nr) (ucast skip) (e - skip)
        = slice (unat (p_start p) + (unat ?b * ?bs + unat skip)) (unat e - unat skip) img"
      using s n by (simp add: part_bytes_def)
    also have "\<dots> = map (file_byte img p ?bs ino) [i * ?bs + unat skip..<i * ?bs + unat skip + (unat e - unat skip)]"
      using ub on x by (intro file_bytes_block [symmetric] refl False) (simp_all add: part_on_def)
    finally have pb: "part_bytes img p (ucast ?nr) (ucast skip) (e - skip)
        = map (file_byte img p ?bs ino) [i * ?bs + unat skip..<i * ?bs + unat e]" using x by simp
    have p: "the_part w = p" using inv by (simp add: vol_inv_def)
    have "unat (ucast ?nr :: u64) < 2 ^ 50" "unat (ucast skip :: u64) < 2 ^ 32"
      using unat_lt_u32 [of ?nr] unat_lt_u32 [of skip] by simp_all
    then obtain s' where "part_read_into fw (ucast ?nr) (ucast skip) (e - skip) w =
      (Inr (None, part_bytes img p (ucast ?nr) (ucast skip) (e - skip)), w\<lparr>fws := s'\<rparr>)"
      using part_read_into_eq [of fw w img dpos "ucast ?nr" "ucast skip" "e - skip"] dev on inp unfolding p by auto
    then have "part_read fw (ucast ?nr) (ucast skip) (e - skip) w =
      (Inr (part_bytes img p (ucast ?nr) (ucast skip) (e - skip)), w\<lparr>fws := s'\<rparr>)"
      by (simp add: part_read_def bnd_def ret_def)
    then show ?thesis using nz False pb by auto
  qed
qed


lemma read_blocks_ok:
  fixes node :: ext2fs_node and pos len :: u32
  defines "sb \<equiv> ed_sblock (nd_data node)" and "ino \<equiv> nd_inode node"
  defines "bs \<equiv> fs_bs sb" and "stop \<equiv> unat pos + unat len"
  assumes dev: "block_device fw (p_dev p) img dpos" and on: "part_on img p" and sane: "sane_sb sb"
    and fits: "stop + bs < 2 ^ 32" and len: "0 < unat len"
    and cnt: "unat blockcnt = blk_count bs stop"
    and rd: "\<And>k. unat pos div bs \<le> k \<Longrightarrow> k < blk_count bs stop \<Longrightarrow> readable img p bs ino k"
    and i: "unat pos div bs \<le> unat i" "unat i \<le> blk_count bs stop"
    and inv: "vol_inv img p bs j w"
  shows "\<exists>w'. read_blocks fw node pos len blockcnt i w
      = (Inr (if unat i < blk_count bs stop
              then file_content img p bs ino (max (unat pos) (unat i * bs)) stop else []), w')
    \<and> vol_inv img p bs j w'"
  using i inv
proof (induction "blk_count bs stop - unat i" arbitrary: i w)
  case 0
  then have "unat i = blk_count bs stop" by simp
  then have "\<not> i < blockcnt" using cnt by (simp add: word_less_nat_alt)
  then show ?case using 0 by (simp add: read_blocks.simps [of fw node pos len blockcnt i] ret_def)
next
  case (Suc d)
  let ?n = "blk_count bs stop" and ?B = "slw 1 (LOG2_EXT2_BLOCK_SIZE sb + 9)"
  have i: "unat i < ?n" using Suc.hyps(2) by linarith
  then have ltc: "i < blockcnt" using cnt by (simp add: word_less_nat_alt)
  have B: "unat ?B = bs" and bs: "1024 \<le> bs" using sane_sizes(1,3,5) [OF sane] by (simp_all add: bs_def)
  have bs0: "0 < bs" and ps: "unat pos < stop" using bs len by (simp_all add: stop_def)
  note bnd = blk_bounds [OF bs0 ps Suc.prems(1) i]
  define skip where "skip = (if i = pos div ?B then pos mod ?B else 0)"
  define e where "e = (if i = blockcnt - 1
                then (let e = (len + pos) mod ?B in if e = 0 then ?B else e) else ?B)"
  have ipos: "i = pos div ?B \<longleftrightarrow> unat i = unat pos div bs"
    by (simp add: word_unat_eq_iff unat_div_distrib B)
  have us: "unat skip = blk_skip bs (unat pos) (unat i)"
    by (simp add: skip_def blk_skip_def ipos unat_mod_distrib B)
  have "unat len + unat pos < 2 ^ LENGTH(32)" using fits unfolding stop_def by simp
  then have "unat (len + pos) = unat len + unat pos" by (rule unat_plus_no_wrap)
  then have "unat (len + pos) = stop" unfolding stop_def by linarith
  then have um: "unat ((len + pos) mod ?B) = stop mod bs" by (simp add: unat_mod_distrib B)
  have "1 \<le> blockcnt" using cnt i by (simp add: word_le_nat_alt)
  then have "unat (blockcnt - 1) = ?n - 1" using cnt by (simp add: unat_sub)
  then have ilast: "i = blockcnt - 1 \<longleftrightarrow> unat i = ?n - 1" by (simp add: word_unat_eq_iff)
  have ue: "unat e = blk_end bs stop ?n (unat i)"
    using bnd(7) um B by (auto simp: e_def blk_end_def ilast Let_def unat_eq_0 [symmetric])
  have x: "unat skip < unat e" "unat e \<le> fs_bs sb" using bnd(2,3) by (simp_all add: us ue bs_def)
  obtain s1 where sp: "spinner fw 5 w = (Inr (), w\<lparr>fws := s1, spin := spin w + 1\<rparr>)" using spinner_ok [of fw 5 w] by blast
  let ?w1 = "w\<lparr>fws := s1, spin := spin w + 1\<rparr>"
  have inv1: "vol_inv img p bs j ?w1" using Suc.prems(3) by (simp only: vol_inv_console)
  have rdi: "readable img p bs ino (unat i)" using rd [OF Suc.prems(1) i] .
  let ?b = "file_block img p bs ino (unat i)"
  obtain w2 where rb: "ext2fs_read_block fw node i ?w1 = (Inr ?b, w2)" and inv2: "vol_inv img p bs j w2"
    using read_block_ok [OF dev on, of node i j ?w1] sane rdi inv1
    by (auto simp: readable_def sb_def ino_def bs_def)
  let ?chunk = "if ?b = 0 then replicate (bs - unat skip) 0
            else map (file_byte img p bs ino) [unat i * bs + unat skip..<unat i * bs + unat e]"
  let ?io = "let blknr = slw ?b (LOG2_EXT2_BLOCK_SIZE sb) in
      if blknr \<noteq> 0 then part_read fw (ucast blknr) (ucast skip) (e - skip)
      else ret (replicate (unat (?B - skip)) 0)"
  have "\<exists>s3. ?io w2 = (Inr ?chunk, w2\<lparr>fws := s3\<rparr>)"
    unfolding sb_def ino_def bs_def
    by (rule read_chunk [OF dev on, of node "unat i" j w2 skip e])
      (use sane rdi inv2 x B in \<open>simp_all add: sb_def ino_def bs_def\<close>)
  then obtain s3 where ch: "?io w2 = (Inr ?chunk, w2\<lparr>fws := s3\<rparr>)" by (elim exE)
  let ?w3 = "w2\<lparr>fws := s3\<rparr>"
  have inv3: "vol_inv img p bs j ?w3" using inv2 by (simp only: vol_inv_fws)
  have ui: "unat (i + 1) = unat i + 1" using i cnt unat_lt_u32 [of blockcnt] unat_plus_no_wrap [of i 1] by simp
  have "d = ?n - unat (i + 1)" "unat pos div bs \<le> unat (i + 1)" "unat (i + 1) \<le> ?n"
    using Suc.hyps(2) Suc.prems(1) i ui by simp_all
  from Suc.hyps(1) [OF this inv3] obtain w4 where rest: "read_blocks fw node pos len blockcnt (i + 1) ?w3
      = (Inr (if unat (i + 1) < ?n
              then file_content img p bs ino (max (unat pos) (unat (i + 1) * bs)) stop else []), w4)"
    and inv4: "vol_inv img p bs j w4" by blast
  have eq: "read_blocks fw node pos len blockcnt i w = (Inr (?chunk @
      (if unat (i + 1) < ?n then file_content img p bs ino (max (unat pos) (unat (i + 1) * bs)) stop else [])), w4)"
    unfolding read_blocks.simps [of fw node pos len blockcnt i] if_P [OF ltc] Let_def sb_def [symmetric]
      skip_def [symmetric] e_def [unfolded Let_def, symmetric]
    using sp rb ch [unfolded Let_def] rest unfolding bnd_def ret_def by (simp only: prod.case sum.case)
  have "?chunk @ (if unat (i + 1) < ?n then file_content img p bs ino (max (unat pos) (unat (i + 1) * bs)) stop else [])
      = file_content img p bs ino (max (unat pos) (unat i * bs)) stop"
  proof (cases "Suc (unat i) < ?n")
    case True
    then have "unat i \<noteq> ?n - 1" by linarith
    then have e: "unat e = bs" by (simp add: ue blk_end_def)
    have c: "?chunk = map (file_byte img p bs ino) [unat i * bs + unat skip..<Suc (unat i) * bs]"
    proof (cases "?b = 0")
      case True
      have "unat skip \<le> bs" using x(1) e by linarith
      then have "map (file_byte img p bs ino) [unat i * bs + unat skip..<Suc (unat i) * bs]
          = replicate (Suc (unat i) * bs - (unat i * bs + unat skip)) 0"
        using True by (intro file_bytes_hole [of img p bs ino "unat i"]) simp_all
      then show ?thesis using True by simp
    next
      case False
      then show ?thesis using e by (simp add: add.commute)
    qed
    have "max (unat pos) (Suc (unat i) * bs) = Suc (unat i) * bs" using bnd(8) by simp
    moreover have "[unat i * bs + unat skip..<stop] = [unat i * bs + unat skip..<Suc (unat i) * bs] @ [Suc (unat i) * bs..<stop]"
      using x(1) e bnd(5) [OF True] by (intro upt_split) simp_all
    ultimately show ?thesis using True ui c by (simp add: file_content_def us bnd(1))
  next
    case False
    then have last: "unat i = ?n - 1" using i by linarith
    then have e: "unat e = stop - unat i * bs" by (simp add: ue blk_end_def)
    have up: "stop \<le> Suc (unat i) * bs" using bnd(6) [OF last] .
    have sk: "unat i * bs + unat skip < stop" using bnd(1) bnd(4) ps by (simp add: us)
    have "?chunk = file_content img p bs ino (unat i * bs + unat skip) stop"
    proof (cases "?b = 0")
      case True
      have "map (file_byte img p bs ino) [unat i * bs + unat skip..<stop] = replicate (stop - (unat i * bs + unat skip)) 0"
        using True sk up by (intro file_bytes_hole [of img p bs ino "unat i"]) simp_all
      moreover have "blk_count bs stop * bs = Suc (unat i) * bs" using last i by simp
      ultimately show ?thesis using True last sk up
        by (simp add: file_content_def replicate_add [symmetric])
    next
      case False
      then show ?thesis using e last bnd(4) by (simp add: file_content_def)
    qed
    then show ?thesis using False ui by (simp add: us bnd(1))
  qed
  then show ?case using eq inv4 i by (simp only: if_True) blast
qed


definition request_ok :: "bytes \<Rightarrow> part_t \<Rightarrow> ext2fs_node \<Rightarrow> nat \<Rightarrow> nat \<Rightarrow> bool" where
  "request_ok img p node pos stop \<longleftrightarrow>
     (let bs = fs_bs (ed_sblock (nd_data node)) in
      pos < stop \<and> stop + bs < 2 ^ 32
      \<and> (\<forall>k \<in> {pos div bs..<blk_count bs stop}. readable img p bs (nd_inode node) k))"

lemma read_file_ok:
  fixes node :: ext2fs_node and pos len :: u32
  defines "sb \<equiv> ed_sblock (nd_data node)"
  defines "stop \<equiv> unat pos + unat (min len (i_size (nd_inode node)))"
  assumes dev: "block_device fw (p_dev p) img dpos" and on: "part_on img p" and sane: "sane_sb sb"
    and req: "request_ok img p node (unat pos) stop" and inv: "vol_inv img p (fs_bs sb) j w"
  shows "\<exists>w'. ext2fs_read_file fw node pos len w
      = (Inr (file_content img p (fs_bs sb) (nd_inode node) (unat pos) stop), w')
    \<and> vol_inv img p (fs_bs sb) j w'"
proof -
  let ?bs = "fs_bs sb" and ?B = "slw 1 (LOG2_EXT2_BLOCK_SIZE sb + 9)" and ?n = "min len (i_size (nd_inode node))"
  have B: "unat ?B = ?bs" and bs: "1024 \<le> ?bs" using sane_sizes(1,3,5) [OF sane] by simp_all
  have r: "unat pos < stop" "stop + ?bs < 2 ^ 32"
    "\<And>k. unat pos div ?bs \<le> k \<Longrightarrow> k < blk_count ?bs stop \<Longrightarrow> readable img p ?bs (nd_inode node) k"
    using req by (simp_all add: request_ok_def Let_def sb_def)
  have n0: "0 < unat ?n" using r(1) unfolding stop_def by linarith
  have s1: "unat (?n + pos) = unat ?n + unat pos"
    using r(2) unfolding stop_def by (intro unat_plus_no_wrap) simp
  then have s2: "unat (?n + pos + ?B) = stop + ?bs"
    using r(2) B unat_plus_no_wrap [of "?n + pos" ?B] unfolding stop_def by simp
  have "1 \<le> ?n + pos + ?B" using s2 bs by (simp add: word_le_nat_alt)
  then have "unat (?n + pos + ?B - 1) = stop + ?bs - 1" using s2 by (simp add: unat_sub)
  then have cnt: "unat ((?n + pos + ?B - 1) div ?B) = blk_count ?bs stop"
    by (simp add: unat_div_distrib B blk_count_def)
  have first: "unat (pos div ?B) = unat pos div ?bs" by (simp add: unat_div_distrib B)
  have "?bs \<noteq> 0" using bs by linarith
  then have "(unat pos + ?bs) div ?bs = unat pos div ?bs + 1" by (rule div_add_self2)
  moreover have "(unat pos + ?bs) div ?bs \<le> blk_count ?bs stop"
    unfolding blk_count_def using r(1) by (intro div_le_mono) simp
  ultimately have "unat pos div ?bs < blk_count ?bs stop" by linarith
  then have lt: "unat (pos div ?B) < blk_count ?bs stop" unfolding first .
  have mx: "max (unat pos) (unat (pos div ?B) * ?bs) = unat pos" by (simp add: first)
  have "\<exists>w'. read_blocks fw node pos ?n ((?n + pos + ?B - 1) div ?B) (pos div ?B) w
      = (Inr (if unat (pos div ?B) < blk_count ?bs stop
              then file_content img p ?bs (nd_inode node) (max (unat pos) (unat (pos div ?B) * ?bs)) stop else []), w')
    \<and> vol_inv img p ?bs j w'"
    unfolding sb_def stop_def
    by (rule read_blocks_ok [OF dev on]) (use sane r n0 cnt first lt inv in \<open>simp_all add: sb_def stop_def\<close>)
  then show ?thesis using lt mx by (simp add: ext2fs_read_file_def Let_def sb_def)
qed


lemma cpu32_le: "off + 4 \<le> length bs \<Longrightarrow> cpu32 bs off = le32 bs off"
  by (simp add: cpu32_def swab32_be32)

lemma cpu16_le: "off + 2 \<le> length bs \<Longrightarrow> cpu16 bs off = le16 bs off"
  by (simp add: cpu16_def swab16_be16)

lemmas le_eval = le32_def le16_def le_nat_def be_nat_def slice_def

text \<open>A volume: block 1 holds two block numbers, and the text of a file stands in block 2.\<close>

definition demo_volume :: bytes where
  "demo_volume = replicate 1024 0 @ [2, 0, 0, 0, 9, 0, 0, 0] @ replicate 1016 0 @ map byte ''iquik'' @ replicate 1024 0"

definition demo_part :: part_t where
  "demo_part = part_zero\<lparr>p_len := 3077\<rparr>"

definition demo_node :: "u32 \<Rightarrow> u32 \<Rightarrow> ext2fs_node" where
  "demo_node direct indirect = \<lparr>nd_addr = 0, nd_data = \<lparr>ed_addr = 0, ed_sblock = replicate 204 0\<rparr>,
     nd_inode = replicate 4 0 @ [5, 0, 0, 0] @ replicate 32 0 @ rev (bytes32 direct) @ replicate 44 0
       @ rev (bytes32 indirect) @ replicate 36 0,
     nd_ino = 11, nd_read = True\<rparr>"

definition demo_loader :: "part_t \<Rightarrow> nat emachine" where
  "demo_loader p = pmachine.extend (demo_disk p)
     \<lparr>fs_root = None, fs_file = None, symlinknest = 0, indir1 = icache_none, indir2 = icache_none, inode_size = 128\<rparr>"

lemma demo_loader_inv: "vol_inv img p 1024 0 (demo_loader p)"
  by (simp add: vol_inv_def demo_loader_def demo_disk_def demo_machine_def machine.defs pmachine.defs icache_none_def
      cache_ok_def cache_cost_def roomy_def heap_start_def layout_defs)

lemma demo_sb: "fs_bs (ed_sblock (nd_data (demo_node d i))) = 1024" "sane_sb (ed_sblock (nd_data (demo_node d i)))"
  by (simp_all add: demo_node_def fs_bs_def sane_sb_def sb_log2_block_size_def cpu32_le le_eval numeral_eq_Suc)

lemma demo_disk_ok: "block_device (ram_disk img) (p_dev demo_part) img (\<lambda>p. p)" "part_on demo_volume demo_part"
  by (simp_all add: ram_disk_device part_on_def demo_part_def part_zero_def demo_volume_def)

section \<open>Properties\<close>

text \<open>A sequence of block lookups, possibly in several files.\<close>

fun read_seq :: "'s firmware \<Rightarrow> (ext2fs_node \<times> u32) list \<Rightarrow> ('s, 'z, u32 list) eprog" where
  "read_seq fw [] = ret []"
| "read_seq fw ((node, k) # ks) = bnd (ext2fs_read_block fw node k) (\<lambda>b. bnd (read_seq fw ks) (\<lambda>bs. ret (b # bs)))"

text \<open>
  Property C5: any sequence of lookups through the two caches gives what the pure block map of
  each file gives, on a volume whose block pointers lie inside the partition: the caches are
  invisible, and they stay coherent with the partition.
\<close>

theorem read_block_refines:
  assumes "block_device fw (p_dev p) img pos" and "part_on img p"
    and "\<forall>(node, k) \<in> set ks. ed_sblock (nd_data node) = sb \<and> mapped img p (fs_bs sb) (nd_inode node) (unat k)"
    and "sane_sb sb" and "vol_inv img p (fs_bs sb) j w"
  shows "\<exists>w'. read_seq fw ks w
      = (Inr (map (\<lambda>(node, k). file_block img p (fs_bs sb) (nd_inode node) (unat k)) ks), w')
    \<and> vol_inv img p (fs_bs sb) j w'"
  using assms(3,5)
proof (induction ks arbitrary: w)
  case (Cons x ks)
  obtain node k where x: "x = (node, k)" by fastforce
  obtain w1 where 1: "ext2fs_read_block fw node k w
      = (Inr (file_block img p (fs_bs sb) (nd_inode node) (unat k)), w1)" "vol_inv img p (fs_bs sb) j w1"
    using read_block_ok [OF assms(1,2), of node k j w] Cons.prems assms(4) by (auto simp: x)
  obtain w2 where 2: "read_seq fw ks w1
      = (Inr (map (\<lambda>(node, k). file_block img p (fs_bs sb) (nd_inode node) (unat k)) ks), w2)"
      "vol_inv img p (fs_bs sb) j w2"
    using Cons.IH [OF _ 1(2)] Cons.prems(1) by auto
  show ?case using 1(1) 2 by (intro exI [of _ w2]) (simp add: x bnd_def ret_def)
qed (simp add: ret_def)

text \<open>One block through the indirect block, one direct.\<close>

theorem read_block_refines_witness:
  "fst (read_seq (ram_disk demo_volume) [(demo_node 7 1, 13), (demo_node 7 1, 0)] (demo_loader demo_part)) = Inr [9, 7]"
proof -
  let ?p = demo_part and ?i = "nd_inode (demo_node 7 1)"
  have ib: "i_indir_block ?i = 1" "i_dir_block ?i 0 = 7"
    by (simp_all add: demo_node_def i_indir_block_def i_dir_block_def cpu32_le le_eval bytes32_def)
  have e: "fs_entry demo_volume ?p 1024 1 (Suc 0) = 9"
    by (simp add: fs_entry_def fs_block_def cpu32_le le_eval demo_volume_def demo_part_def part_zero_def)
  have "mapped demo_volume ?p 1024 ?i 13" "mapped demo_volume ?p 1024 ?i 0"
    by (simp_all add: mapped_def Let_def ib block_in_def demo_part_def part_zero_def)
  moreover have "file_block demo_volume ?p 1024 ?i 13 = 9" "file_block demo_volume ?p 1024 ?i 0 = 7"
    by (simp_all add: file_block_def ib e)
  ultimately show ?thesis
    using read_block_refines [OF demo_disk_ok, of "[(demo_node 7 1, 13), (demo_node 7 1, 0)]"
        "ed_sblock (nd_data (demo_node 7 1))" 0 "demo_loader demo_part"] demo_loader_inv
    by (auto simp: demo_sb)
qed



end
