(* ===== verification/Ext2frame.thy ===== *)
theory Ext2frame
  imports File Ext2spec
begin

unbundle bit_operations_syntax

named_theorems frame \<open>steps that keep a predicate of the state\<close>

text \<open>
  What the file system code leaves alone.  The locale \<open>fs_frame\<close> is the contract of a predicate
  of the state that does not look at the console, the heap and the caches: every operation on
  files and directories keeps it.  It extends \<open>io_frame\<close>, for what only reads the partition;
  \<open>nav_frame\<close> is for whole lookups and \<open>mount_frame\<close> for opening a volume.  The interpretation on
  the counter of links gives the bound on the recursion of the path lookup, the one on the
  caches shows that they outlive the partition they were read from.
\<close>

lemma fw_only_keeps:
  assumes "fw_only m" and "\<And>w s. P (w\<lparr>fws := s\<rparr>) = P w"
  shows "keeps P m"
proof (rule keepsI)
  fix w assume "P w"
  obtain r s' where "m w = (r, w\<lparr>fws := s'\<rparr>)" using assms(1) by (rule fw_onlyE)
  then show "P (snd (m w))" using \<open>P w\<close> assms(2) by simp
qed

lemma fw_only_call_prom' [simp]: "fw_only (\<lambda>w. call_prom fw srv n r (as w) w)"
  by (rule fw_only_state) simp

lemma fw_only_disk_read [intro, simp]: "fw_only (disk_read fw dev n off)"
  unfolding disk_read_def by (intro fw_only_if fw_only_bnd) (auto intro!: fw_only_bnd fw_only_if split: prod.split)

locale io_frame =
  fixes P :: "('s, 'z) emachine_scheme \<Rightarrow> bool"
  assumes P_fws [simp]: "P (w\<lparr>fws := s\<rparr>) = P w"
    and P_mem [simp]: "P (w\<lparr>mem := h\<rparr>) = P w"
begin

lemma step_bnd [frame]: "P (snd (m w)) \<Longrightarrow> (\<And>x w'. P w' \<Longrightarrow> P (snd (k x w'))) \<Longrightarrow> P (snd (bnd m k w))"
  by (auto simp: bnd_def split: prod.splits sum.splits)

lemma step_catch [frame]: "P (snd (m w)) \<Longrightarrow> P (snd (catch m w))"
  by (auto simp: catch_def split: prod.splits sum.splits stop.splits)

lemma step_ret [frame]: "P w \<Longrightarrow> P (snd (ret x w))"
  by (simp add: ret_def)

lemma step_throw [frame]: "P w \<Longrightarrow> P (snd (throw e w))"
  by (simp add: throw_def)

lemma step_pair [frame]: "P w \<Longrightarrow> P (snd (r, w))"
  by simp

lemma step_gets [frame]: "P w \<Longrightarrow> P (snd (gets f w))"
  by (simp add: gets_def)

lemma step_if [frame]:
  "(b \<Longrightarrow> P (snd (m w))) \<Longrightarrow> (\<not> b \<Longrightarrow> P (snd (n w))) \<Longrightarrow> P (snd ((if b then m else n) w))"
  "(b \<Longrightarrow> P (snd x)) \<Longrightarrow> (\<not> b \<Longrightarrow> P (snd y)) \<Longrightarrow> P (snd (if b then x else y))"
  by simp_all

lemma step_sum [frame]:
  "(\<And>a. P (snd (f a w))) \<Longrightarrow> (\<And>b. P (snd (g b w))) \<Longrightarrow> P (snd ((case r of Inl a \<Rightarrow> f a | Inr b \<Rightarrow> g b) w))"
  by (cases r) simp_all

lemma step_option [frame]:
  "P (snd (f w)) \<Longrightarrow> (\<And>b. P (snd (g b w))) \<Longrightarrow> P (snd ((case r of None \<Rightarrow> f | Some b \<Rightarrow> g b) w))"
  by (cases r) simp_all

lemma step_prod [frame]: "(\<And>a b. P (snd (f a b w))) \<Longrightarrow> P (snd ((case r of (a, b) \<Rightarrow> f a b) w))"
  by (cases r) simp_all

lemma step_fw: "fw_only m \<Longrightarrow> P w \<Longrightarrow> P (snd (m w))"
  using keepsD [OF fw_only_keeps [of m P]] by simp

lemma step_free [frame]: "P w \<Longrightarrow> P (snd (freeM a w))"
  by (simp add: freeM_def modify_def)

lemma step_alloc [frame]: "P w \<Longrightarrow> P (snd (mallocM n w))"
  by (simp add: mallocM_def split: prod.split)

lemma step_disk_read [frame]: "P w \<Longrightarrow> P (snd (disk_read fw dev n off w))"
  by (rule step_fw) simp

lemma step_printk [frame]: "P w \<Longrightarrow> P (snd (printk fw fmt as w))"
  by (rule step_fw) simp

lemma step_read_into [frame]: "P w \<Longrightarrow> P (snd (part_read_into fw sector off n w))"
  unfolding part_read_into_def Let_def by (assumption | rule frame)+

lemma step_read [frame]: "P w \<Longrightarrow> P (snd (part_read fw sector off n w))"
  unfolding part_read_def by (assumption | rule frame)+

lemma step_blockgroup [frame]: "P w \<Longrightarrow> P (snd (ext2fs_blockgroup fw sb grp w))"
  unfolding ext2fs_blockgroup_def Let_def by (rule frame)

lemma step_read_inode [frame]: "P w \<Longrightarrow> P (snd (ext2fs_read_inode fw sb ino w))"
  unfolding ext2fs_read_inode_def Let_def by (assumption | rule frame)+

end

locale fs_frame = io_frame P for P :: "('s, 'z) emachine_scheme \<Rightarrow> bool" +
  assumes P_spin [simp]: "P (w\<lparr>spin := x\<rparr>) = P w"
    and P_indir1 [simp]: "P (w\<lparr>indir1 := c\<rparr>) = P w"
    and P_indir2 [simp]: "P (w\<lparr>indir2 := c\<rparr>) = P w"
begin

lemma step_spinner [frame]: "P w \<Longrightarrow> P (snd (spinner fw freq w))"
  unfolding spinner_def Let_def by (assumption | rule frame)+ (simp add: modify_def)

lemma step_upd [frame]:
  "P w \<Longrightarrow> P (snd (upd_slot slot1 f w))" "P w \<Longrightarrow> P (snd (upd_slot slot2 f w))"
  by (simp_all add: upd_slot_def slot1_def slot2_def modify_def)

lemma step_cache_alloc [frame]:
  "P w \<Longrightarrow> P (snd (cache_alloc slot1 b w))" "P w \<Longrightarrow> P (snd (cache_alloc slot2 b w))"
  unfolding cache_alloc_def by (assumption | rule frame)+

lemma step_cache_fill [frame]:
  "P w \<Longrightarrow> P (snd (cache_fill fw slot1 k b w))" "P w \<Longrightarrow> P (snd (cache_fill fw slot2 k b w))"
  unfolding cache_fill_def by (assumption | rule frame)+

lemma step_read_block [frame]: "P w \<Longrightarrow> P (snd (ext2fs_read_block fw node k w))"
  unfolding ext2fs_read_block_def cache_entry_def Let_def by (assumption | rule frame)+

lemma step_read_blocks [frame]: "P w \<Longrightarrow> P (snd (read_blocks fw node pos len cnt i w))"
proof (induction fw node pos len cnt i arbitrary: w rule: read_blocks.induct)
  case (1 fw node pos len cnt i)
  show ?case
    unfolding read_blocks.simps [of fw node pos len cnt i] Let_def
    by (assumption | rule frame 1 refl)+
qed

lemma step_read_file [frame]: "P w \<Longrightarrow> P (snd (ext2fs_read_file fw node pos len w))"
  unfolding ext2fs_read_file_def Let_def by (rule frame)

lemma step_free_node [frame]: "P w \<Longrightarrow> P (snd (ext2fs_free_node a r w))"
  unfolding ext2fs_free_node_def by (assumption | rule frame)+

lemma step_read_or_free [frame]: "P w \<Longrightarrow> P (snd (read_or_free fw sb ino a w))"
  unfolding read_or_free_def by (assumption | rule frame)+

lemma step_dir_entry [frame]: "P w \<Longrightarrow> P (snd (dir_entry fw diro fpos de w))"
  unfolding dir_entry_def Let_def by (assumption | rule frame)+

lemma step_list_entry [frame]: "P w \<Longrightarrow> P (snd (list_entry fw nm node t w))"
  unfolding list_entry_def by (assumption | rule frame)+

lemma step_dir_loop [frame]: "P w \<Longrightarrow> P (snd (dir_loop fw diro name fpos n w))"
proof (induction n arbitrary: fpos w)
  case 0
  then show ?case by (simp add: throw_def)
next
  case (Suc n)
  show ?case unfolding dir_loop.simps Let_def using Suc.prems by - (assumption | rule frame Suc.IH)+
qed

lemma step_iterate_dir [frame]: "P w \<Longrightarrow> P (snd (ext2fs_iterate_dir fw dir name w))"
  unfolding ext2fs_iterate_dir_def by (assumption | rule frame)+

lemma step_read_symlink [frame]: "P w \<Longrightarrow> P (snd (ext2fs_read_symlink fw node w))"
  unfolding ext2fs_read_symlink_def Let_def by (assumption | rule frame)+

end

section \<open>The nesting of symbolic links\<close>

text \<open>With \<open>n\<close> calls to spare the counter reaches its limit before they are used up.\<close>

definition spare :: "u32 \<Rightarrow> nat \<Rightarrow> ('s, 'z) emachine_scheme \<Rightarrow> bool" where
  "spare c n w \<longleftrightarrow> c \<le> symlinknest w \<and> unat (symlinknest w) < 8 \<and> 8 \<le> n + unat (symlinknest w)"

interpretation nest: fs_frame "spare c n" for c n
  by unfold_locales (simp_all add: spare_def)

text \<open>Two computations agree from a state with calls to spare, and leave as many.\<close>

definition agree :: "u32 \<Rightarrow> nat \<Rightarrow> ('s, 'z, 'a) eprog \<Rightarrow> ('s, 'z, 'a) eprog \<Rightarrow> ('s, 'z) emachine_scheme \<Rightarrow> bool" where
  "agree c n m m' w \<longleftrightarrow> spare c n w \<longrightarrow> m w = m' w \<and> (\<forall>x w'. m w = (Inr x, w') \<longrightarrow> spare c n w')"

lemma agreeI:
  "(spare c n w \<Longrightarrow> m w = m' w) \<Longrightarrow> (\<And>x w'. spare c n w \<Longrightarrow> m w = (Inr x, w') \<Longrightarrow> spare c n w') \<Longrightarrow> agree c n m m' w"
  unfolding agree_def by blast

lemma agreeD:
  assumes "agree c n m m' w" and "spare c n w"
  shows "m w = m' w" and "m w = (Inr x, w') \<Longrightarrow> spare c n w'"
  using assms unfolding agree_def by blast+

lemma agree_same: "(spare c n w \<Longrightarrow> spare c n (snd (m w))) \<Longrightarrow> agree c n m m w"
  by (rule agreeI) simp_all

lemma agree_bnd:
  assumes m: "agree c n m m' w" and k: "\<And>x w'. agree c n (k x) (k' x) w'"
  shows "agree c n (bnd m k) (bnd m' k') w"
proof (rule agreeI)
  assume sp: "spare c n w"
  note eq = agreeD [OF m sp]
  show "bnd m k w = bnd m' k' w"
  proof (cases "m w")
    case (Pair r w1)
    then show ?thesis using eq(1) eq(2) agreeD(1) [OF k] by (cases r) (simp_all add: bnd_def)
  qed
  fix x w' assume "bnd m k w = (Inr x, w')"
  then obtain y w1 where "m w = (Inr y, w1)" and "k y w1 = (Inr x, w')" by (rule bnd_InrE)
  then show "spare c n w'" using eq(2) agreeD(2) [OF k] by blast
qed

lemma agree_throw: "agree c n (throw e) (throw e) w"
  by (simp add: agree_def throw_def)

lemma agree_ret: "agree c n (ret x) (ret x) w"
  by (simp add: agree_def ret_def)

lemma agree_if: "(b \<Longrightarrow> agree c n m m' w) \<Longrightarrow> (\<not> b \<Longrightarrow> agree c n p p' w) \<Longrightarrow> agree c n (if b then m else p) (if b then m' else p') w"
  by simp

text \<open>An error that is caught may leave any state when it ends in another error.\<close>

lemma agree_catch:
  assumes m: "agree c n m m' w" and fails: "\<And>e w'. \<exists>e2 w2. k (Inl e) w' = (Inl e2, w2)"
    and k: "\<And>x w'. agree c n (k (Inr x)) (k (Inr x)) w'"
  shows "agree c n (bnd (catch m) k) (bnd (catch m') k) w"
proof (rule agreeI)
  assume sp: "spare c n w"
  show "bnd (catch m) k w = bnd (catch m') k w"
    using agreeD(1) [OF m sp] by (simp add: bnd_def catch_def)
  fix y w' assume "bnd (catch m) k w = (Inr y, w')"
  then obtain r w1 where c: "catch m w = (Inr r, w1)" and kr: "k r w1 = (Inr y, w')" by (rule bnd_InrE)
  show "spare c n w'"
  proof (cases r)
    case (Inl e)
    then show ?thesis using kr fails [of e w1] by auto
  next
    case (Inr x)
    then have "m w = (Inr x, w1)" using c by (auto simp: catch_def split: prod.splits sum.splits stop.splits)
    then show ?thesis using agreeD(2) [OF m sp] agreeD(2) [OF k] kr Inr by blast
  qed
qed

lemma agree_weaken: "agree c n m m' w \<Longrightarrow> spare c n w \<Longrightarrow> c' \<le> c \<Longrightarrow> n \<le> n' \<Longrightarrow> agree c' n' m m' w"
  unfolding agree_def spare_def by fastforce

section \<open>Lookups that agree\<close>

lemma nest_inc:
  assumes "spare c (Suc n) w" and "symlinknest w + 1 \<noteq> max_symlinks"
  shows "spare (symlinknest w + 1) n (w\<lparr>symlinknest := symlinknest w + 1\<rparr>)" and "symlinknest w \<le> symlinknest w + 1"
proof -
  have l: "unat (symlinknest w) < 8" using assms(1) by (simp add: spare_def)
  then have s: "unat (symlinknest w + 1) = Suc (unat (symlinknest w))"
    using unat_plus_no_wrap [of "symlinknest w" 1] by simp
  have "unat (symlinknest w + 1) \<noteq> unat max_symlinks" using assms(2) by (metis word_unat_eq_iff)
  then have "Suc (unat (symlinknest w)) \<noteq> 8" using s by (simp add: max_symlinks_def)
  then show "spare (symlinknest w + 1) n (w\<lparr>symlinknest := symlinknest w + 1\<rparr>)"
    using s l assms(1) by (simp add: spare_def)
  show "symlinknest w \<le> symlinknest w + 1" using s by (simp add: word_le_nat_alt)
qed

definition lookups_agree :: "nat \<Rightarrow> ('s, 'z) lookup \<Rightarrow> ('s, 'z) lookup \<Rightarrow> bool" where
  "lookups_agree n f g \<longleftrightarrow> (\<forall>c p r w. agree c n (f p r) (g p r) w)"

lemma fails_bnd: "(\<And>x w. \<exists>e2 w2. k x w = (Inl e2, w2)) \<Longrightarrow> \<exists>e2 w2. bnd m k w = (Inl e2, w2)"
  by (cases "m w") (auto simp: bnd_def split: sum.split)

text \<open>What \<open>follow_link\<close> does once the counter has passed its test.\<close>

definition follow_body ::
    "'s firmware \<Rightarrow> ('s, 'z) lookup \<Rightarrow> ext2fs_node \<Rightarrow> ext2fs_node \<Rightarrow> ext2fs_node
      \<Rightarrow> ('s, 'z, ext2fs_node \<times> u8 \<times> ext2fs_node) eprog" where
  "follow_body fw look currroot node oldnode =
     bnd (catch (ext2fs_read_symlink fw node)) (\<lambda>r.
     bnd (ext2fs_free_node (nd_addr node) (nd_addr currroot)) (\<lambda>_.
       case r of
         Inl e \<Rightarrow> bnd (ext2fs_free_node (nd_addr oldnode) (nd_addr currroot)) (\<lambda>_. throw (Err e))
       | Inr (addr, link) \<Rightarrow>
           bnd (if cnth link 0 = CHR ''/'' then
                  bnd (ext2fs_free_node (nd_addr oldnode) (nd_addr currroot)) (\<lambda>_.
                  gets (\<lambda>w. case fs_root w of Some rt \<Rightarrow> rt | None \<Rightarrow> oldnode))
                else ret oldnode) (\<lambda>from.
           bnd (catch (look link from)) (\<lambda>r2.
           bnd (freeM addr) (\<lambda>_.
             case r2 of
               Inl e \<Rightarrow> bnd (ext2fs_free_node (nd_addr from) (nd_addr currroot))
                           (\<lambda>_. throw (Err ERR_FS_NOT_FOUND))
             | Inr (found, t) \<Rightarrow>
                 ret (found, case t of Some ft \<Rightarrow> ft | None \<Rightarrow> FILETYPE_SYMLINK, from))))))"

lemma bnd_modify: "bnd (modify f) k w = k () (f w)"
  by (simp add: bnd_def modify_def)

lemma follow_link_body:
  "follow_link fw f currroot node old w =
     (if symlinknest w + 1 = max_symlinks
      then bnd (ext2fs_free_node (nd_addr node) (nd_addr currroot)) (\<lambda>_.
           bnd (ext2fs_free_node (nd_addr old) (nd_addr currroot)) (\<lambda>_. throw (Err ERR_FS_LOOP)))
             (w\<lparr>symlinknest := symlinknest w + 1\<rparr>)
      else follow_body fw f currroot node old (w\<lparr>symlinknest := symlinknest w + 1\<rparr>))"
  unfolding follow_link_def follow_body_def bnd_modify by simp

lemma follow_body_agree:
  assumes fg: "lookups_agree n f g"
  shows "agree c n (follow_body fw f currroot node old) (follow_body fw g currroot node old) w"
  unfolding follow_body_def
proof (intro agree_bnd)
  fix r w1 w2 and u :: unit
  show "agree c n (catch (ext2fs_read_symlink fw node)) (catch (ext2fs_read_symlink fw node)) w"
    by (rule agree_same) (rule frame | assumption)+
  show "agree c n (ext2fs_free_node (nd_addr node) (nd_addr currroot)) (ext2fs_free_node (nd_addr node) (nd_addr currroot)) w1"
    by (rule agree_same) (rule frame | assumption)+
  let ?rest = "\<lambda>f :: ('a, 'b) lookup. case r of
         Inl e \<Rightarrow> bnd (ext2fs_free_node (nd_addr old) (nd_addr currroot)) (\<lambda>_. throw (Err e))
       | Inr (addr, link) \<Rightarrow>
           bnd (if cnth link 0 = CHR ''/'' then
                  bnd (ext2fs_free_node (nd_addr old) (nd_addr currroot)) (\<lambda>_.
                  gets (\<lambda>w. case fs_root w of Some rt \<Rightarrow> rt | None \<Rightarrow> old))
                else ret old) (\<lambda>from.
           bnd (catch (f link from)) (\<lambda>r2.
           bnd (freeM addr) (\<lambda>_.
             case r2 of
               Inl e \<Rightarrow> bnd (ext2fs_free_node (nd_addr from) (nd_addr currroot))
                           (\<lambda>_. throw (Err ERR_FS_NOT_FOUND))
             | Inr (found, t) \<Rightarrow>
                 ret (found, case t of Some ft \<Rightarrow> ft | None \<Rightarrow> FILETYPE_SYMLINK, from))))"
  show "agree c n (?rest f) (?rest g) w2"
  proof (cases r)
    case (Inl e)
    show ?thesis unfolding Inl sum.case by (rule agree_same) (rule frame | assumption)+
  next
    case (Inr al)
    obtain addr link where al: "al = (addr, link)" by (cases al)
    show ?thesis
      unfolding Inr al sum.case prod.case
    proof (rule agree_bnd, goal_cases)
      case 1
      show ?case by (rule agree_same) (rule frame | assumption)+
    next
      case (2 start w3)
      show ?case
      proof (rule agree_catch, goal_cases)
        case 1
        show ?case using fg by (simp add: lookups_agree_def)
      next
        case (2 e w4)
        show ?case unfolding sum.case by (intro fails_bnd) (simp add: throw_def)
      next
        case (3 x w4)
        show ?case unfolding sum.case by (rule agree_same) (rule frame | assumption)+
      qed
    qed
  qed
qed

lemma follow_link_agree:
  assumes fg: "lookups_agree n f g"
  shows "agree c (Suc n) (follow_link fw f currroot node old) (follow_link fw g currroot node old) w"
proof (cases "spare c (Suc n) w \<and> symlinknest w + 1 \<noteq> max_symlinks")
  case True
  let ?c = "symlinknest w + 1"
  let ?w = "w\<lparr>symlinknest := ?c\<rparr>"
  have inc: "spare ?c n ?w" "c \<le> ?c" using nest_inc [of c n w] True by (auto simp: spare_def)
  have "agree c (Suc n) (follow_body fw f currroot node old) (follow_body fw g currroot node old) ?w"
    by (rule agree_weaken [OF follow_body_agree [OF fg] inc]) simp
  moreover have "spare c (Suc n) ?w" using inc by (simp add: spare_def)
  ultimately show ?thesis using True by (simp add: agree_def follow_link_body)
next
  case False
  have "\<exists>e2 w2. bnd (ext2fs_free_node (nd_addr node) (nd_addr currroot)) (\<lambda>_.
       bnd (ext2fs_free_node (nd_addr old) (nd_addr currroot)) (\<lambda>_. throw (Err ERR_FS_LOOP)))
         (w\<lparr>symlinknest := max_symlinks\<rparr>) = (Inl e2 :: stop + ext2fs_node \<times> u8 \<times> ext2fs_node, w2)"
    by (intro fails_bnd) (simp add: throw_def)
  then obtain e2 w2 where e: "bnd (ext2fs_free_node (nd_addr node) (nd_addr currroot)) (\<lambda>_.
       bnd (ext2fs_free_node (nd_addr old) (nd_addr currroot)) (\<lambda>_. throw (Err ERR_FS_LOOP)))
         (w\<lparr>symlinknest := max_symlinks\<rparr>) = (Inl e2 :: stop + ext2fs_node \<times> u8 \<times> ext2fs_node, w2)" by (elim exE)
  show ?thesis
  proof (cases "spare c (Suc n) w")
    case True
    then have "symlinknest w + 1 = max_symlinks" using False by blast
    then show ?thesis by (simp add: agree_def follow_link_body e)
  qed (simp add: agree_def)
qed

lemma walk_path_agree:
  assumes fg: "lookups_agree n f g"
  shows "agree c (Suc n) (walk_path fw f currroot name currnode t) (walk_path fw g currroot name currnode t) w"
proof (induction "length name" arbitrary: name currnode t w rule: less_induct)
  case less
  show ?case
    unfolding walk_path.simps [of fw f currroot name currnode t] walk_path.simps [of fw g currroot name currnode t]
  proof (intro agree_if agree_bnd, goal_cases)
    case 1
    show ?case by (rule agree_same) (rule frame | assumption)+
  next
    case (2 x w')
    show ?case by (rule agree_throw)
  next
    case 3
    show ?case by (rule agree_same) (rule frame | assumption)+
  next
    case (4 nt w1)
    obtain node t1 where nt: "nt = (node, t1)" by (cases nt)
    show ?case
      unfolding nt prod.case
    proof (rule agree_bnd, goal_cases)
      case 1
      show ?case by (intro agree_if follow_link_agree fg agree_ret)
    next
      case (2 ntx w2)
      obtain node2 t2 old where ntx: "ntx = (node2, t2, old)" by (cases ntx)
      show ?case
        unfolding ntx prod.case
      proof (rule agree_bnd, goal_cases)
        case 1
        show ?case by (rule agree_same) (rule frame | assumption)+
      next
        case (2 u w3)
        show ?case by (rule agree_if) (simp_all add: agree_ret less path_tail_shorter)
      qed
    qed
  qed
qed

lemma find_file1_agree: "lookups_agree n (find_file1 fw (Suc n)) (find_file1 fw n)"
proof (induction n)
  case 0
  show ?case unfolding lookups_agree_def agree_def spare_def by (metis add_0 not_le)
next
  case (Suc n)
  have "agree c (Suc n) (find_file1 fw (Suc (Suc n)) p r) (find_file1 fw (Suc n) p r) w" for c p r and w :: "('a, 'b) emachine_scheme"
    unfolding find_file1.simps(2) [of fw "Suc n" p r] find_file1.simps(2) [of fw n p r]
    by (intro agree_if agree_ret walk_path_agree Suc.IH)
  then show ?case by (simp only: lookups_agree_def) blast
qed

text \<open>
  Property C11: the depth of 8 that the model gives the recursive path lookup is never used up.
  Looking a path up with any larger depth gives the same result and the same state, so the
  lookup of the code, which has no bound but the counter of links, returns.
\<close>

theorem find_file_depth:
  assumes "symlinknest w < max_symlinks"
  shows "find_file1 fw (8 + k) path node w = ext2fs_find_file1 fw path node w"
proof -
  have l: "unat (symlinknest w) < 8" using assms by (simp add: word_less_nat_alt max_symlinks_def)
  show ?thesis
  proof (induction k)
    case (Suc k)
    have "spare 0 (8 + k) w" using l by (simp add: spare_def)
    then have "find_file1 fw (Suc (8 + k)) path node w = find_file1 fw (8 + k) path node w"
      using find_file1_agree [of "8 + k" fw] agreeD(1) by (simp only: lookups_agree_def) blast
    then show ?case using Suc by simp
  qed (simp add: ext2fs_find_file1_def)
qed

theorem find_file_depth_witness:
  "find_file1 (ram_disk demo_volume) 20 ''/boot/a'' (demo_node 2 0) (demo_loader demo_part)
     = ext2fs_find_file1 (ram_disk demo_volume) ''/boot/a'' (demo_node 2 0) (demo_loader demo_part)"
proof -
  have "symlinknest (demo_loader demo_part) < max_symlinks"
    by (simp add: max_symlinks_def demo_loader_def demo_disk_def demo_machine_def machine.defs pmachine.defs)
  from find_file_depth [OF this, of "ram_disk demo_volume" 12] show ?thesis by simp
qed

section \<open>What a lookup leaves alone\<close>

text \<open>A predicate that does not look at the counter of links either is kept by a whole lookup.\<close>

locale nav_frame = fs_frame P for P :: "('s, 'z) emachine_scheme \<Rightarrow> bool" +
  assumes P_nest [simp]: "P (w\<lparr>symlinknest := c\<rparr>) = P w"
begin

lemma step_modify_nest: "P w \<Longrightarrow> P (snd (modify (\<lambda>w. w\<lparr>symlinknest := f w\<rparr>) w))"
  by (simp add: modify_def)

lemma step_follow_body:
  assumes "\<And>p r w. P w \<Longrightarrow> P (snd (look p r w))" and "P w"
  shows "P (snd (follow_body fw look currroot node old w))"
  unfolding follow_body_def using assms(2) by - (assumption | rule frame assms(1))+

lemma step_follow_link:
  assumes "\<And>p r w. P w \<Longrightarrow> P (snd (look p r w))" and "P w"
  shows "P (snd (follow_link fw look currroot node old w))"
  unfolding follow_link_body using assms(2)
  by - (assumption | rule frame step_follow_body assms(1) | simp)+

lemma step_walk_path:
  assumes look: "\<And>p r w. P w \<Longrightarrow> P (snd (look p r w))" and "P w"
  shows "P (snd (walk_path fw look currroot name currnode t w))"
  using assms(2)
proof (induction "length name" arbitrary: name currnode t w rule: less_induct)
  case less
  have onward: "P (snd (walk_path fw look currroot (path_tail name) n u v))"
    if "path_tail name \<noteq> []" and "P v" for n u v
    using less.hyps [OF path_tail_shorter [OF that(1)] that(2)] .
  show ?case
    unfolding walk_path.simps [of fw look currroot name currnode t] using less.prems
    by - (assumption | rule frame step_follow_link onward | erule look)+
qed

lemma step_find_file1 [frame]: "P w \<Longrightarrow> P (snd (find_file1 fw d p r w))"
proof (induction d arbitrary: p r w)
  case (Suc d)
  show ?case unfolding find_file1.simps using Suc.prems by - (assumption | rule frame step_walk_path Suc.IH)+
qed (simp add: throw_def)

lemma step_find_file [frame]: "P w \<Longrightarrow> P (snd (ext2fs_find_file fw path r e w))"
  unfolding ext2fs_find_file_def ext2fs_find_file1_def Let_def
  by (assumption | rule frame step_modify_nest)+

end

interpretation volume: nav_frame "\<lambda>w. fs_root w = rt \<and> fs_file w = f \<and> the_part w = p \<and> inode_size w = sz \<and> bi w = b \<and> junk w = j"
  for rt f p sz b j
  by unfold_locales simp_all


section \<open>Opening another volume\<close>

text \<open>A predicate that implies that no volume was flagged as mounted, and looks at no more of the partition.\<close>

locale mount_frame = io_frame P for P :: "('s, 'z) emachine_scheme \<Rightarrow> bool" +
  assumes P_root [simp]: "P (w\<lparr>fs_root := r\<rparr>) = P w"
    and P_inode_size [simp]: "P (w\<lparr>inode_size := x\<rparr>) = P w"
    and P_part: "P w \<Longrightarrow> \<not> flag_set (p_flags q) PART_MOUNTED \<Longrightarrow> P (w\<lparr>the_part := q\<rparr>)"
    and P_fresh: "P w \<Longrightarrow> \<not> flag_set (p_flags (the_part w)) PART_MOUNTED"
begin

lemma step_modify [frame]: "P (f w) \<Longrightarrow> P (snd (modify f w))"
  by (simp add: modify_def)

lemma step_part_close [frame]: "P w \<Longrightarrow> P (snd (part_close fw w))"
proof -
  have "\<not> flag_set (p_flags part_zero) PART_MOUNTED" by (simp add: part_zero_def flag_set_def)
  moreover have "fw_only (disk_close fw d)" for d unfolding disk_close_def by (rule fw_only_bnd) simp_all
  ultimately show "P w \<Longrightarrow> P (snd (part_close fw w))"
    unfolding part_close_def by - (assumption | rule frame step_fw P_part)+
qed

lemma fw_only_mac_loop [simp]: "fw_only (mac_loop fw dev part secsize blocks upart i n)"
  by (induction n arbitrary: blocks upart i)
    (auto simp: Let_def intro!: fw_only_bnd fw_only_disk_read split: prod.split)

lemma step_disk_open [frame]: "P w \<Longrightarrow> P (snd (disk_open fw device w))"
  unfolding disk_open_def prom_open_def Let_def by (assumption | rule frame step_fw fw_only_call)+

lemma step_read_mac [frame]: "P w \<Longrightarrow> P (snd (read_mac_partition fw dev part w))"
  unfolding read_mac_partition_def by (assumption | rule frame step_fw fw_only_mac_loop)+

lemma step_read_dos [frame]: "P w \<Longrightarrow> P (snd (read_dos_partition fw dev part w))"
  unfolding read_dos_partition_def by (assumption | rule frame)+

lemma step_find_partition [frame]: "P w \<Longrightarrow> P (snd (find_partition fw dev partno w))"
  unfolding find_partition_def by (assumption | rule frame)+

lemma fresh_part:
  assumes "P w"
  shows "P (w\<lparr>the_part := (the_part w)\<lparr>p_start := a, p_len := b, p_dev := c, p_partno := d, p_devname := e,
     p_flags := p_flags (the_part w) OR PART_VALID\<rparr>\<rparr>)"
proof (rule P_part [OF assms])
  have "\<not> flag_set PART_VALID PART_MOUNTED" by (simp add: flag_set_def PART_VALID_def PART_MOUNTED_def)
  then show "\<not> flag_set (p_flags ((the_part w)\<lparr>p_start := a, p_len := b, p_dev := c, p_partno := d, p_devname := e,
     p_flags := p_flags (the_part w) OR PART_VALID\<rparr>)) PART_MOUNTED"
    using P_fresh [OF assms] by (simp add: flag_set_OR)
qed

lemma step_part_open [frame]: "P w \<Longrightarrow> P (snd (part_open fw device partno w))"
proof -
  have c: "fw_only (disk_close fw d)" for d unfolding disk_close_def by (rule fw_only_bnd) simp_all
  show "P w \<Longrightarrow> P (snd (part_open fw device partno w))"
    unfolding part_open_def Let_def by (assumption | rule frame step_fw [OF c] fresh_part)+
qed

lemma step_mount_fail [frame]: "P w \<Longrightarrow> P (snd (mount_fail data e w))"
  unfolding mount_fail_def by (assumption | rule frame | simp)+

lemma step_mount [frame]: "P w \<Longrightarrow> P (snd (ext2fs_mount fw w))"
  unfolding ext2fs_mount_def Let_def by (assumption | rule frame | simp)+

lemma step_open_ext2 [frame]:
  assumes "P w"
  shows "P (snd (open_ext2 fw device partno w))"
proof -
  have "open_ext2 fw device partno w = bnd (part_open fw device partno) (\<lambda>_ w.
          if flag_set (p_flags (the_part w)) PART_MOUNTED then (Inr (), w) else bnd (ret ()) (\<lambda>_. ext2fs_mount fw) w) w"
    using P_fresh [OF assms] by (simp add: open_ext2_def)
  also have "P (snd \<dots>)" using assms by - (assumption | rule frame)+
  finally show ?thesis .
qed

end

interpretation caches: mount_frame "\<lambda>w. \<not> flag_set (p_flags (the_part w)) PART_MOUNTED \<and> indir1 w = c1 \<and> indir2 w = c2 \<and> fs_file w = f"
  for c1 c2 f
  by unfold_locales simp_all

text \<open>
  Property C19: opening a volume, whichever device and partition, and whether it succeeds or not,
  never flags it as mounted, so that it is mounted again each time, and leaves the two caches of
  indirect blocks as they were.  A block number of the new volume that is equal to a cache's tag
  is then answered from the old volume's block.
\<close>

theorem stale_cache:
  assumes "\<not> flag_set (p_flags (the_part w)) PART_MOUNTED" and "open_ext2 fw device partno w = (r, w')"
  shows "\<not> flag_set (p_flags (the_part w')) PART_MOUNTED \<and> indir1 w' = indir1 w \<and> indir2 w' = indir2 w
    \<and> (sane_sb (ed_sblock (nd_data node)) \<and> 12 \<le> unat k \<and> unat k < 12 + fs_bs (ed_sblock (nd_data node)) div 4
       \<and> ic_addr (indir1 w) \<noteq> 0 \<and> unat (ic_size (indir1 w)) = fs_bs (ed_sblock (nd_data node))
       \<and> ic_blkno (indir1 w) = slw (i_indir_block (nd_inode node)) (LOG2_EXT2_BLOCK_SIZE (ed_sblock (nd_data node)))
       \<longrightarrow> ext2fs_read_block fw node k w' = (Inr (cpu32 (ic_block (indir1 w)) (4 * (unat k - 12))), w'))"
proof -
  have same: "\<not> flag_set (p_flags (the_part w')) PART_MOUNTED \<and> indir1 w' = indir1 w \<and> indir2 w' = indir2 w"
    using caches.step_open_ext2 [of w "indir1 w" "indir2 w" "fs_file w" fw device partno] assms by simp
  moreover have "ext2fs_read_block fw node k w' = (Inr (cpu32 (ic_block (indir1 w)) (4 * (unat k - 12))), w')"
    if sane: "sane_sb (ed_sblock (nd_data node))"
      and k: "12 \<le> unat k" "unat k < 12 + fs_bs (ed_sblock (nd_data node)) div 4"
      and c: "ic_addr (indir1 w) \<noteq> 0" "unat (ic_size (indir1 w)) = fs_bs (ed_sblock (nd_data node))"
      "ic_blkno (indir1 w) = slw (i_indir_block (nd_inode node)) (LOG2_EXT2_BLOCK_SIZE (ed_sblock (nd_data node)))"
  proof -
    let ?sb = "ed_sblock (nd_data node)" and ?n = "word_of_int (trunc_div (sint (EXT2_BLOCK_SIZE (ed_sblock (nd_data node)))) 4) :: u32"
    have n: "unat ?n = fs_bs ?sb div 4" "fs_bs ?sb div 4 \<le> 16384" using sane_sizes(4,6) [OF sane] by linarith+
    have u12: "unat INDIRECT_BLOCKS = 12" by (simp add: INDIRECT_BLOCKS_def)
    have s: "unat (INDIRECT_BLOCKS + ?n) = 12 + fs_bs ?sb div 4" using unat_plus_no_wrap [of INDIRECT_BLOCKS ?n] n u12 by simp
    have l: "\<not> k <s INDIRECT_BLOCKS" "k <s INDIRECT_BLOCKS + ?n"
      using sless_small [of k INDIRECT_BLOCKS] sless_small [of k "INDIRECT_BLOCKS + ?n"] k n s u12 by simp_all
    have d: "unat (k - INDIRECT_BLOCKS) = unat k - 12" using k u12 by (simp add: unat_sub word_le_nat_alt)
    have sz: "ic_size (indir1 w') = EXT2_BLOCK_SIZE ?sb" using same c(2) sane_sizes(1) [OF sane] by (simp add: word_unat_eq_iff)
    have "cache_alloc slot1 (EXT2_BLOCK_SIZE ?sb) w' = (Inr (), w')"
      using c(1) sz same by (simp add: cache_alloc_def slot1_def bnd_def ret_def)
    moreover have "cache_fill fw slot1 (slw (i_indir_block (nd_inode node)) (LOG2_EXT2_BLOCK_SIZE ?sb)) (EXT2_BLOCK_SIZE ?sb) w' = (Inr (), w')"
      using c(3) same by (simp add: cache_fill_def slot1_def)
    moreover have "cache_entry slot1 (k - INDIRECT_BLOCKS) w' = (Inr (cpu32 (ic_block (indir1 w)) (4 * (unat k - 12))), w')"
      using same d by (simp add: cache_entry_def slot1_def gets_def)
    ultimately show ?thesis
      unfolding ext2fs_read_block_def Let_def if_not_P [OF l(1)] if_P [OF l(2)] by (simp add: bnd_def)
  qed
  ultimately show ?thesis by blast
qed

text \<open>A cache of sector 2 read elsewhere, and a file of the newly opened volume whose indirect block is there.\<close>

definition demo_stale :: "nat emachine" where
  "demo_stale = (demo_loader demo_part)\<lparr>indir1 := \<lparr>ic_addr = 0x500004, ic_size = 1024, ic_blkno = 2,
     ic_block = [77, 0, 0, 0] @ replicate 1020 0\<rparr>\<rparr>"

theorem stale_cache_witness:
  "fst (ext2fs_read_block (ram_disk demo_volume) (demo_node 7 1) 12 (snd (open_ext2 (ram_disk demo_volume) ''hd'' 3 demo_stale)))
     = Inr 77"
proof -
  let ?o = "open_ext2 (ram_disk demo_volume) ''hd'' 3 demo_stale" and ?n = "demo_node 7 1"
  have a: "\<not> flag_set (p_flags (the_part demo_stale)) PART_MOUNTED"
    by (simp add: demo_stale_def demo_loader_def demo_disk_def demo_machine_def machine.defs pmachine.defs
      demo_part_def part_zero_def flag_set_def)
  have b: "?o = (fst ?o, snd ?o)" by simp
  have "ic_blkno (indir1 demo_stale) = slw (i_indir_block (nd_inode ?n)) (LOG2_EXT2_BLOCK_SIZE (ed_sblock (nd_data ?n)))"
  proof -
    have "i_indir_block (nd_inode ?n) = 1" by (simp add: demo_node_def i_indir_block_def cpu32_le le_eval bytes32_def)
    moreover have "sb_log2_block_size (ed_sblock (nd_data ?n)) = 0"
      by (simp add: demo_node_def sb_log2_block_size_def cpu32_le le_eval numeral_eq_Suc)
    ultimately show ?thesis by (simp add: demo_stale_def slw_def LOG2_EXT2_BLOCK_SIZE_def)
  qed
  moreover have "ic_addr (indir1 demo_stale) \<noteq> 0" "unat (ic_size (indir1 demo_stale)) = 1024" by (simp_all add: demo_stale_def)
  ultimately have c: "sane_sb (ed_sblock (nd_data ?n)) \<and> 12 \<le> unat (12 :: u32) \<and> unat (12 :: u32) < 12 + fs_bs (ed_sblock (nd_data ?n)) div 4
       \<and> ic_addr (indir1 demo_stale) \<noteq> 0 \<and> unat (ic_size (indir1 demo_stale)) = fs_bs (ed_sblock (nd_data ?n))
       \<and> ic_blkno (indir1 demo_stale) = slw (i_indir_block (nd_inode ?n)) (LOG2_EXT2_BLOCK_SIZE (ed_sblock (nd_data ?n)))"
    using demo_sb [of 7 1] by simp
  have "cpu32 (ic_block (indir1 demo_stale)) 0 = 77" by (simp add: demo_stale_def cpu32_le le_eval)
  then show ?thesis
    using stale_cache [OF a b, THEN conjunct2, THEN conjunct2, THEN conjunct2, THEN mp, OF c] by simp
qed

end
