(* ===== verification/Dir_Spec.thy ===== *)
theory Dir_Spec
  imports Ext2spec Ext2dir
begin

unbundle bit_operations_syntax

text \<open>
  What a directory means: its entries are the chain of records its bytes hold, and a lookup
  gives the first entry that has the name.
\<close>

section \<open>Entries\<close>

record dirent =
  de_ino :: u32
  de_len :: u16
  de_type :: u8
  de_name :: string

text \<open>The bytes \<open>D\<close> hold the entries \<open>es\<close> from \<open>off\<close> to their end.\<close>

fun dir_chain :: "bytes \<Rightarrow> nat \<Rightarrow> dirent list \<Rightarrow> bool" where
  "dir_chain D off [] \<longleftrightarrow> off = length D"
| "dir_chain D off (e # es) \<longleftrightarrow>
     off + 8 + length (de_name e) \<le> length D
     \<and> d_inode (slice off 8 D) = de_ino e \<and> d_direntlen (slice off 8 D) = de_len e
     \<and> unat (d_namelen (slice off 8 D)) = length (de_name e) \<and> d_filetype (slice off 8 D) = de_type e
     \<and> map chr (slice (off + 8) (length (de_name e)) D) = de_name e \<and> NUL \<notin> set (de_name e)
     \<and> de_type e \<noteq> FILETYPE_UNKNOWN
     \<and> dir_chain D (off + unat (de_len e)) es"

lemma dir_chain_le: "dir_chain D off es \<Longrightarrow> off \<le> length D"
  by (cases es) auto

definition dir_find :: "string \<Rightarrow> dirent list \<Rightarrow> dirent option" where
  "dir_find nm es = find (\<lambda>e. de_name e \<noteq> [] \<and> de_name e = nm) es"

lemma slice_append1: "off + n \<le> length xs \<Longrightarrow> slice off n (xs @ ys) = slice off n xs"
  by (simp add: slice_def)

lemma dirent_fields:
  assumes "length x = 8"
  shows "d_inode (x @ y) = d_inode x" "d_direntlen (x @ y) = d_direntlen x"
    "d_namelen (x @ y) = d_namelen x" "d_filetype (x @ y) = d_filetype x"
  using assms
  by (simp_all add: d_inode_def d_direntlen_def d_namelen_def d_filetype_def cpu32_def cpu16_def be32_def be16_def
      byte_at_def slice_append1 nth_append)

section \<open>Reading a directory\<close>

definition dir_bytes :: "bytes \<Rightarrow> part_t \<Rightarrow> ext2fs_node \<Rightarrow> bytes" where
  "dir_bytes img p node =
     map (file_byte img p (fs_bs (ed_sblock (nd_data node))) (nd_inode node)) [0..<unat (i_size (nd_inode node))]"

definition file_ok :: "bytes \<Rightarrow> part_t \<Rightarrow> ext2fs_node \<Rightarrow> bool" where
  "file_ok img p node \<longleftrightarrow>
     (let bs = fs_bs (ed_sblock (nd_data node)); n = unat (i_size (nd_inode node)) in
      n + bs < 2 ^ 32 \<and> (\<forall>k < blk_count bs n. readable img p bs (nd_inode node) k))"

lemma blk_count_mono: "a \<le> b \<Longrightarrow> blk_count bs a \<le> blk_count bs b"
  unfolding blk_count_def by (intro div_le_mono) simp

lemma read_dir_ok:
  fixes node :: ext2fs_node and off len :: u32
  assumes dev: "block_device fw (p_dev p) img dpos" and on: "part_on img p"
    and sane: "sane_sb (ed_sblock (nd_data node))" and ok: "file_ok img p node"
    and fit: "unat off + unat len \<le> unat (i_size (nd_inode node))" and len: "0 < unat len"
    and inv: "vol_inv img p (fs_bs (ed_sblock (nd_data node))) j w"
  shows "\<exists>z w'. ext2fs_read_file fw node off len w = (Inr (slice (unat off) (unat len) (dir_bytes img p node) @ z), w')
    \<and> vol_inv img p (fs_bs (ed_sblock (nd_data node))) j w'"
proof -
  let ?bs = "fs_bs (ed_sblock (nd_data node))" and ?n = "unat (i_size (nd_inode node))"
  let ?stop = "unat off + unat len"
  have "len \<le> i_size (nd_inode node)" using fit by (simp add: word_le_nat_alt)
  then have mn: "min len (i_size (nd_inode node)) = len" by (simp add: min_def)
  have "blk_count ?bs ?stop \<le> blk_count ?bs ?n" using fit by (rule blk_count_mono)
  then have "request_ok img p node (unat off) ?stop"
    using ok fit len by (auto simp: request_ok_def file_ok_def Let_def)
  then obtain w' where "ext2fs_read_file fw node off len w
      = (Inr (file_content img p ?bs (nd_inode node) (unat off) ?stop), w')" "vol_inv img p ?bs j w'"
    using read_file_ok [OF dev on sane, of off len j w] inv by (auto simp: mn)
  moreover have "map (file_byte img p ?bs (nd_inode node)) [unat off..<?stop] = slice (unat off) (unat len) (dir_bytes img p node)"
    using fit by (simp add: dir_bytes_def slice_def drop_map take_map)
  ultimately show ?thesis by (auto simp: file_content_def)
qed

lemma roomy_malloc_free:
  assumes "roomy (k + unat n + 8) h" and "malloc n h = (p, h')"
  shows "roomy (k + unat n + 8) (free p h')"
proof -
  obtain h1 where m: "malloc n h = (malloc_ptr h + 4, h1)" "malloc_ptr h + 4 \<noteq> 0"
    using assms(1) by (rule malloc_roomy)
  then have p: "p = malloc_ptr h + 4" "h' = h1" using assms(2) by simp_all
  have b: "unat (malloc_ptr h) + 4 < 2 ^ 32" using assms(1) unat_lt_u32 [of "malloc_end h"] by (simp add: roomy_def)
  then have "unat (malloc_ptr h + 4) = unat (malloc_ptr h) + 4" using unat_plus_no_wrap [of "malloc_ptr h" 4] by simp
  then show ?thesis
    using assms(1) m p by (auto simp: roomy_def malloc_def free_def Let_def split: if_splits)
qed

lemma vol_malloc:
  assumes "vol_inv img p bs (k + unat n + 8) w"
  obtains a h where "mallocM n w = (Inr a, w\<lparr>mem := h\<rparr>)" "a \<noteq> 0"
    "vol_inv img p bs k (w\<lparr>mem := h\<rparr>)" "vol_inv img p bs (k + unat n + 8) (w\<lparr>mem := free a h\<rparr>)"
proof -
  have r: "roomy ((cache_cost bs (indir1 w) + cache_cost bs (indir2 w) + k) + unat n + 8) (mem w)"
    using assms by (simp add: vol_inv_def ac_simps)
  then obtain h where m: "malloc n (mem w) = (malloc_ptr (mem w) + 4, h)" "malloc_ptr (mem w) + 4 \<noteq> 0"
      "roomy (cache_cost bs (indir1 w) + cache_cost bs (indir2 w) + k) h"
    by (rule malloc_roomy)
  have "vol_inv img p bs (k + unat n + 8) (w\<lparr>mem := free (malloc_ptr (mem w) + 4) h\<rparr>)"
    using roomy_malloc_free [OF r m(1)] assms by (simp add: vol_inv_def ac_simps)
  moreover have "vol_inv img p bs k (w\<lparr>mem := h\<rparr>)" using m(3) assms by (simp add: vol_inv_def)
  moreover have "mallocM n w = (Inr (malloc_ptr (mem w) + 4), w\<lparr>mem := h\<rparr>)" by (simp add: mallocM_def m)
  ultimately show thesis using m(2) that by blast
qed

lemma vol_inv_mono: "vol_inv img p bs j w \<Longrightarrow> k \<le> j \<Longrightarrow> vol_inv img p bs k w"
  by (auto simp: vol_inv_def intro: roomy_mono)

definition entry_node :: "ext2fs_node \<Rightarrow> u32 \<Rightarrow> dirent \<Rightarrow> ext2fs_node" where
  "entry_node dir a e = \<lparr>nd_addr = a, nd_data = nd_data dir, nd_inode = [], nd_ino = de_ino e, nd_read = False\<rparr>"

lemma dir_loop_finds:
  fixes dir :: ext2fs_node and img :: bytes and p :: part_t and fw :: "'s firmware" and w :: "('s, 'z) emachine_scheme"
  defines "D \<equiv> dir_bytes img p dir" and "bs \<equiv> fs_bs (ed_sblock (nd_data dir))"
  assumes dev: "block_device fw (p_dev p) img dpos" and on: "part_on img p"
    and sane: "sane_sb (ed_sblock (nd_data dir))" and ok: "file_ok img p dir" and nm: "NUL \<notin> set nm"
    and chain: "dir_chain D (unat off) es" and fuel: "length es < n" and inv: "vol_inv img p bs (k + unat sizeof_node + 8) w"
  shows "\<exists>w'. vol_inv img p bs k w' \<and> (case dir_find nm es of
       None \<Rightarrow> dir_loop fw dir (Some nm) off n w = (Inl (Err ERR_FS_NOT_FOUND), w')
     | Some e \<Rightarrow> \<exists>a. a \<noteq> 0 \<and> dir_loop fw dir (Some nm) off n w = (Inr (entry_node dir a e, dirent_type (de_type e)), w'))"
  using chain fuel inv
proof (induction es arbitrary: off n w)
  case Nil
  then obtain m where n: "n = Suc m" by (cases n) auto
  have "\<not> off < i_size (nd_inode dir)" using Nil(1) by (simp add: word_less_nat_alt D_def dir_bytes_def)
  moreover have "vol_inv img p bs k w" using Nil(3) by (rule vol_inv_mono) simp
  ultimately show ?case by (simp add: n dir_find_def throw_def)
next
  case (Cons e es)
  obtain m where n: "n = Suc m" and m: "length es < m" using Cons.prems(2) by (cases n) auto
  let ?j = "k + unat sizeof_node + 8"
  have lD: "length D = unat (i_size (nd_inode dir))" by (simp add: D_def dir_bytes_def)
  note ch = Cons.prems(1) [unfolded dir_chain.simps]
  have lt: "off < i_size (nd_inode dir)" using ch lD by (simp add: word_less_nat_alt)
  have s8: "unat (sizeof_dirent) = 8" by (simp add: sizeof_dirent_def)
  obtain z w1 where r1: "ext2fs_read_file fw dir off sizeof_dirent w = (Inr (slice (unat off) 8 D @ z), w1)"
    and inv1: "vol_inv img p bs ?j w1"
    using read_dir_ok [OF dev on sane ok, of off sizeof_dirent ?j w] ch lD Cons.prems(3) s8
    by (auto simp: D_def bs_def)
  let ?d = "slice (unat off) 8 D"
  have "unat off + 8 \<le> length D" using ch by simp
  then have l8: "length ?d = 8" by (simp add: min_def)
  note f = dirent_fields [OF l8, of z]
  have o': "unat (off + ucast (de_len e)) = unat off + unat (de_len e)"
  proof -
    have "unat off + unat (de_len e) \<le> length D" using ch dir_chain_le by blast
    then show ?thesis using lD unat_lt_u32 [of "i_size (nd_inode dir)"] unat_plus_no_wrap [of off "ucast (de_len e)"] by simp
  qed
  have rest: "\<exists>w'. vol_inv img p bs k w' \<and> (case dir_find nm es of
       None \<Rightarrow> dir_loop fw dir (Some nm) (off + ucast (de_len e)) m v = (Inl (Err ERR_FS_NOT_FOUND), w')
     | Some e' \<Rightarrow> \<exists>a. a \<noteq> 0 \<and> dir_loop fw dir (Some nm) (off + ucast (de_len e)) m v = (Inr (entry_node dir a e', dirent_type (de_type e')), w'))"
    if "vol_inv img p bs ?j v" for v :: "('s, 'z) emachine_scheme"
    using Cons.IH [of "off + ucast (de_len e)" m v] ch m that by (simp add: o')
  show ?case
  proof (cases "de_name e = []")
    case True
    then have "d_namelen ?d = 0" using ch by (simp add: unat_eq_0)
    then have eq: "dir_loop fw dir (Some nm) off n w = dir_loop fw dir (Some nm) (off + ucast (de_len e)) m w1"
      using lt r1 f ch by (simp add: n bnd_def)
    have df: "dir_find nm (e # es) = dir_find nm es" using True by (simp add: dir_find_def)
    show ?thesis unfolding eq df using inv1 by (rule rest)
  next
    case False
    let ?nl = "ucast (d_namelen ?d) :: u32"
    have unl: "unat ?nl = length (de_name e)" using ch by (simp add: unat_ucast_up)
    have o8: "unat (off + sizeof_dirent) = unat off + 8"
      using ch lD unat_lt_u32 [of "i_size (nd_inode dir)"] unat_plus_no_wrap [of off sizeof_dirent] s8 by simp
    have "\<exists>z w'. ext2fs_read_file fw dir (off + sizeof_dirent) ?nl w1
        = (Inr (slice (unat (off + sizeof_dirent)) (unat ?nl) (dir_bytes img p dir) @ z), w')
      \<and> vol_inv img p (fs_bs (ed_sblock (nd_data dir))) ?j w'"
      by (rule read_dir_ok [OF dev on sane ok]) (use ch lD inv1 False in \<open>simp_all add: unl o8 bs_def\<close>)
    then obtain z2 w2 where r2: "ext2fs_read_file fw dir (off + sizeof_dirent) ?nl w1
        = (Inr (slice (unat off + 8) (length (de_name e)) D @ z2), w2)" and inv2: "vol_inv img p bs ?j w2"
      unfolding unl o8 D_def [symmetric] bs_def [symmetric] by (elim exE conjE)
    obtain a h where ml: "mallocM sizeof_node w2 = (Inr a, w2\<lparr>mem := h\<rparr>)" "a \<noteq> 0"
      and fin: "vol_inv img p bs k (w2\<lparr>mem := h\<rparr>)" and inv3: "vol_inv img p bs ?j (w2\<lparr>mem := free a h\<rparr>)"
      using inv2 by (rule vol_malloc)
    have "unat off + 8 + length (de_name e) \<le> length D" using ch by simp
    then have "length (de_name e) \<le> length D - (unat off + 8)" by linarith
    then have len: "length (slice (unat off + 8) (length (de_name e)) D) = length (de_name e)" by (simp add: min_absorb1)
    have fn: "cstr (slice (unat off + 8) (length (de_name e)) D) = de_name e"
    proof -
      have m: "map chr (slice (unat off + 8) (length (de_name e)) D) = de_name e" using ch by simp
      show ?thesis unfolding cstr_def m using ch by (auto simp: takeWhile_eq_all_conv)
    qed
    have nz: "d_namelen ?d \<noteq> 0" using ch False by (metis length_0_conv unat_0)
    have un: "unat (d_namelen ?d) = length (de_name e)" using ch by simp
    have ent: "dir_entry fw dir off (?d @ z) w1
        = (Inr (de_name e, entry_node dir a e, dirent_type (de_type e)), w2\<lparr>mem := h\<rparr>)"
      using r2 ml ch len fn by (simp add: dir_entry_def Let_def bnd_def f un ret_def entry_node_def)
    have cmp: "strcmp (de_name e) nm = 0 \<longleftrightarrow> de_name e = nm" using ch nm by (intro strcmp_eq_0_iff) auto
    show ?thesis
    proof (cases "de_name e = nm")
      case True
      then have "dir_loop fw dir (Some nm) off n w = (Inr (entry_node dir a e, dirent_type (de_type e)), w2\<lparr>mem := h\<rparr>)"
        using lt r1 f nz ent cmp by (simp add: n bnd_def ret_def)
      then show ?thesis using True False ml(2) fin by (auto simp: dir_find_def)
    next
      case neq: False
      have "nd_addr (entry_node dir a e) = a" by (simp add: entry_node_def)
      then have eq: "dir_loop fw dir (Some nm) off n w
          = dir_loop fw dir (Some nm) (off + ucast (de_len e)) m (w2\<lparr>mem := free a h\<rparr>)"
        using lt r1 f nz ent cmp neq ch by (simp add: n bnd_def freeM_def modify_def)
      have df: "dir_find nm (e # es) = dir_find nm es" using neq by (simp add: dir_find_def)
      show ?thesis unfolding eq df using inv3 by (rule rest)
    qed
  qed
qed

lemma iterate_finds:
  fixes dir :: ext2fs_node and fw :: "'s firmware" and w :: "('s, 'z) emachine_scheme"
  assumes "block_device fw (p_dev p) img dpos" and "part_on img p"
    and "sane_sb (ed_sblock (nd_data dir))" and "file_ok img p dir" and "NUL \<notin> set nm"
    and "dir_chain (dir_bytes img p dir) 0 es" and "length es < budget w" and "nd_read dir"
    and "vol_inv img p (fs_bs (ed_sblock (nd_data dir))) (k + unat sizeof_node + 8) w"
  shows "\<exists>w'. vol_inv img p (fs_bs (ed_sblock (nd_data dir))) k w' \<and> (case dir_find nm es of
       None \<Rightarrow> ext2fs_iterate_dir fw dir (Some nm) w = (Inl (Err ERR_FS_NOT_FOUND), w')
     | Some e \<Rightarrow> \<exists>a. a \<noteq> 0
         \<and> ext2fs_iterate_dir fw dir (Some nm) w = (Inr (entry_node dir a e, dirent_type (de_type e)), w'))"
proof -
  have eq: "ext2fs_iterate_dir fw dir (Some nm) w = dir_loop fw dir (Some nm) 0 (budget w) w"
    using assms(8) by (simp add: ext2fs_iterate_dir_def bnd_def ret_def)
  show ?thesis unfolding eq using assms(6,7,9) by (intro dir_loop_finds [OF assms(1-5)]) simp_all
qed

text \<open>
  Property C7: in a directory whose bytes are a chain of entries the lookup of a name gives a new
  node for the first entry of that name, with its inode number and its type, and the error
  ERR_FS_NOT_FOUND where there is none.  An entry whose inode number is 0, which the file system
  leaves for a deleted file, is found like any other.
\<close>

theorem dir_lookup:
  fixes dir :: ext2fs_node
  assumes "block_device fw (p_dev p) img dpos" and "part_on img p"
    and "sane_sb (ed_sblock (nd_data dir))" and "file_ok img p dir" and "NUL \<notin> set nm"
    and "dir_chain (dir_bytes img p dir) 0 es" and "length es < budget w" and "nd_read dir"
    and "vol_inv img p (fs_bs (ed_sblock (nd_data dir))) (unat sizeof_node + 8) w"
  shows "\<exists>w'. (case dir_find nm es of
       None \<Rightarrow> ext2fs_iterate_dir fw dir (Some nm) w = (Inl (Err ERR_FS_NOT_FOUND), w')
     | Some e \<Rightarrow> \<exists>a. a \<noteq> 0
         \<and> ext2fs_iterate_dir fw dir (Some nm) w = (Inr (entry_node dir a e, dirent_type (de_type e)), w'))"
  using iterate_finds [OF assms(1-8), of 0] assms(9) by auto

text \<open>A directory of three entries in block 1, the first of them deleted.\<close>

definition dirent_bytes :: "u32 \<Rightarrow> u16 \<Rightarrow> u8 \<Rightarrow> string \<Rightarrow> bytes" where
  "dirent_bytes ino len t nm = rev (bytes32 ino) @ [ucast len, ucast (drop_bit 8 len)] @ [word_of_nat (length nm), t] @ map byte nm"

definition demo_dir :: bytes where
  "demo_dir = replicate 1024 0 @ dirent_bytes 0 12 1 ''boot'' @ dirent_bytes 12 12 2 ''boot'' @ dirent_bytes 13 1000 1 ''a''
     @ replicate 2100 0"

definition demo_dir_node :: ext2fs_node where
  "demo_dir_node = (demo_node 1 0)\<lparr>nd_inode := replicate 4 0 @ [0, 4, 0, 0] @ replicate 32 0 @ [1, 0, 0, 0] @ replicate 84 0\<rparr>"

theorem dir_lookup_witness:
  "\<exists>a w'. ext2fs_iterate_dir (ram_disk demo_dir) demo_dir_node (Some ''boot'') (demo_loader demo_part)
     = (Inr (entry_node demo_dir_node a \<lparr>de_ino = 0, de_len = 12, de_type = 1, de_name = ''boot''\<rparr>, 1), w')"
proof -
  let ?d = demo_dir_node
  let ?es = "[\<lparr>de_ino = 0, de_len = 12, de_type = 1, de_name = ''boot''\<rparr>, \<lparr>de_ino = 12, de_len = 12, de_type = 2, de_name = ''boot''\<rparr>,
     \<lparr>de_ino = 13, de_len = 1000, de_type = 1, de_name = ''a''\<rparr>]"
  have sb: "fs_bs (ed_sblock (nd_data ?d)) = 1024" "sane_sb (ed_sblock (nd_data ?d))"
    using demo_sb [of 1 0] by (simp_all add: demo_dir_node_def)
  have ino: "i_size (nd_inode ?d) = 1024" "i_dir_block (nd_inode ?d) 0 = 1"
    by (simp_all add: demo_dir_node_def i_dir_block_def i_size_def cpu32_le le_eval)
  have b: "file_block demo_dir demo_part 1024 (nd_inode ?d) 0 = 1" by (simp add: file_block_def ino)
  have "file_byte demo_dir demo_part 1024 (nd_inode ?d) j = demo_dir ! (1024 + j)" if "j < 1024" for j
    using that by (simp add: file_byte_def b) (simp add: demo_part_def part_zero_def)
  then have D: "dir_bytes demo_dir demo_part ?d = slice 1024 1024 demo_dir"
    by (intro nth_equalityI) (simp_all add: dir_bytes_def sb ino demo_dir_def nth_slice dirent_bytes_def bytes32_def)
  have D': "slice 1024 1024 demo_dir = dirent_bytes 0 12 1 ''boot'' @ dirent_bytes 12 12 2 ''boot'' @ dirent_bytes 13 1000 1 ''a'' @ replicate 991 0"
    by (simp add: slice_def demo_dir_def dirent_bytes_def bytes32_def)
  have "block_in demo_part 1024 1" by (simp add: block_in_def demo_part_def part_zero_def)
  then have "file_ok demo_dir demo_part ?d"
    by (simp add: file_ok_def sb ino blk_count_def readable_def mapped_def b)
  moreover have "dir_chain (dir_bytes demo_dir demo_part ?d) 0 ?es"
    unfolding D D'
    by (simp add: dirent_bytes_def bytes32_def d_inode_def d_direntlen_def d_namelen_def d_filetype_def byte_at_def
      cpu32_le cpu16_le le_eval FILETYPE_UNKNOWN_def)
  moreover have "vol_inv demo_dir demo_part 1024 (unat sizeof_node + 8) (demo_loader demo_part)"
    by (simp add: vol_inv_def demo_loader_def demo_disk_def demo_machine_def machine.defs pmachine.defs icache_none_def
      cache_ok_def cache_cost_def roomy_def heap_start_def layout_defs sizeof_node_def)
  moreover have "block_device (ram_disk demo_dir) (p_dev demo_part) demo_dir (\<lambda>p. p)" "part_on demo_dir demo_part"
    by (simp_all add: ram_disk_device part_on_def demo_part_def part_zero_def demo_dir_def dirent_bytes_def bytes32_def)
  moreover have "nd_read ?d" "length ?es < budget (demo_loader demo_part)"
    by (simp_all add: demo_dir_node_def demo_node_def demo_loader_def demo_disk_def demo_machine_def machine.defs pmachine.defs)
  moreover have "dir_find ''boot'' ?es = Some \<lparr>de_ino = 0, de_len = 12, de_type = 1, de_name = ''boot''\<rparr>"
    by (simp add: dir_find_def)
  moreover have "dirent_type 1 = 1" by (simp add: dirent_type_def filetype_defs)
  ultimately show ?thesis
    using dir_lookup [of "ram_disk demo_dir" demo_part demo_dir "\<lambda>p. p" ?d "''boot''" ?es "demo_loader demo_part"] sb by auto
qed

end
