(* ===== verification/Inode_Spec.thy ===== *)
theory Inode_Spec
  imports Dir_Spec Ext2frame
begin

unbundle bit_operations_syntax

text \<open>
  Where an inode stands on the volume: the group descriptor and the inode table as byte
  positions of the partition, and that the loader reads the inode there.
\<close>

section \<open>Places\<close>

text \<open>The byte position of the descriptor of group \<open>g\<close>, and of the inode.\<close>

definition group_place :: "bytes \<Rightarrow> nat \<Rightarrow> nat" where
  "group_place sb g = (unat (sb_first_data_block sb) + 1) * fs_bs sb + 32 * g"

definition inode_group :: "bytes \<Rightarrow> u32 \<Rightarrow> nat" where
  "inode_group sb ino = (unat ino - 1) div unat (sb_inodes_per_group sb)"

definition group_table :: "bytes \<Rightarrow> part_t \<Rightarrow> bytes \<Rightarrow> nat \<Rightarrow> u32" where
  "group_table img p sb g = bg_inode_table_id (slice (unat (p_start p) + group_place sb g) 32 img)"

definition inode_place :: "bytes \<Rightarrow> part_t \<Rightarrow> bytes \<Rightarrow> u32 \<Rightarrow> u32 \<Rightarrow> nat" where
  "inode_place img p sb isz ino =
     unat (group_table img p sb (inode_group sb ino)) * fs_bs sb
     + (unat ino - 1) mod unat (sb_inodes_per_group sb) * unat isz"

definition fs_inode :: "bytes \<Rightarrow> part_t \<Rightarrow> bytes \<Rightarrow> u32 \<Rightarrow> u32 \<Rightarrow> bytes" where
  "fs_inode img p sb isz ino = slice (unat (p_start p) + inode_place img p sb isz ino) 128 img"

text \<open>Bytes that the partition has, and whose sector the loader counts in 32 bits.\<close>

definition place_in :: "part_t \<Rightarrow> nat \<Rightarrow> nat \<Rightarrow> bool" where
  "place_in p a n \<longleftrightarrow> a + n < unat (p_len p) \<and> a < 2 ^ 41"

text \<open>Inodes fill their blocks, and the blocks fill the group's table.\<close>

definition inode_ok :: "bytes \<Rightarrow> part_t \<Rightarrow> bytes \<Rightarrow> u32 \<Rightarrow> u32 \<Rightarrow> bool" where
  "inode_ok img p sb isz ino \<longleftrightarrow>
     1 \<le> unat ino \<and> unat ino < 2 ^ 31 \<and> 0 < unat isz \<and> unat isz dvd fs_bs sb \<and> 0 < unat (sb_inodes_per_group sb)
     \<and> fs_bs sb div unat isz dvd unat (sb_inodes_per_group sb)
     \<and> place_in p (group_place sb (inode_group sb ino)) 32 \<and> place_in p (inode_place img p sb isz ino) 128"

section \<open>Reading at a place\<close>

lemma srem_small:
  assumes "unat a < 2 ^ 31" and "unat b < 2 ^ 31" and "0 < unat b"
  shows "unat (srem a b) = unat a mod unat b"
proof -
  have s: "sint x = int (unat x)" if "unat x < 2 ^ 31" for x :: u32
  proof -
    have "uint x < 2 ^ 31" using that by (simp add: nat_less_iff flip: nat_uint_eq)
    then have "signed_take_bit 31 (uint x) = uint x"
      using order_trans [of "- (2 ^ 31)" 0 "uint x"] by (intro signed_take_bit_int_eq_self) auto
    then show ?thesis by (simp add: sint_uint)
  qed
  have sg: "sgn (int x) * sgn (int y) * (int x div int y) = int x div int y" if "0 < y" for x y :: nat
    using that by (cases "x = 0") simp_all
  have "srem a b = word_of_int (int (unat a) - int (unat a) div int (unat b) * int (unat b))"
    by (simp only: srem_def s assms(1,2) sg [OF assms(3)] abs_of_nat)
  also have "\<dots> = word_of_nat (unat a mod unat b)"
    by (simp only: minus_div_mult_eq_mod zmod_int [symmetric] of_int_of_nat_eq)
  finally show ?thesis
    using mod_less_divisor [OF assms(3), of "unat a"] assms(2) by (simp add: unat_of_nat)
qed

lemma sector_of_block:
  assumes "sane_sb sb" and "unat b * fs_bs sb < 2 ^ 41"
  shows "512 * unat (slw b (LOG2_EXT2_BLOCK_SIZE sb)) = unat b * fs_bs sb"
proof -
  let ?l = "unat (LOG2_EXT2_BLOCK_SIZE sb)"
  have l: "?l = unat (sb_log2_block_size sb) + 1" "unat (sb_log2_block_size sb) \<le> 6"
    using sane_sizes(2) [OF assms(1)] assms(1) by (simp_all add: sane_sb_def)
  have bs: "fs_bs sb = 512 * 2 ^ ?l" unfolding fs_bs_def l by (simp add: power_add)
  have "512 * (unat b * 2 ^ ?l) < 512 * 2 ^ 32" using assms(2) unfolding bs by simp
  then have "unat b * 2 ^ ?l < 2 ^ 32" by simp
  then have "unat (slw b (LOG2_EXT2_BLOCK_SIZE sb)) = unat b * 2 ^ ?l" using l by (intro slw_small) auto
  then show ?thesis unfolding bs by simp
qed

text \<open>A block number and an offset in the block that make up a place.\<close>

lemma read_place:
  fixes b off n :: u32
  assumes dev: "block_device fw (p_dev (the_part w)) img pos" and on: "part_on img (the_part w)" and sane: "sane_sb sb"
    and a: "unat b * fs_bs sb + unat off = a" and inside: "place_in (the_part w) a (unat n)"
  shows "\<exists>s'. part_read fw (ucast (slw b (LOG2_EXT2_BLOCK_SIZE sb))) (ucast off) n w
    = (Inr (slice (unat (p_start (the_part w)) + a) (unat n) img), w\<lparr>fws := s'\<rparr>)"
proof -
  let ?s = "slw b (LOG2_EXT2_BLOCK_SIZE sb)"
  have s: "512 * unat ?s = unat b * fs_bs sb" using inside a by (intro sector_of_block [OF sane]) (simp add: place_in_def)
  have "unat (ucast ?s :: u64) = unat ?s" "unat (ucast off :: u64) = unat off" by simp_all
  then have u: "512 * unat (ucast ?s :: u64) + unat (ucast off :: u64) = a" "unat (ucast ?s :: u64) < 2 ^ 50"
      "unat (ucast off :: u64) < 2 ^ 32"
    using s a unat_lt_u32 [of ?s] unat_lt_u32 [of off] by simp_all
  have "in_part (the_part w) (ucast ?s) (ucast off) n" using inside u(1) by (simp add: in_part_def place_in_def)
  moreover have "part_bytes img (the_part w) (ucast ?s) (ucast off) n = slice (unat (p_start (the_part w)) + a) (unat n) img"
    unfolding part_bytes_def u(1) ..
  ultimately show ?thesis
    using part_read_into_eq [OF dev on u(2,3), of n] by (auto simp: part_read_def bnd_def ret_def)
qed

section \<open>Reading an inode\<close>

lemma blocks_and_offset:
  fixes c bs n k :: nat
  assumes "bs = c * n" and "0 < n"
  shows "(k div n) * bs + (k mod n) * c = c * k"
proof -
  have "(k div n) * bs + (k mod n) * c = c * (n * (k div n) + k mod n)"
    unfolding assms(1) by (simp only: distrib_left mult.assoc mult.commute mult.left_commute)
  then show ?thesis by simp
qed

lemma group_read:
  assumes dev: "block_device fw (p_dev (the_part w)) img pos" and on: "part_on img (the_part w)" and sane: "sane_sb sb"
    and inside: "place_in (the_part w) (group_place sb (unat g)) 32"
  shows "\<exists>s'. ext2fs_blockgroup fw sb g w
    = (Inr (slice (unat (p_start (the_part w)) + group_place sb (unat g)) 32 img), w\<lparr>fws := s'\<rparr>)"
proof -
  let ?bs = "fs_bs sb" and ?f = "sb_first_data_block sb" and ?d = "EXT2_BLOCK_SIZE sb div sizeof_block_group"
  note sz = sane_sizes(1,5,6) [OF sane]
  have "32 dvd ?bs"
  proof -
    have "?bs = 32 * 2 ^ (unat (sb_log2_block_size sb) + 5)" by (simp add: fs_bs_def power_add)
    then show ?thesis by simp
  qed
  then obtain m where m: "?bs = 32 * m" by (rule dvdE)
  have d: "unat ?d = m" using m sz(1) by (simp add: unat_div_distrib sizeof_block_group_def)
  have m0: "0 < m" using m sz(2) by linarith
  have place: "(unat ?f + 1) * ?bs + 32 * unat g < 2 ^ 41" using inside by (simp add: place_in_def group_place_def)
  have split: "(unat g div m) * ?bs + (unat g mod m) * 32 = 32 * unat g" by (rule blocks_and_offset [OF m m0])
  have "(unat ?f + 1 + unat g div m) * ?bs < 2 ^ 41" using place split by (simp add: distrib_right)
  moreover have "(unat ?f + 1 + unat g div m) * 1024 \<le> (unat ?f + 1 + unat g div m) * ?bs" using sz(2) by (rule mult_left_mono) simp
  ultimately have lt: "unat ?f + 1 + unat g div m < 2 ^ 32" by simp
  have f1: "unat (?f + 1) = unat ?f + 1" using lt unat_plus_no_wrap [of ?f 1] by simp
  have "unat (g div ?d) = unat g div m" by (simp only: unat_div_distrib [of g] d)
  then have b: "unat (?f + 1 + g div ?d) = unat ?f + 1 + unat g div m"
    using lt f1 unat_plus_no_wrap [of "?f + 1" "g div ?d"] by simp
  have "unat g mod m < m" using m0 by simp
  then have "unat g mod m * 32 < 2 ^ 32" using m sz(3) by simp
  then have o: "unat ((g mod ?d) * sizeof_block_group) = (unat g mod m) * 32"
    using d by (simp only: unat_word_ariths(2) unat_mod_distrib [of g] d) (simp add: sizeof_block_group_def)
  have "unat (?f + 1 + g div ?d) * ?bs + unat ((g mod ?d) * sizeof_block_group) = group_place sb (unat g)"
    unfolding b o group_place_def using split by (simp only: distrib_right)
  then show ?thesis
    using read_place [OF dev on sane, of "?f + 1 + g div ?d" "(g mod ?d) * sizeof_block_group" _ sizeof_block_group] inside
    by (simp add: ext2fs_blockgroup_def Let_def sizeof_block_group_def)
qed

lemma inode_read:
  fixes fw :: "'s firmware" and w :: "('s, 'z) emachine_scheme"
  assumes dev: "block_device fw (p_dev (the_part w)) img pos" and on: "part_on img (the_part w)" and sane: "sane_sb sb"
    and ok: "inode_ok img (the_part w) sb (inode_size w) ino"
  shows "\<exists>s'. ext2fs_read_inode fw sb ino w = (Inr (fs_inode img (the_part w) sb (inode_size w) ino), w\<lparr>fws := s'\<rparr>)"
proof -
  let ?bs = "fs_bs sb" and ?ipg = "sb_inodes_per_group sb" and ?z = "inode_size w" and ?i = "ino - 1"
  let ?g = "?i div ?ipg" and ?n = "EXT2_BLOCK_SIZE sb div ?z" and ?p = "the_part w"
  note sz = sane_sizes(1,5,6) [OF sane]
  have o: "1 \<le> unat ino" "unat ino < 2 ^ 31" "0 < unat ?z" "unat ?z dvd ?bs" "0 < unat ?ipg" "?bs div unat ?z dvd unat ?ipg"
    and gin: "place_in ?p (group_place sb (inode_group sb ino)) 32" and iin: "place_in ?p (inode_place img ?p sb ?z ino) 128"
    using ok by (simp_all add: inode_ok_def)
  have i: "unat ?i = unat ino - 1" using o(1) by (simp add: unat_sub word_le_nat_alt)
  have g: "unat ?g = inode_group sb ino" by (simp add: unat_div_distrib i inode_group_def)
  obtain m where m: "?bs = unat ?z * m" using o(4) by (rule dvdE)
  have n: "unat ?n = m" using m o(3) sz(1) by (simp add: unat_div_distrib)
  have m0: "0 < m" "m \<le> ?bs" using m sz(2) o(3) by (auto intro: gr0I)
  define k where "k = (unat ino - 1) mod unat ?ipg"
  have k: "unat (?i mod ?ipg) = k" by (simp add: unat_mod_distrib i k_def)
  have "m dvd unat ?ipg" using o(3,6) m by simp
  then have km: "(unat ino - 1) mod m = k mod m" unfolding k_def by (simp add: mod_mod_cancel)
  obtain s1 where r1: "ext2fs_blockgroup fw sb ?g w
      = (Inr (slice (unat (p_start ?p) + group_place sb (unat ?g)) 32 img), w\<lparr>fws := s1\<rparr>)"
    using group_read [OF dev on sane, of ?g] gin g by auto
  let ?d = "slice (unat (p_start ?p) + group_place sb (unat ?g)) 32 img"
  have t: "bg_inode_table_id ?d = group_table img ?p sb (inode_group sb ino)" by (simp add: group_table_def g)
  let ?t = "group_table img ?p sb (inode_group sb ino)"
  have place: "inode_place img ?p sb ?z ino = unat ?t * ?bs + k * unat ?z" by (simp add: inode_place_def k_def)
  have split: "(k div m) * ?bs + (k mod m) * unat ?z = unat ?z * k" by (rule blocks_and_offset [OF m m0(1)])
  have "(unat ?t + k div m) * ?bs = unat ?t * ?bs + (k div m) * ?bs" by (rule distrib_right)
  then have "(unat ?t + k div m) * ?bs \<le> inode_place img ?p sb ?z ino"
    using split unfolding place mult.commute [of k] by linarith
  then have "(unat ?t + k div m) * ?bs < 2 ^ 41" using iin by (simp add: place_in_def)
  moreover have "(unat ?t + k div m) * 1024 \<le> (unat ?t + k div m) * ?bs" using sz(2) by (rule mult_left_mono) simp
  ultimately have "unat ?t + k div m < 2 ^ 32" by simp
  moreover have "unat ((?i mod ?ipg) div ?n) = k div m" by (simp only: unat_div_distrib [of "?i mod ?ipg"] k n)
  ultimately have b: "unat (?t + (?i mod ?ipg) div ?n) = unat ?t + k div m"
    using unat_plus_no_wrap [of ?t "(?i mod ?ipg) div ?n"] by simp
  have sr: "unat (srem ?i ?n) = k mod m"
    using srem_small [of ?i ?n] i n o(2) m0 sz(3) km by simp
  have "(k mod m) * unat ?z < m * unat ?z" using m0(1) o(3) by (intro mult_strict_right_mono) simp_all
  also have "m * unat ?z \<le> 65536" using sz(3) by (simp add: m mult.commute)
  finally have "(k mod m) * unat ?z < 2 ^ 32" by (rule less_trans) simp
  then have off: "unat (srem ?i ?n * ?z) = (k mod m) * unat ?z" by (simp add: unat_word_ariths sr)
  have "unat (?t + (?i mod ?ipg) div ?n) * ?bs + unat (srem ?i ?n * ?z) = inode_place img ?p sb ?z ino"
    unfolding b off place by (simp only: distrib_right add.assoc split mult.commute [of k "unat ?z"])
  moreover have "block_device fw (p_dev (the_part (w\<lparr>fws := s1\<rparr>))) img pos" "part_on img (the_part (w\<lparr>fws := s1\<rparr>))"
    using dev on by simp_all
  moreover have "place_in (the_part (w\<lparr>fws := s1\<rparr>)) (inode_place img ?p sb ?z ino) (unat sizeof_inode)"
    using iin by (simp add: sizeof_inode_def)
  ultimately obtain s2 where
    "part_read fw (ucast (slw (?t + (?i mod ?ipg) div ?n) (LOG2_EXT2_BLOCK_SIZE sb))) (ucast (srem ?i ?n * ?z)) sizeof_inode (w\<lparr>fws := s1\<rparr>)
      = (Inr (fs_inode img ?p sb ?z ino), w\<lparr>fws := s2\<rparr>)"
    using read_place [of fw "w\<lparr>fws := s1\<rparr>" img pos sb "?t + (?i mod ?ipg) div ?n" "srem ?i ?n * ?z" _ sizeof_inode] sane
    by (auto simp: fs_inode_def sizeof_inode_def)
  then have "ext2fs_read_inode fw sb ino w = (Inr (fs_inode img ?p sb ?z ino), w\<lparr>fws := s2\<rparr>)"
    using r1 by (simp add: ext2fs_read_inode_def Let_def bnd_def t)
  then show ?thesis by (intro exI)
qed

end
