(* ===== verification/Tree_Spec.thy ===== *)
theory Tree_Spec
  imports Inode_Spec
begin

unbundle bit_operations_syntax

text \<open>
  Path lookup against a tree: what a path names is defined by rules on directories and links
  alone, and the lookup of the loader, with its nodes, its heap, its two caches and its counter
  of links, gives what the rules give.
\<close>

section \<open>The tree\<close>

text \<open>
  The numbers of the directories, the entries of each, the targets of the symbolic links, and a
  bound on the length of a target.
\<close>

record tree =
  tr_dirs :: "u32 list"
  tr_entries :: "u32 \<Rightarrow> dirent list"
  tr_target :: "u32 \<Rightarrow> string"
  tr_longest :: nat

text \<open>
  What is found is the number of an inode and the type that goes with it, which is unknown for
  the directory that an empty path stands for.
\<close>

type_synonym outcome = "quik_err_t + (u32 \<times> u8 option)"

text \<open>A link is followed from the root or from the directory it stands in.\<close>

definition link_start :: "tree \<Rightarrow> u32 \<Rightarrow> u32 \<Rightarrow> u32 \<Rightarrow> u32" where
  "link_start T rt d i = (if cnth (tr_target T i) 0 = CHR ''/'' then rt else d)"

text \<open>
  \<open>looks_up T rt n d path r n'\<close>: in directory \<open>d\<close>, after \<open>n\<close> links, \<open>path\<close> gives \<open>r\<close>, after \<open>n'\<close> links.
  \<open>walks\<close> is at an inode of a type with components left to look up, \<open>goes_on\<close> at what the first of
  them gave.  An error behind a link counts as a missing file.  The link whose target is the
  empty path, or only slashes, keeps its own type.
\<close>

inductive looks_up :: "tree \<Rightarrow> u32 \<Rightarrow> nat \<Rightarrow> u32 \<Rightarrow> string \<Rightarrow> outcome \<Rightarrow> nat \<Rightarrow> bool"
  and walks :: "tree \<Rightarrow> u32 \<Rightarrow> nat \<Rightarrow> u32 \<Rightarrow> u8 \<Rightarrow> string \<Rightarrow> outcome \<Rightarrow> nat \<Rightarrow> bool"
  and goes_on :: "tree \<Rightarrow> u32 \<Rightarrow> nat \<Rightarrow> u32 \<Rightarrow> u8 \<Rightarrow> string \<Rightarrow> outcome \<Rightarrow> nat \<Rightarrow> bool"
  for T rt where
  look_here: "skip_slashes path = [] \<Longrightarrow> looks_up T rt n d path (Inr (d, None)) n"
| look_down: "skip_slashes path \<noteq> [] \<Longrightarrow> walks T rt n d FILETYPE_DIRECTORY (skip_slashes path) r n' \<Longrightarrow> looks_up T rt n d path r n'"
| walk_file: "t \<noteq> FILETYPE_DIRECTORY \<Longrightarrow> walks T rt n d t name (Inl ERR_FS_NOT_DIR) n"
| walk_missing: "dir_find (path_head name) (tr_entries T d) = None
    \<Longrightarrow> walks T rt n d FILETYPE_DIRECTORY name (Inl ERR_FS_NOT_FOUND) n"
| walk_entry: "dir_find (path_head name) (tr_entries T d) = Some e \<Longrightarrow> dirent_type (de_type e) \<noteq> FILETYPE_SYMLINK
    \<Longrightarrow> goes_on T rt n (de_ino e) (dirent_type (de_type e)) name r n' \<Longrightarrow> walks T rt n d FILETYPE_DIRECTORY name r n'"
| walk_loop: "dir_find (path_head name) (tr_entries T d) = Some e \<Longrightarrow> dirent_type (de_type e) = FILETYPE_SYMLINK
    \<Longrightarrow> n = 7 \<Longrightarrow> walks T rt n d FILETYPE_DIRECTORY name (Inl ERR_FS_LOOP) 8"
| walk_dangling: "dir_find (path_head name) (tr_entries T d) = Some e \<Longrightarrow> dirent_type (de_type e) = FILETYPE_SYMLINK
    \<Longrightarrow> n \<noteq> 7 \<Longrightarrow> looks_up T rt (Suc n) (link_start T rt d (de_ino e)) (tr_target T (de_ino e)) (Inl x) n'
    \<Longrightarrow> walks T rt n d FILETYPE_DIRECTORY name (Inl ERR_FS_NOT_FOUND) n'"
| walk_link: "dir_find (path_head name) (tr_entries T d) = Some e \<Longrightarrow> dirent_type (de_type e) = FILETYPE_SYMLINK
    \<Longrightarrow> n \<noteq> 7 \<Longrightarrow> looks_up T rt (Suc n) (link_start T rt d (de_ino e)) (tr_target T (de_ino e)) (Inr (i, t)) n'
    \<Longrightarrow> goes_on T rt n' i (case t of Some ft \<Rightarrow> ft | None \<Rightarrow> FILETYPE_SYMLINK) name r n''
    \<Longrightarrow> walks T rt n d FILETYPE_DIRECTORY name r n''"
| on_last: "path_tail name = [] \<Longrightarrow> goes_on T rt n i t name (Inr (i, Some t)) n"
| on_next: "path_tail name \<noteq> [] \<Longrightarrow> walks T rt n i t (path_tail name) r n' \<Longrightarrow> goes_on T rt n i t name r n'"

inductive_cases looks_up_E: "looks_up T rt n d path r n'"
inductive_cases walks_E: "walks T rt n d t name r n'"
inductive_cases goes_on_E: "goes_on T rt n i t name r n'"

text \<open>A path has one outcome at most.\<close>

lemma outcome_unique:
  "looks_up T rt n d path r n' \<Longrightarrow> looks_up T rt n d path r2 n2 \<Longrightarrow> r2 = r \<and> n2 = n'"
  "walks T rt n d t name r n' \<Longrightarrow> walks T rt n d t name r2 n2 \<Longrightarrow> r2 = r \<and> n2 = n'"
  "goes_on T rt n i t name r n' \<Longrightarrow> goes_on T rt n i t name r2 n2 \<Longrightarrow> r2 = r \<and> n2 = n'"
proof (induction arbitrary: r2 n2 and r2 n2 and r2 n2 rule: looks_up_walks_goes_on.inducts)
  case (look_here path n d)
  show ?case by (rule looks_up_E [OF look_here.prems]) (use look_here.hyps in auto)
next
  case (look_down path n d r n')
  show ?case by (rule looks_up_E [OF look_down.prems]) (use look_down.hyps look_down.IH in \<open>metis option.inject option.distinct(1)\<close>)+
next
  case (walk_file t n d name)
  show ?case by (rule walks_E [OF walk_file.prems]) (use walk_file.hyps in auto)
next
  case (walk_missing name d n)
  show ?case by (rule walks_E [OF walk_missing.prems]) (use walk_missing(1) in auto)
next
  case (walk_entry name d e n r n')
  show ?case by (rule walks_E [OF walk_entry.prems]) (use walk_entry(1-4) in \<open>metis option.inject option.distinct(1)\<close>)+
next
  case (walk_loop name d e n)
  show ?case by (rule walks_E [OF walk_loop.prems]) (use walk_loop(1-3) in auto)
next
  case (walk_dangling name d e n x n')
  show ?case by (rule walks_E [OF walk_dangling.prems], use walk_dangling(1,4,5) in simp_all) (use walk_dangling(3) in blast)+
next
  case (walk_link name d e n i t n' r n'')
  show ?case by (rule walks_E [OF walk_link.prems], use walk_link(1,6,7) in simp_all) (use walk_link(3,5) in blast)+
next
  case (on_last name n i t)
  show ?case by (rule goes_on_E [OF on_last.prems]) (use on_last.hyps in auto)
next
  case (on_next name n i t r n')
  show ?case by (rule goes_on_E [OF on_next.prems]) (use on_next.hyps on_next.IH in \<open>metis option.inject option.distinct(1)\<close>)+
qed

section \<open>The volume that holds it\<close>

record volume =
  vo_img :: bytes
  vo_part :: part_t
  vo_data :: ext2_data
  vo_isz :: u32

abbreviation vo_sb :: "volume \<Rightarrow> bytes" where "vo_sb v \<equiv> ed_sblock (vo_data v)"

definition vol_inode :: "volume \<Rightarrow> u32 \<Rightarrow> bytes" where
  "vol_inode v i = fs_inode (vo_img v) (vo_part v) (vo_sb v) (vo_isz v) i"

text \<open>The node of an inode that has been read, and what any node of it agrees with.\<close>

definition vol_node :: "volume \<Rightarrow> u32 \<Rightarrow> ext2fs_node" where
  "vol_node v i = \<lparr>nd_addr = 0, nd_data = vo_data v, nd_inode = vol_inode v i, nd_ino = i, nd_read = True\<rparr>"

definition node_for :: "volume \<Rightarrow> u32 \<Rightarrow> ext2fs_node \<Rightarrow> bool" where
  "node_for v i nd \<longleftrightarrow> nd_data nd = vo_data v \<and> nd_ino nd = i \<and> (nd_read nd \<longrightarrow> nd_inode nd = vol_inode v i) \<and> nd_addr nd \<noteq> 0"

definition inode_on :: "volume \<Rightarrow> u32 \<Rightarrow> bool" where
  "inode_on v i \<longleftrightarrow> inode_ok (vo_img v) (vo_part v) (vo_sb v) (vo_isz v) i"

definition content :: "volume \<Rightarrow> u32 \<Rightarrow> bytes" where
  "content v i = dir_bytes (vo_img v) (vo_part v) (vol_node v i)"

definition file_on :: "volume \<Rightarrow> u32 \<Rightarrow> bool" where
  "file_on v i \<longleftrightarrow> file_ok (vo_img v) (vo_part v) (vol_node v i)"

definition dir_on :: "volume \<Rightarrow> tree \<Rightarrow> nat \<Rightarrow> u32 \<Rightarrow> bool" where
  "dir_on v T B d \<longleftrightarrow> inode_on v d \<and> file_on v d \<and> dir_chain (content v d) 0 (tr_entries T d) \<and> length (tr_entries T d) < B"

text \<open>A short target stands in the inode, a longer one is the content of the file.\<close>

definition link_text :: "volume \<Rightarrow> u32 \<Rightarrow> string" where
  "link_text v i =
     (let sz = i_size (vol_inode v i) in
      cstr (if sz \<le> 60 then take (unat sz) (i_symlink (vol_inode v i)) else content v i))"

definition link_on :: "volume \<Rightarrow> tree \<Rightarrow> u32 \<Rightarrow> bool" where
  "link_on v T i \<longleftrightarrow> inode_on v i \<and> (60 < i_size (vol_inode v i) \<longrightarrow> file_on v i)
     \<and> unat (i_size (vol_inode v i)) \<le> tr_longest T \<and> tr_target T i = link_text v i"

definition tree_on :: "volume \<Rightarrow> tree \<Rightarrow> nat \<Rightarrow> bool" where
  "tree_on v T B \<longleftrightarrow> tr_longest T < 2 ^ 31 \<and> (\<forall>d \<in> set (tr_dirs T). dir_on v T B d \<and> (\<forall>e \<in> set (tr_entries T d).
     (dirent_type (de_type e) = FILETYPE_DIRECTORY \<longrightarrow> de_ino e \<in> set (tr_dirs T))
     \<and> (dirent_type (de_type e) = FILETYPE_SYMLINK \<longrightarrow> link_on v T (de_ino e))))"

text \<open>The volume is the one that is mounted, with \<open>root\<close> as its root, \<open>n\<close> links have been followed and \<open>k\<close> bytes are free.\<close>

definition at_work :: "volume \<Rightarrow> ext2fs_node \<Rightarrow> nat \<Rightarrow> nat \<Rightarrow> nat \<Rightarrow> ('s, 'z) emachine_scheme \<Rightarrow> bool" where
  "at_work v root B n k w \<longleftrightarrow> vol_inv (vo_img v) (vo_part v) (fs_bs (vo_sb v)) k w
     \<and> fs_root w = Some root \<and> inode_size w = vo_isz v \<and> budget w = B \<and> symlinknest w = word_of_nat n"

definition disk_of :: "'s firmware \<Rightarrow> volume \<Rightarrow> bool" where
  "disk_of fw v \<longleftrightarrow> (\<exists>pos. block_device fw (p_dev (vo_part v)) (vo_img v) pos) \<and> part_on (vo_img v) (vo_part v) \<and> sane_sb (vo_sb v)"

interpretation mounted: fs_frame
    "\<lambda>w :: ('s, 'z) emachine_scheme. fs_root w = r \<and> inode_size w = z \<and> budget w = B \<and> symlinknest w = c" for r z B c
  by unfold_locales auto

lemma at_work_mono: "at_work v root B n j w \<Longrightarrow> k \<le> j \<Longrightarrow> at_work v root B n k w"
  by (auto simp: at_work_def intro: vol_inv_mono)

lemma at_work_fws: "at_work v root B n k (w\<lparr>fws := s\<rparr>) = at_work v root B n k w"
  by (simp add: at_work_def vol_inv_fws)

lemma at_work_free:
  assumes "at_work v root B n k w" and "a \<noteq> 0"
  shows "\<exists>w'. freeM a w = (Inr (), w') \<and> at_work v root B n k w'"
    and "\<exists>w'. ext2fs_free_node a c w = (Inr (), w') \<and> at_work v root B n k w'"
proof -
  have f: "freeM a w = (Inr (), w\<lparr>mem := free a (mem w)\<rparr>)" by (simp add: freeM_def modify_def)
  have "at_work v root B n k (w\<lparr>mem := free a (mem w)\<rparr>)"
    using assms by (auto simp: at_work_def vol_inv_def free_roomy)
  then show "\<exists>w'. freeM a w = (Inr (), w') \<and> at_work v root B n k w'"
    "\<exists>w'. ext2fs_free_node a c w = (Inr (), w') \<and> at_work v root B n k w'"
    using f assms(1) by (auto simp: ext2fs_free_node_def)
qed

section \<open>One step of the lookup\<close>

text \<open>The inode of a node is read unless it was before.\<close>

lemma node_inode:
  fixes fw :: "'s firmware" and w :: "('s, 'z) emachine_scheme"
  assumes "disk_of fw v" and "inode_on v i" and "node_for v i nd" and "at_work v root B n k w"
  shows "\<exists>s. (if nd_read nd then ret nd
      else bnd (ext2fs_read_inode fw (ed_sblock (nd_data nd)) (nd_ino nd)) (\<lambda>x. ret (nd\<lparr>nd_inode := x\<rparr>))) w
    = (Inr (nd\<lparr>nd_inode := vol_inode v i\<rparr>), w\<lparr>fws := s\<rparr>)"
proof (cases "nd_read nd")
  case True
  then have "nd\<lparr>nd_inode := vol_inode v i\<rparr> = nd" using assms(3) by (simp add: node_for_def)
  then have "(if nd_read nd then ret nd
      else bnd (ext2fs_read_inode fw (ed_sblock (nd_data nd)) (nd_ino nd)) (\<lambda>x. ret (nd\<lparr>nd_inode := x\<rparr>))) w
    = (Inr (nd\<lparr>nd_inode := vol_inode v i\<rparr>), w\<lparr>fws := fws w\<rparr>)" using True by (simp add: ret_def)
  then show ?thesis by (intro exI)
next
  case False
  obtain pos where "block_device fw (p_dev (vo_part v)) (vo_img v) pos" "part_on (vo_img v) (vo_part v)" "sane_sb (vo_sb v)"
    using assms(1) by (auto simp: disk_of_def)
  moreover have "the_part w = vo_part v" "inode_size w = vo_isz v" using assms(4) by (simp_all add: at_work_def vol_inv_def)
  ultimately obtain s where "ext2fs_read_inode fw (vo_sb v) i w = (Inr (vol_inode v i), w\<lparr>fws := s\<rparr>)"
    using inode_read [of fw w "vo_img v" pos "vo_sb v" i] assms(2) by (auto simp: inode_on_def vol_inode_def)
  then show ?thesis using False assms(3) by (auto simp: bnd_def ret_def node_for_def)
qed

lemma node_iterate:
  fixes fw :: "'s firmware" and w :: "('s, 'z) emachine_scheme"
  assumes dk: "disk_of fw v" and d: "dir_on v T B d" and nd: "node_for v d nd" and nm: "NUL \<notin> set nm"
    and w: "at_work v root B n (k + 148) w"
  shows "\<exists>w'. at_work v root B n k w' \<and> (case dir_find nm (tr_entries T d) of
       None \<Rightarrow> ext2fs_iterate_dir fw nd (Some nm) w = (Inl (Err ERR_FS_NOT_FOUND), w')
     | Some e \<Rightarrow> \<exists>nd'. node_for v (de_ino e) nd' \<and> \<not> nd_read nd'
         \<and> ext2fs_iterate_dir fw nd (Some nm) w = (Inr (nd', dirent_type (de_type e)), w'))"
proof -
  let ?sb = "vo_sb v" and ?rd = "if nd_read nd then ret nd
      else bnd (ext2fs_read_inode fw (ed_sblock (nd_data nd)) (nd_ino nd)) (\<lambda>x. ret (nd\<lparr>nd_inode := x\<rparr>))"
  obtain s where s: "?rd w = (Inr (nd\<lparr>nd_inode := vol_inode v d\<rparr>), w\<lparr>fws := s\<rparr>)"
    using node_inode [OF dk _ nd w] d by (auto simp: dir_on_def)
  obtain pos where dev: "block_device fw (p_dev (vo_part v)) (vo_img v) pos" "part_on (vo_img v) (vo_part v)" "sane_sb ?sb"
    using dk by (auto simp: disk_of_def)
  have data: "nd_data nd = vo_data v" using nd by (simp add: node_for_def)
  have bytes: "dir_bytes (vo_img v) (vo_part v) (nd\<lparr>nd_inode := vol_inode v d\<rparr>) = content v d"
      "file_ok (vo_img v) (vo_part v) (nd\<lparr>nd_inode := vol_inode v d\<rparr>) = file_on v d"
    by (simp_all add: content_def file_on_def dir_bytes_def file_ok_def vol_node_def data Let_def)
  have b: "budget w = B" using w by (simp add: at_work_def)
  have "vol_inv (vo_img v) (vo_part v) (fs_bs ?sb) (k + unat sizeof_node + 8) (w\<lparr>fws := s\<rparr>)"
    using w by (simp add: at_work_def vol_inv_fws sizeof_node_def add.assoc)
  then obtain w' where inv: "vol_inv (vo_img v) (vo_part v) (fs_bs ?sb) k w'"
    and r: "case dir_find nm (tr_entries T d) of
       None \<Rightarrow> dir_loop fw (nd\<lparr>nd_inode := vol_inode v d\<rparr>) (Some nm) 0 B (w\<lparr>fws := s\<rparr>) = (Inl (Err ERR_FS_NOT_FOUND), w')
     | Some e \<Rightarrow> \<exists>a. a \<noteq> 0 \<and> dir_loop fw (nd\<lparr>nd_inode := vol_inode v d\<rparr>) (Some nm) 0 B (w\<lparr>fws := s\<rparr>)
         = (Inr (entry_node (nd\<lparr>nd_inode := vol_inode v d\<rparr>) a e, dirent_type (de_type e)), w')"
    using dir_loop_finds [OF dev(1,2), of "nd\<lparr>nd_inode := vol_inode v d\<rparr>" nm 0 "tr_entries T d" B k "w\<lparr>fws := s\<rparr>"]
      dev(3) d nm bytes by (auto simp: data dir_on_def)
  have it: "ext2fs_iterate_dir fw nd (Some nm) w = dir_loop fw (nd\<lparr>nd_inode := vol_inode v d\<rparr>) (Some nm) 0 B (w\<lparr>fws := s\<rparr>)"
    unfolding ext2fs_iterate_dir_def bnd_Inr [where m = ?rd and w = w, OF s] by (simp add: b)
  have "fs_root (snd (ext2fs_iterate_dir fw nd (Some nm) w)) = Some root \<and> inode_size (snd (ext2fs_iterate_dir fw nd (Some nm) w)) = vo_isz v
      \<and> budget (snd (ext2fs_iterate_dir fw nd (Some nm) w)) = B \<and> symlinknest (snd (ext2fs_iterate_dir fw nd (Some nm) w)) = word_of_nat n"
    using w by (intro mounted.step_iterate_dir) (simp add: at_work_def)
  moreover have "snd (ext2fs_iterate_dir fw nd (Some nm) w) = w'" using it r by (auto split: option.splits)
  ultimately have aw: "at_work v root B n k w'" using inv by (simp add: at_work_def)
  have "node_for v (de_ino e) (entry_node (nd\<lparr>nd_inode := vol_inode v d\<rparr>) a e)" if "a \<noteq> 0" for a e
    using that by (simp add: node_for_def entry_node_def data)
  moreover have "\<not> nd_read (entry_node (nd\<lparr>nd_inode := vol_inode v d\<rparr>) a e)" for a e by (simp add: entry_node_def)
  ultimately show ?thesis using r aw unfolding it by (fastforce split: option.splits)
qed

text \<open>The target of a link is read into a buffer of its own.\<close>

lemma target_length: "link_on v T i \<Longrightarrow> length (tr_target T i) \<le> tr_longest T"
proof -
  assume l: "link_on v T i"
  have "length (content v i) = unat (i_size (vol_inode v i))" by (simp add: content_def dir_bytes_def vol_node_def)
  then have "length (link_text v i) \<le> unat (i_size (vol_inode v i))"
    by (auto simp: link_text_def Let_def cstr_def intro!: order_trans [OF length_takeWhile_le])
  then show ?thesis using l by (simp add: link_on_def)
qed

lemma target_nul: "link_on v T i \<Longrightarrow> NUL \<notin> set (tr_target T i)"
  by (auto simp: link_on_def link_text_def Let_def cstr_def dest: set_takeWhileD)

lemma node_symlink:
  fixes fw :: "'s firmware" and w :: "('s, 'z) emachine_scheme"
  assumes dk: "disk_of fw v" and l: "link_on v T i" and nd: "node_for v i nd" and L: "tr_longest T < 2 ^ 31"
    and w: "at_work v root B n (k + tr_longest T + 9) w"
  shows "\<exists>a w'. a \<noteq> 0 \<and> ext2fs_read_symlink fw nd w = (Inr (a, tr_target T i), w') \<and> at_work v root B n k w'"
proof -
  let ?sb = "vo_sb v" and ?sz = "i_size (vol_inode v i)" and ?nd = "nd\<lparr>nd_inode := vol_inode v i\<rparr>"
    and ?rd = "if nd_read nd then ret nd
      else bnd (ext2fs_read_inode fw (ed_sblock (nd_data nd)) (nd_ino nd)) (\<lambda>x. ret (nd\<lparr>nd_inode := x\<rparr>))"
  obtain s where s: "?rd w = (Inr ?nd, w\<lparr>fws := s\<rparr>)"
    using node_inode [OF dk _ nd w] l by (auto simp: link_on_def)
  obtain pos where dev: "block_device fw (p_dev (vo_part v)) (vo_img v) pos" "part_on (vo_img v) (vo_part v)" "sane_sb ?sb"
    using dk by (auto simp: disk_of_def)
  have data: "nd_data nd = vo_data v" using nd by (simp add: node_for_def)
  have z: "unat ?sz \<le> tr_longest T" using l by (simp add: link_on_def)
  then have z1: "unat (?sz + 1) = unat ?sz + 1" using L unat_plus_no_wrap [of ?sz 1] by simp
  have "vol_inv (vo_img v) (vo_part v) (fs_bs ?sb) (k + tr_longest T + 9) (w\<lparr>fws := s\<rparr>)"
    using w by (simp add: at_work_def vol_inv_fws)
  then have "vol_inv (vo_img v) (vo_part v) (fs_bs ?sb) (k + unat (?sz + 1) + 8) (w\<lparr>fws := s\<rparr>)"
    by (rule vol_inv_mono) (use z z1 in linarith)
  then obtain a h where m: "mallocM (?sz + 1) (w\<lparr>fws := s\<rparr>) = (Inr a, w\<lparr>fws := s, mem := h\<rparr>)" "a \<noteq> 0"
    and inv: "vol_inv (vo_img v) (vo_part v) (fs_bs ?sb) k (w\<lparr>fws := s, mem := h\<rparr>)"
    by (rule vol_malloc) (rule that)
  let ?w = "w\<lparr>fws := s, mem := h\<rparr>"
  have aw: "at_work v root B n k ?w" using inv w by (simp add: at_work_def)
  have eq: "ext2fs_read_symlink fw nd w = (if ?sz \<le> 60 then ret (a, cstr (take (unat ?sz) (i_symlink (vol_inode v i))))
      else bnd (catch (ext2fs_read_file fw ?nd 0 ?sz)) (\<lambda>r.
             case r of Inl e \<Rightarrow> bnd (freeM a) (\<lambda>_. throw (Err e)) | Inr data \<Rightarrow> ret (a, cstr (take (unat ?sz) data)))) ?w"
    unfolding ext2fs_read_symlink_def bnd_Inr [where m = ?rd and w = w, OF s]
    by (simp add: Let_def bnd_Inr [where m = "mallocM (?sz + 1)" and w = "w\<lparr>fws := s\<rparr>", OF m(1)] m(2))
  show ?thesis
  proof (cases "?sz \<le> 60")
    case True
    then have "tr_target T i = cstr (take (unat ?sz) (i_symlink (vol_inode v i)))" using l by (simp add: link_on_def link_text_def)
    then have "ext2fs_read_symlink fw nd w = (Inr (a, tr_target T i), ?w)" unfolding eq if_P [OF True] by (simp add: ret_def)
    then show ?thesis using m(2) aw by blast
  next
    case False
    then have f: "file_on v i" and t: "tr_target T i = cstr (content v i)" using l by (simp_all add: link_on_def link_text_def Let_def)
    have bytes: "dir_bytes (vo_img v) (vo_part v) ?nd = content v i" "file_ok (vo_img v) (vo_part v) ?nd = file_on v i"
      by (simp_all add: content_def file_on_def dir_bytes_def file_ok_def vol_node_def data Let_def)
    have len: "length (content v i) = unat ?sz" by (simp add: content_def dir_bytes_def vol_node_def)
    have "0 < unat ?sz" using False by (simp add: word_le_nat_alt)
    then obtain q w' where r: "ext2fs_read_file fw ?nd 0 ?sz ?w = (Inr (slice 0 (unat ?sz) (content v i) @ q), w')"
      and inv': "vol_inv (vo_img v) (vo_part v) (fs_bs ?sb) k w'"
      using read_dir_ok [OF dev(1,2), of ?nd 0 ?sz k ?w] dev(3) f bytes inv by (auto simp: data)
    have "fs_root (snd (ext2fs_read_file fw ?nd 0 ?sz ?w)) = Some root \<and> inode_size (snd (ext2fs_read_file fw ?nd 0 ?sz ?w)) = vo_isz v
        \<and> budget (snd (ext2fs_read_file fw ?nd 0 ?sz ?w)) = B \<and> symlinknest (snd (ext2fs_read_file fw ?nd 0 ?sz ?w)) = word_of_nat n"
      using aw by (intro mounted.step_read_file) (simp add: at_work_def)
    then have "at_work v root B n k w'" using inv' r by (simp add: at_work_def)
    moreover have "take (unat ?sz) (slice 0 (unat ?sz) (content v i) @ q) = content v i" using len by (simp add: slice_def)
    then have "ext2fs_read_symlink fw nd w = (Inr (a, tr_target T i), w')"
      unfolding eq if_not_P [OF False] t using r by (simp add: bnd_def catch_def ret_def)
    ultimately show ?thesis using m(2) by blast
  qed
qed

section \<open>The lookup\<close>

definition link_cost :: "tree \<Rightarrow> nat" where
  "link_cost T = tr_longest T + 9 + 148 * tr_longest T"

text \<open>
  The result \<open>x\<close> of the loader is the outcome \<open>r\<close>; what was found, with its counter of links and the
  room that is left.
\<close>

definition served :: "volume \<Rightarrow> tree \<Rightarrow> ext2fs_node \<Rightarrow> nat \<Rightarrow> nat \<Rightarrow> nat \<Rightarrow> outcome \<Rightarrow> nat
    \<Rightarrow> stop + (ext2fs_node \<times> u8 option) \<Rightarrow> ('s, 'z) emachine_scheme \<Rightarrow> bool" where
  "served v T root B n k r n' x w' \<longleftrightarrow>
     (case r of
        Inl e \<Rightarrow> x = Inl (Err e)
      | Inr (i, t) \<Rightarrow> n \<le> n' \<and> n' < 8 \<and> (t = Some FILETYPE_DIRECTORY \<longrightarrow> i \<in> set (tr_dirs T))
          \<and> (\<exists>nd. x = Inr (nd, t) \<and> node_for v i nd) \<and> at_work v root B n' (k + (8 - n') * link_cost T) w')"

definition looks_ok :: "volume \<Rightarrow> tree \<Rightarrow> u32 \<Rightarrow> ext2fs_node \<Rightarrow> nat \<Rightarrow> ('s, 'z) lookup \<Rightarrow> nat \<Rightarrow> bool" where
  "looks_ok v T rt root B f m \<longleftrightarrow> (\<forall>n d path nd k w.
     8 \<le> n + m \<longrightarrow> n < 8 \<longrightarrow> d \<in> set (tr_dirs T) \<longrightarrow> node_for v d nd \<longrightarrow> NUL \<notin> set path
     \<longrightarrow> at_work v root B n (k + 148 * length path + (8 - n) * link_cost T) w
     \<longrightarrow> (\<exists>r n'. looks_up T rt n d path r n' \<and> served v T root B n k r n' (fst (f path nd w)) (snd (f path nd w))))"

lemma looks_okD:
  assumes "looks_ok v T rt root B f m" and "8 \<le> n + m" and "n < 8" and "d \<in> set (tr_dirs T)" and "node_for v d nd"
    and "NUL \<notin> set path" and "at_work v root B n (k + 148 * length path + (8 - n) * link_cost T) w"
  obtains r n' where "looks_up T rt n d path r n'" and "served v T root B n k r n' (fst (f path nd w)) (snd (f path nd w))"
  using assms unfolding looks_ok_def by blast

lemma nest_word:
  assumes "n < 8"
  shows "word_of_nat n + 1 = (word_of_nat (Suc n) :: u32)" and "(word_of_nat (Suc n) = max_symlinks) \<longleftrightarrow> n = 7"
proof -
  have "unat (word_of_nat (Suc n) :: u32) = Suc n" using assms by (intro unat_word_of_nat_small) simp
  then show "(word_of_nat (Suc n) = max_symlinks) \<longleftrightarrow> n = 7" by (auto simp: max_symlinks_def word_unat_eq_iff)
qed simp

text \<open>Following a link: too many of them, an error behind it, or what it leads to.\<close>

lemma follow_ok:
  fixes fw :: "'s firmware" and w :: "('s, 'z) emachine_scheme"
  assumes dk: "disk_of fw v" and f: "looks_ok v T rt root B f m" and L: "tr_longest T < 2 ^ 31"
    and rt: "node_for v rt root" "rt \<in> set (tr_dirs T)" and n: "n < 8" "8 \<le> Suc n + m"
    and l: "link_on v T i" and nd: "node_for v i nd" and old: "node_for v d old" "d \<in> set (tr_dirs T)"
    and w: "at_work v root B n (k + (8 - n) * link_cost T) w"
  shows "if n = 7 then fst (follow_link fw f currroot nd old w) = Inl (Err ERR_FS_LOOP)
    else \<exists>r n'. looks_up T rt (Suc n) (link_start T rt d i) (tr_target T i) r n'
      \<and> (case r of
           Inl e \<Rightarrow> fst (follow_link fw f currroot nd old w) = Inl (Err ERR_FS_NOT_FOUND)
         | Inr (j, t) \<Rightarrow> \<exists>found from w'. follow_link fw f currroot nd old w
               = (Inr (found, case t of Some ft \<Rightarrow> ft | None \<Rightarrow> FILETYPE_SYMLINK, from), w')
             \<and> nd_addr from \<noteq> 0 \<and> Suc n \<le> n' \<and> n' < 8 \<and> (t = Some FILETYPE_DIRECTORY \<longrightarrow> j \<in> set (tr_dirs T))
             \<and> node_for v j found \<and> at_work v root B n' (k + (8 - n') * link_cost T) w')"
proof -
  let ?w = "w\<lparr>symlinknest := word_of_nat (Suc n)\<rparr>" and ?C = "link_cost T"
  have c: "symlinknest w = word_of_nat n" using w by (simp add: at_work_def)
  have inc: "modify (\<lambda>w. w\<lparr>symlinknest := symlinknest w + 1\<rparr>) w = (Inr (), ?w)"
    by (simp add: modify_def c nest_word(1) [OF n(1)])
  have aw: "at_work v root B (Suc n) (k + (8 - n) * ?C) ?w" using w by (simp add: at_work_def vol_inv_def)
  have a0: "nd_addr nd \<noteq> 0" "nd_addr old \<noteq> 0" "nd_addr root \<noteq> 0" using nd old rt by (simp_all add: node_for_def)
  note start = bnd_Inr [where m = "modify (\<lambda>w. w\<lparr>symlinknest := symlinknest w + 1\<rparr>)" and w = w, OF inc]
  show ?thesis
  proof (cases "n = 7")
    case True
    obtain w1 where f1: "ext2fs_free_node (nd_addr nd) (nd_addr currroot) ?w = (Inr (), w1)" "at_work v root B (Suc n) (k + (8 - n) * ?C) w1"
      using at_work_free(2) [OF aw a0(1)] by blast
    obtain w2 where f2: "ext2fs_free_node (nd_addr old) (nd_addr currroot) w1 = (Inr (), w2)"
      using at_work_free(2) [OF f1(2) a0(2)] by blast
    have "symlinknest ?w = max_symlinks" using nest_word(2) [OF n(1)] True by simp
    then show ?thesis unfolding follow_link_def start using True f1(1) f2 by (simp add: bnd_def throw_def)
  next
    case False
    have n8: "8 - n = Suc (8 - Suc n)" using n(1) by simp
    have room: "k + (8 - n) * ?C = (k + 148 * tr_longest T + (8 - Suc n) * ?C) + tr_longest T + 9"
      unfolding n8 by (simp add: link_cost_def)
    obtain a w1 where sy: "a \<noteq> 0" "ext2fs_read_symlink fw nd ?w = (Inr (a, tr_target T i), w1)"
        "at_work v root B (Suc n) (k + 148 * tr_longest T + (8 - Suc n) * ?C) w1"
      using node_symlink [OF dk l nd L aw [unfolded room]] by blast
    obtain w2 where f1: "ext2fs_free_node (nd_addr nd) (nd_addr currroot) w1 = (Inr (), w2)"
        "at_work v root B (Suc n) (k + 148 * tr_longest T + (8 - Suc n) * ?C) w2"
      using at_work_free(2) [OF sy(3) a0(1)] by blast
    let ?from = "if cnth (tr_target T i) 0 = CHR ''/'' then root else old"
    obtain w3 where fr: "(if cnth (tr_target T i) 0 = CHR ''/'' then
                      bnd (ext2fs_free_node (nd_addr old) (nd_addr currroot)) (\<lambda>_.
                      gets (\<lambda>w. case fs_root w of Some rt \<Rightarrow> rt | None \<Rightarrow> old))
                    else ret old) w2 = (Inr ?from, w3)"
        "at_work v root B (Suc n) (k + 148 * tr_longest T + (8 - Suc n) * ?C) w3"
    proof (cases "cnth (tr_target T i) 0 = CHR ''/''")
      case True
      obtain w3 where "ext2fs_free_node (nd_addr old) (nd_addr currroot) w2 = (Inr (), w3)"
          "at_work v root B (Suc n) (k + 148 * tr_longest T + (8 - Suc n) * ?C) w3"
        using at_work_free(2) [OF f1(2) a0(2)] by blast
      moreover have "fs_root w3 = Some root" using calculation(2) by (simp add: at_work_def)
      ultimately show thesis using that [of w3] True by (simp add: bnd_def gets_def)
    qed (use that [of w2] f1(2) in \<open>simp add: ret_def\<close>)
    have beg: "node_for v (link_start T rt d i) ?from" "link_start T rt d i \<in> set (tr_dirs T)"
      using rt old by (auto simp: link_start_def)
    have "at_work v root B (Suc n) (k + 148 * length (tr_target T i) + (8 - Suc n) * ?C) w3"
      using fr(2) target_length [OF l] by (auto intro: at_work_mono)
    moreover have n7: "Suc n < 8" using n(1) False by simp
    ultimately obtain r n' where r: "looks_up T rt (Suc n) (link_start T rt d i) (tr_target T i) r n'"
      and found: "served v T root B (Suc n) k r n' (fst (f (tr_target T i) ?from w3)) (snd (f (tr_target T i) ?from w3))"
      using looks_okD [OF f n(2) _ beg(2,1) target_nul [OF l]] n7 by blast
    obtain x w4 where x: "f (tr_target T i) ?from w3 = (x, w4)" by fastforce
    have ne: "symlinknest ?w \<noteq> max_symlinks" using nest_word(2) [OF n(1)] False by simp
    let ?k3 = "\<lambda>from. bnd (catch (f (tr_target T i) from)) (\<lambda>r2.
               bnd (freeM a) (\<lambda>_.
                 case r2 of
                   Inl e \<Rightarrow> bnd (ext2fs_free_node (nd_addr from) (nd_addr currroot))
                               (\<lambda>_. throw (Err ERR_FS_NOT_FOUND))
                 | Inr (found, t) \<Rightarrow>
                     ret (found, case t of Some ft \<Rightarrow> ft | None \<Rightarrow> FILETYPE_SYMLINK, from)))"
    have "follow_link fw f currroot nd old w = bnd (if cnth (tr_target T i) 0 = CHR ''/'' then
                      bnd (ext2fs_free_node (nd_addr old) (nd_addr currroot)) (\<lambda>_.
                      gets (\<lambda>w. case fs_root w of Some rt \<Rightarrow> rt | None \<Rightarrow> old))
                    else ret old) ?k3 w2"
      unfolding follow_link_def start using ne sy(2) f1(1) by (simp add: bnd_def catch_def)
    then have eq: "follow_link fw f currroot nd old w = ?k3 ?from w3" using fr(1) by (simp add: bnd_def)
    show ?thesis
    proof (cases r)
      case (Inl e)
      then have "x = Inl (Err e)" using found x by (simp add: served_def)
      then have "fst (follow_link fw f currroot nd old w) = Inl (Err ERR_FS_NOT_FOUND)"
        unfolding eq using x by (simp add: bnd_def catch_def freeM_def modify_def ext2fs_free_node_def throw_def)
      then show ?thesis unfolding if_not_P [OF False] using r Inl by (intro exI [of _ r] exI [of _ n']) simp
    next
      case (Inr jt)
      obtain j t where jt: "jt = (j, t)" by (cases jt)
      obtain nd' where nd': "x = Inr (nd', t)" "node_for v j nd'" and g: "Suc n \<le> n'" "n' < 8"
          "t = Some FILETYPE_DIRECTORY \<longrightarrow> j \<in> set (tr_dirs T)" "at_work v root B n' (k + (8 - n') * ?C) w4"
        using found x unfolding Inr jt by (auto simp: served_def)
      obtain w5 where w5: "freeM a w4 = (Inr (), w5)" "at_work v root B n' (k + (8 - n') * ?C) w5"
        using at_work_free(1) [OF g(4) sy(1)] by blast
      have "follow_link fw f currroot nd old w = (Inr (nd', case t of Some ft \<Rightarrow> ft | None \<Rightarrow> FILETYPE_SYMLINK, ?from), w5)"
        unfolding eq using x nd'(1) w5(1) by (simp add: bnd_def catch_def ret_def)
      moreover have "nd_addr ?from \<noteq> 0" using a0 by simp
      ultimately show ?thesis unfolding if_not_P [OF False] using r nd'(2) g(1-3) w5(2) unfolding Inr jt
        by (intro exI [of _ "Inr (j, t)"] exI [of _ n']) auto
    qed
  qed
qed

text \<open>What the loop does with a component once it is found, and what it promises for the rest of a path.\<close>

definition walk_on :: "'s firmware \<Rightarrow> ('s, 'z) lookup \<Rightarrow> ext2fs_node \<Rightarrow> string \<Rightarrow> ext2fs_node \<times> u8 \<times> ext2fs_node
    \<Rightarrow> ('s, 'z, ext2fs_node \<times> u8 option) eprog" where
  "walk_on fw f currroot name = (\<lambda>(node2, t2, oldnode).
     bnd (ext2fs_free_node (nd_addr oldnode) (nd_addr currroot)) (\<lambda>_.
       if path_tail name = [] then ret (node2, Some t2)
       else walk_path fw f currroot (path_tail name) node2 t2))"

definition walk_serves :: "'s firmware \<Rightarrow> volume \<Rightarrow> tree \<Rightarrow> u32 \<Rightarrow> ext2fs_node \<Rightarrow> nat \<Rightarrow> ('s, 'z) lookup \<Rightarrow> nat \<Rightarrow> ext2fs_node \<Rightarrow> string \<Rightarrow> bool" where
  "walk_serves fw v T rt root B f m currroot name \<longleftrightarrow> (\<forall>n d t nd k w.
     8 \<le> Suc n + m \<longrightarrow> n < 8 \<longrightarrow> (t = FILETYPE_DIRECTORY \<longrightarrow> d \<in> set (tr_dirs T)) \<longrightarrow> node_for v d nd
     \<longrightarrow> at_work v root B n (k + 148 * length name + (8 - n) * link_cost T) w
     \<longrightarrow> (\<exists>r n'. walks T rt n d t name r n'
          \<and> served v T root B n k r n' (fst (walk_path fw f currroot name nd t w)) (snd (walk_path fw f currroot name nd t w))))"

lemma walk_on_ok:
  fixes fw :: "'s firmware" and w :: "('s, 'z) emachine_scheme"
  assumes rest: "path_tail name \<noteq> [] \<Longrightarrow> walk_serves fw v T rt root B f m currroot (path_tail name)"
    and n: "8 \<le> Suc n + m" "n \<le> n'" "n' < 8" and t: "t = FILETYPE_DIRECTORY \<Longrightarrow> i \<in> set (tr_dirs T)"
    and nd: "node_for v i node" "nd_addr old \<noteq> 0"
    and w: "at_work v root B n' (k + 148 * length (path_tail name) + (8 - n') * link_cost T) w"
  shows "\<exists>r n''. goes_on T rt n' i t name r n'' \<and> served v T root B n k r n''
    (fst (walk_on fw f currroot name (node, t, old) w)) (snd (walk_on fw f currroot name (node, t, old) w))"
proof -
  obtain w2 where w2: "ext2fs_free_node (nd_addr old) (nd_addr currroot) w = (Inr (), w2)"
      "at_work v root B n' (k + 148 * length (path_tail name) + (8 - n') * link_cost T) w2"
    using at_work_free(2) [OF w nd(2)] by blast
  show ?thesis
  proof (cases "path_tail name = []")
    case True
    have "goes_on T rt n' i t name (Inr (i, Some t)) n'" using True by (rule on_last)
    moreover have "at_work v root B n' (k + (8 - n') * link_cost T) w2" using w2(2) True by simp
    ultimately show ?thesis using n(2,3) t nd(1) w2(1) True
      by (intro exI [of _ "Inr (i, Some t)"] exI [of _ n']) (simp add: bnd_def ret_def served_def walk_on_def)
  next
    case False
    have "8 \<le> Suc n' + m" using n(1,2) by simp
    then obtain r n'' where "walks T rt n' i t (path_tail name) r n''" and sv: "served v T root B n' k r n''
        (fst (walk_path fw f currroot (path_tail name) node t w2)) (snd (walk_path fw f currroot (path_tail name) node t w2))"
      using rest [OF False] n(3) t nd(1) w2(2) unfolding walk_serves_def by blast
    moreover from sv have "served v T root B n k r n''
        (fst (walk_path fw f currroot (path_tail name) node t w2)) (snd (walk_path fw f currroot (path_tail name) node t w2))"
      using n(2) by (auto simp: served_def split: sum.splits)
    moreover have "walk_on fw f currroot name (node, t, old) w = walk_path fw f currroot (path_tail name) node t w2"
      using w2(1) False by (simp add: bnd_def walk_on_def)
    ultimately show ?thesis using on_next [OF False] by metis
  qed
qed

text \<open>A symbolic link as the next component.\<close>

lemma walk_link_ok:
  fixes fw :: "'s firmware" and w :: "('s, 'z) emachine_scheme"
  assumes dk: "disk_of fw v" and f: "looks_ok v T rt root B f m" and L: "tr_longest T < 2 ^ 31"
    and rt: "node_for v rt root" "rt \<in> set (tr_dirs T)" and n: "n < 8" "8 \<le> Suc n + m"
    and rest: "path_tail name \<noteq> [] \<Longrightarrow> walk_serves fw v T rt root B f m currroot (path_tail name)"
    and e: "dir_find (path_head name) (tr_entries T d) = Some e" "dirent_type (de_type e) = FILETYPE_SYMLINK"
    and l: "link_on v T (de_ino e)" and nd: "node_for v (de_ino e) nd" and old: "node_for v d old" "d \<in> set (tr_dirs T)"
    and w: "at_work v root B n (k + 148 * length (path_tail name) + (8 - n) * link_cost T) w"
  defines "m0 \<equiv> bnd (follow_link fw f currroot nd old) (walk_on fw f currroot name)"
  shows "\<exists>r n'. walks T rt n d FILETYPE_DIRECTORY name r n' \<and> served v T root B n k r n' (fst (m0 w)) (snd (m0 w))"
proof (cases "n = 7")
  case True
  then have "fst (m0 w) = Inl (Err ERR_FS_LOOP)"
    using follow_ok [OF dk f L rt n l nd old w, of currroot]
    by (cases "follow_link fw f currroot nd old w") (simp add: m0_def bnd_def)
  then show ?thesis using walk_loop [OF e True] by (intro exI [of _ "Inl ERR_FS_LOOP"] exI [of _ 8]) (simp add: served_def)
next
  case False
  let ?k = "k + 148 * length (path_tail name)"
  obtain r n' where lk: "looks_up T rt (Suc n) (link_start T rt d (de_ino e)) (tr_target T (de_ino e)) r n'"
    and res: "case r of
       Inl x \<Rightarrow> fst (follow_link fw f currroot nd old w) = Inl (Err ERR_FS_NOT_FOUND)
     | Inr (j, t) \<Rightarrow> \<exists>found from w'. follow_link fw f currroot nd old w
           = (Inr (found, case t of Some ft \<Rightarrow> ft | None \<Rightarrow> FILETYPE_SYMLINK, from), w')
         \<and> nd_addr from \<noteq> 0 \<and> Suc n \<le> n' \<and> n' < 8 \<and> (t = Some FILETYPE_DIRECTORY \<longrightarrow> j \<in> set (tr_dirs T))
         \<and> node_for v j found \<and> at_work v root B n' (?k + (8 - n') * link_cost T) w'"
    using follow_ok [OF dk f L rt n l nd old w, of currroot] unfolding if_not_P [OF False] by blast
  show ?thesis
  proof (cases r)
    case (Inl x)
    then have "fst (m0 w) = Inl (Err ERR_FS_NOT_FOUND)"
      using res by (cases "follow_link fw f currroot nd old w") (simp add: m0_def bnd_def)
    then show ?thesis using walk_dangling [OF e False lk [unfolded Inl]]
      by (intro exI [of _ "Inl ERR_FS_NOT_FOUND"] exI [of _ n']) (simp add: served_def)
  next
    case (Inr jt)
    obtain j lt where jt: "jt = (j, lt)" by (cases jt)
    let ?ft = "case lt of Some ft \<Rightarrow> ft | None \<Rightarrow> FILETYPE_SYMLINK"
    obtain nd2 nd3 w' where fl: "follow_link fw f currroot nd old w = (Inr (nd2, ?ft, nd3), w')"
      and g: "nd_addr nd3 \<noteq> 0" "Suc n \<le> n'" "n' < 8" "lt = Some FILETYPE_DIRECTORY \<longrightarrow> j \<in> set (tr_dirs T)"
        "node_for v j nd2" "at_work v root B n' (?k + (8 - n') * link_cost T) w'"
      using res unfolding Inr jt by auto
    have "j \<in> set (tr_dirs T)" if "?ft = FILETYPE_DIRECTORY" using g(4) that by (auto simp: filetype_defs split: option.splits)
    from walk_on_ok [where t = ?ft, OF rest n(2) _ g(3) this g(5,1,6)] g(2) obtain r' n'' where "goes_on T rt n' j ?ft name r' n''"
        "served v T root B n k r' n'' (fst (walk_on fw f currroot name (nd2, ?ft, nd3) w')) (snd (walk_on fw f currroot name (nd2, ?ft, nd3) w'))"
      by auto
    moreover have "m0 w = walk_on fw f currroot name (nd2, ?ft, nd3) w'" using fl by (simp add: m0_def bnd_def)
    ultimately show ?thesis using walk_link [OF e False lk [unfolded Inr jt]] by auto
  qed
qed

lemma walk_ok:
  fixes fw :: "'s firmware" and f :: "('s, 'z) lookup"
  assumes dk: "disk_of fw v" and tr: "tree_on v T B" and f: "looks_ok v T rt root B f m"
    and rt: "node_for v rt root" "rt \<in> set (tr_dirs T)"
  shows "NUL \<notin> set name \<Longrightarrow> name \<noteq> [] \<Longrightarrow> walk_serves fw v T rt root B f m currroot name"
proof (induction "length name" arbitrary: name rule: less_induct)
  case less
  have nul: "NUL \<notin> set (path_head name)" "NUL \<notin> set (path_tail name)"
    using less.prems(1) by (auto simp: path_head_def path_tail_def skip_slashes_def dest: set_takeWhileD set_dropWhileD)
  have rest: "walk_serves fw v T rt root B f m currroot (path_tail name)" if "path_tail name \<noteq> []"
    using less.hyps [OF path_tail_shorter [OF that] nul(2) that] .
  have len: "length (path_tail name) + 1 \<le> length name"
    using path_tail_shorter [of name] less.prems(2) by (cases "path_tail name = []") (auto simp: Suc_le_eq)
  have "\<exists>r n'. walks T rt n d t name r n'
      \<and> served v T root B n k r n' (fst (walk_path fw f currroot name nd t w)) (snd (walk_path fw f currroot name nd t w))"
    if n: "8 \<le> Suc n + m" "n < 8" and t: "t = FILETYPE_DIRECTORY \<longrightarrow> d \<in> set (tr_dirs T)" and nd: "node_for v d nd"
      and w: "at_work v root B n (k + 148 * length name + (8 - n) * link_cost T) w" for n d t nd k w
  proof (cases "t = FILETYPE_DIRECTORY")
    case False
    have "fst (walk_path fw f currroot name nd t w) = Inl (Err ERR_FS_NOT_DIR)"
      using False by (simp add: walk_path.simps [of fw f currroot name nd t] bnd_def ext2fs_free_node_def freeM_def modify_def throw_def)
    then show ?thesis using walk_file [OF False] by (intro exI [of _ "Inl ERR_FS_NOT_DIR"] exI [of _ n]) (simp add: served_def)
  next
    case t': True
    have d: "d \<in> set (tr_dirs T)" using t t' by simp
    have L: "tr_longest T < 2 ^ 31" and dir: "dir_on v T B d" using tr d by (auto simp: tree_on_def)
    let ?k = "k + 148 * length (path_tail name)"
    have "?k + (8 - n) * link_cost T + 148 \<le> k + 148 * length name + (8 - n) * link_cost T" using len by linarith
    then have "at_work v root B n (?k + (8 - n) * link_cost T + 148) w" using w at_work_mono by blast
    from node_iterate [OF dk dir nd nul(1) this] obtain w1 where w1: "at_work v root B n (?k + (8 - n) * link_cost T) w1"
      and it: "case dir_find (path_head name) (tr_entries T d) of
         None \<Rightarrow> ext2fs_iterate_dir fw nd (Some (path_head name)) w = (Inl (Err ERR_FS_NOT_FOUND), w1)
       | Some e \<Rightarrow> \<exists>nd'. node_for v (de_ino e) nd' \<and> \<not> nd_read nd'
           \<and> ext2fs_iterate_dir fw nd (Some (path_head name)) w = (Inr (nd', dirent_type (de_type e)), w1)" by blast
    have eq: "walk_path fw f currroot name nd t w = bnd (ext2fs_iterate_dir fw nd (Some (path_head name))) (\<lambda>(node, t).
        bnd (if t = FILETYPE_SYMLINK then follow_link fw f currroot node nd else ret (node, t, nd)) (walk_on fw f currroot name)) w"
      unfolding t' walk_on_def by (simp add: walk_path.simps [of fw f currroot name nd FILETYPE_DIRECTORY])
    show ?thesis
    proof (cases "dir_find (path_head name) (tr_entries T d)")
      case None
      then have "walk_path fw f currroot name nd t w = (Inl (Err ERR_FS_NOT_FOUND), w1)"
        unfolding eq using it by (simp add: bnd_def)
      then show ?thesis using walk_missing [OF None, of rt n] t'
        by (intro exI [of _ "Inl ERR_FS_NOT_FOUND"] exI [of _ n]) (simp add: served_def)
    next
      case e: (Some e)
      then have ein: "e \<in> set (tr_entries T d)" by (auto simp: dir_find_def find_Some_iff)
      obtain nd' where nd': "node_for v (de_ino e) nd'"
        and i: "ext2fs_iterate_dir fw nd (Some (path_head name)) w = (Inr (nd', dirent_type (de_type e)), w1)"
        using it e by auto
      note eq1 = eq [unfolded bnd_Inr [where m = "ext2fs_iterate_dir fw nd (Some (path_head name))" and w = w, OF i] prod.case]
      show ?thesis
      proof (cases "dirent_type (de_type e) = FILETYPE_SYMLINK")
        case False
        have sub: "de_ino e \<in> set (tr_dirs T)" if "dirent_type (de_type e) = FILETYPE_DIRECTORY" using tr d ein that by (auto simp: tree_on_def)
        have "nd_addr nd \<noteq> 0" using nd by (simp add: node_for_def)
        from walk_on_ok [where t = "dirent_type (de_type e)", OF rest n(1) le_refl n(2) sub nd' this w1]
        obtain r n'' where "goes_on T rt n (de_ino e) (dirent_type (de_type e)) name r n''"
            "served v T root B n k r n'' (fst (walk_on fw f currroot name (nd', dirent_type (de_type e), nd) w1))
              (snd (walk_on fw f currroot name (nd', dirent_type (de_type e), nd) w1))" by blast
        moreover have "walk_path fw f currroot name nd t w = walk_on fw f currroot name (nd', dirent_type (de_type e), nd) w1"
          unfolding eq1 using False by (simp add: bnd_def ret_def)
        ultimately show ?thesis using walk_entry [OF e False] t' by metis
      next
        case True
        have "link_on v T (de_ino e)" using tr d ein True by (auto simp: tree_on_def)
        from walk_link_ok [OF dk f L rt n(2,1) rest e True this nd' nd d w1]
        show ?thesis using t' unfolding eq1 if_P [OF True] by simp
      qed
    qed
  qed
  then show ?case unfolding walk_serves_def by blast
qed

lemma find_ok:
  fixes fw :: "'s firmware"
  assumes dk: "disk_of fw v" and tr: "tree_on v T B" and rt: "node_for v rt root" "rt \<in> set (tr_dirs T)"
  shows "looks_ok v T rt root B (find_file1 fw m :: ('s, 'z) lookup) m"
proof (induction m)
  case 0
  then show ?case by (simp add: looks_ok_def)
next
  case (Suc m)
  have "\<exists>r n'. looks_up T rt n d path r n'
      \<and> served v T root B n k r n' (fst (find_file1 fw (Suc m) path nd w)) (snd (find_file1 fw (Suc m) path nd w))"
    if n: "8 \<le> n + Suc m" "n < 8" and d: "d \<in> set (tr_dirs T)" and nd: "node_for v d nd" and nul: "NUL \<notin> set path"
      and w: "at_work v root B n (k + 148 * length path + (8 - n) * link_cost T) w"
    for n d path nd k and w :: "('s, 'z) emachine_scheme"
  proof (cases "skip_slashes path = []")
    case True
    have "at_work v root B n (k + (8 - n) * link_cost T) w" using w by (rule at_work_mono) simp
    then show ?thesis using look_here [OF True, of T rt n d] n(2) nd True
      by (intro exI [of _ "Inr (d, None)"] exI [of _ n]) (simp add: served_def ret_def)
  next
    case False
    have nul': "NUL \<notin> set (skip_slashes path)" using nul by (auto simp: skip_slashes_def dest: set_dropWhileD)
    have "length (skip_slashes path) \<le> length path" by (simp add: skip_slashes_def length_dropWhile_le)
    then have "at_work v root B n (k + 148 * length (skip_slashes path) + (8 - n) * link_cost T) w"
      using w by (auto intro: at_work_mono)
    moreover have "8 \<le> Suc n + m" using n(1) by simp
    ultimately obtain r n' where "walks T rt n d FILETYPE_DIRECTORY (skip_slashes path) r n'"
      "served v T root B n k r n' (fst (walk_path fw (find_file1 fw m) nd (skip_slashes path) nd FILETYPE_DIRECTORY w))
         (snd (walk_path fw (find_file1 fw m) nd (skip_slashes path) nd FILETYPE_DIRECTORY w))"
      using walk_ok [OF dk tr Suc rt nul' False, of nd] n(2) d nd unfolding walk_serves_def by blast
    moreover have "find_file1 fw (Suc m) path nd w = walk_path fw (find_file1 fw m) nd (skip_slashes path) nd FILETYPE_DIRECTORY w"
      using False by simp
    ultimately show ?thesis using look_down [OF False] by metis
  qed
  then show ?case unfolding looks_ok_def by blast
qed

section \<open>Properties\<close>

text \<open>The room a lookup needs at most, and the error for a type that was not expected.\<close>

definition lookup_room :: "tree \<Rightarrow> string \<Rightarrow> nat" where
  "lookup_room T path = 148 * length path + 8 * link_cost T"

definition type_error :: "u8 \<Rightarrow> u8 option \<Rightarrow> quik_err_t" where
  "type_error expected t =
     (let ft = (case t of None \<Rightarrow> FILETYPE_DIRECTORY | Some ft \<Rightarrow> ft) in
      if expected = FILETYPE_REG \<and> ft \<noteq> FILETYPE_REG then ERR_FS_NOT_REG
      else if expected = FILETYPE_DIRECTORY \<and> ft \<noteq> FILETYPE_DIRECTORY then ERR_FS_NOT_DIR else ERR_NONE)"

text \<open>The mounted volume, with its root and its tree.\<close>

definition tree_mounted :: "'s firmware \<Rightarrow> volume \<Rightarrow> tree \<Rightarrow> u32 \<Rightarrow> ext2fs_node \<Rightarrow> nat \<Rightarrow> ('s, 'z) emachine_scheme \<Rightarrow> bool" where
  "tree_mounted fw v T rt root k w \<longleftrightarrow> disk_of fw v \<and> tree_on v T (budget w) \<and> node_for v rt root \<and> rt \<in> set (tr_dirs T)
     \<and> fs_root w = Some root \<and> inode_size w = vo_isz v \<and> vol_inv (vo_img v) (vo_part v) (fs_bs (vo_sb v)) k w"

lemma find_file_outcome:
  fixes fw :: "'s firmware" and w :: "('s, 'z) emachine_scheme"
  assumes m: "tree_mounted fw v T rt root (k + lookup_room T path) w" and nul: "NUL \<notin> set path"
  shows "\<exists>r n' w'. looks_up T rt 0 rt path r n' \<and> (case r of
       Inl e \<Rightarrow> ext2fs_find_file fw (Some path) root et w = (Inr (e, None), w')
     | Inr (i, t) \<Rightarrow> \<exists>nd. ext2fs_find_file fw (Some path) root et w = (Inr (type_error et t, Some nd), w')
         \<and> node_for v i nd \<and> at_work v root (budget w) n' k w')"
proof -
  let ?w = "w\<lparr>symlinknest := 0\<rparr>"
  have dk: "disk_of fw v" and tr: "tree_on v T (budget w)" and rt: "node_for v rt root" "rt \<in> set (tr_dirs T)"
    using m by (simp_all add: tree_mounted_def)
  have "at_work v root (budget w) 0 (k + 148 * length path + (8 - 0) * link_cost T) ?w"
    using m by (simp add: tree_mounted_def at_work_def vol_inv_def lookup_room_def add.assoc)
  from looks_okD [OF find_ok [OF dk tr rt, of 8] _ _ rt(2,1) nul this]
  obtain r n' where r: "looks_up T rt 0 rt path r n'"
    and s: "served v T root (budget w) 0 k r n' (fst (find_file1 fw 8 path root ?w)) (snd (find_file1 fw 8 path root ?w))"
    by auto
  obtain x w' where x: "find_file1 fw 8 path root ?w = (x, w')" by fastforce
  have start: "modify (\<lambda>w. w\<lparr>symlinknest := 0\<rparr>) w = (Inr (), ?w)" by (simp add: modify_def)
  have eq: "ext2fs_find_file fw (Some path) root et w = bnd (catch (find_file1 fw 8 path root)) (\<lambda>r.
             case r of
               Inl e \<Rightarrow> ret (e, None)
             | Inr (node, t) \<Rightarrow> ret (type_error et t, Some node)) ?w"
    unfolding ext2fs_find_file_def ext2fs_find_file1_def bnd_Inr [where m = "modify (\<lambda>w. w\<lparr>symlinknest := 0\<rparr>)" and w = w, OF start]
    by (auto simp: type_error_def Let_def intro!: arg_cong2 [where f = "\<lambda>k w. bnd (catch (find_file1 fw 8 path root)) k w"]
        split: sum.split option.split)
  show ?thesis
  proof (cases r)
    case (Inl e)
    then have "ext2fs_find_file fw (Some path) root et w = (Inr (e, None), w')"
      unfolding eq using s x by (simp add: served_def bnd_def catch_def ret_def)
    then show ?thesis using r Inl by (intro exI [of _ r] exI [of _ n'] exI [of _ w']) simp
  next
    case (Inr it)
    obtain i t where it: "it = (i, t)" by (cases it)
    obtain nd where nd: "x = Inr (nd, t)" "node_for v i nd" "at_work v root (budget w) n' (k + (8 - n') * link_cost T) w'"
      using s x unfolding Inr it by (auto simp: served_def)
    have "ext2fs_find_file fw (Some path) root et w = (Inr (type_error et t, Some nd), w')"
      unfolding eq using x nd(1) by (simp add: bnd_def catch_def ret_def)
    moreover have "at_work v root (budget w) n' k w'" using nd(3) by (rule at_work_mono) simp
    ultimately show ?thesis using r nd(2) unfolding Inr it by (intro exI [of _ "Inr (i, t)"] exI [of _ n'] exI [of _ w']) simp
  qed
qed

end
