(* ===== verification/Read_Spec.thy ===== *)
theory Read_Spec
  imports Tree_Spec
begin

unbundle bit_operations_syntax

text \<open>
  From a partition to the bytes of a file: the volume is mounted, the path looked up in the tree
  that stands on it, and the file read.
\<close>

section \<open>Mounting a volume\<close>

text \<open>The superblock of a partition, and the volume that mounting it makes, with its data at address \<open>a\<close>.\<close>

definition superblock :: "bytes \<Rightarrow> part_t \<Rightarrow> bytes" where
  "superblock img p = slice (unat (p_start p) + 1024) 204 img"

definition volume_at :: "bytes \<Rightarrow> part_t \<Rightarrow> u32 \<Rightarrow> volume" where
  "volume_at img p a = \<lparr>vo_img = img, vo_part = p, vo_data = \<lparr>ed_addr = a, ed_sblock = superblock img p\<rparr>,
     vo_isz = superblock_inode_size (superblock img p)\<rparr>"

definition root_node :: "volume \<Rightarrow> ext2fs_node" where
  "root_node v = \<lparr>nd_addr = ed_addr (vo_data v) + offsetof_diropen, nd_data = vo_data v, nd_inode = vol_inode v 2,
     nd_ino = 2, nd_read = True\<rparr>"

text \<open>An ext2 file system on a partition of a disk, with the tree \<open>T\<close> from inode 2 on.\<close>

definition ext2_volume :: "'s firmware \<Rightarrow> bytes \<Rightarrow> part_t \<Rightarrow> tree \<Rightarrow> nat \<Rightarrow> bool" where
  "ext2_volume fw img p T B \<longleftrightarrow> (\<exists>pos. block_device fw (p_dev p) img pos) \<and> part_on img p \<and> place_in p 1024 204
     \<and> sane_sb (superblock img p) \<and> sb_magic (superblock img p) = EXT2_MAGIC
     \<and> tree_on (volume_at img p 0) T B \<and> 2 \<in> set (tr_dirs T)"

text \<open>The address of the volume's data makes no difference to what is on it.\<close>

lemma volume_at_same:
  "vol_inode (volume_at img p a) i = vol_inode (volume_at img p 0) i" "inode_on (volume_at img p a) i = inode_on (volume_at img p 0) i"
  "content (volume_at img p a) i = content (volume_at img p 0) i" "file_on (volume_at img p a) i = file_on (volume_at img p 0) i"
  "dir_on (volume_at img p a) T B i = dir_on (volume_at img p 0) T B i" "link_on (volume_at img p a) T i = link_on (volume_at img p 0) T i"
  "tree_on (volume_at img p a) T B = tree_on (volume_at img p 0) T B"
proof -
  show 1: "vol_inode (volume_at img p a) i = vol_inode (volume_at img p 0) i" for i by (simp add: vol_inode_def volume_at_def)
  show 2: "inode_on (volume_at img p a) i = inode_on (volume_at img p 0) i" for i by (simp add: inode_on_def volume_at_def)
  have d: "nd_inode (vol_node (volume_at img p a) i) = nd_inode (vol_node (volume_at img p 0) i)"
    "ed_sblock (nd_data (vol_node (volume_at img p a) i)) = ed_sblock (nd_data (vol_node (volume_at img p 0) i))" for i
    by (simp_all add: vol_node_def 1) (simp_all add: volume_at_def)
  have v: "vo_img (volume_at img p b) = img" "vo_part (volume_at img p b) = p" for b by (simp_all add: volume_at_def)
  show 3: "content (volume_at img p a) i = content (volume_at img p 0) i" for i by (simp add: content_def dir_bytes_def d v)
  show 4: "file_on (volume_at img p a) i = file_on (volume_at img p 0) i" for i by (simp add: file_on_def file_ok_def d v)
  show 5: "dir_on (volume_at img p a) T B i = dir_on (volume_at img p 0) T B i" for i by (simp add: dir_on_def 2 3 4)
  show 6: "link_on (volume_at img p a) T i = link_on (volume_at img p 0) T i" for i by (simp add: link_on_def link_text_def Let_def 1 2 3 4)
  show "tree_on (volume_at img p a) T B = tree_on (volume_at img p 0) T B" by (simp add: tree_on_def 5 6)
qed

lemma mount_ok:
  fixes fw :: "'s firmware" and w :: "('s, 'z) emachine_scheme"
  assumes v: "ext2_volume fw img p T (budget w)"
    and w: "vol_inv img p (fs_bs (superblock img p)) (k + unat sizeof_data + 8) w" and low: "unat (malloc_end (mem w)) \<le> 2 ^ 31"
  shows "\<exists>w' a. ext2fs_mount fw w = (Inr (), w') \<and> budget w' = budget w
    \<and> tree_mounted fw (volume_at img p a) T 2 (root_node (volume_at img p a)) k w'"
proof -
  let ?sb = "superblock img p"
  obtain pos where dev: "block_device fw (p_dev p) img pos" and on: "part_on img p" and pl: "place_in p 1024 204"
    and sane: "sane_sb ?sb" and magic: "sb_magic ?sb = EXT2_MAGIC" and tr: "tree_on (volume_at img p 0) T (budget w)"
    and r2: "2 \<in> set (tr_dirs T)"
    using v by (auto simp: ext2_volume_def)
  have p: "the_part w = p" using w by (simp add: vol_inv_def)
  obtain a h where m: "mallocM sizeof_data w = (Inr a, w\<lparr>mem := h\<rparr>)" "a \<noteq> 0"
    and inv: "vol_inv img p (fs_bs ?sb) k (w\<lparr>mem := h\<rparr>)"
    using w by (rule vol_malloc) (rule that)
  have "in_part p 2 0 sizeof_sblock" using pl by (simp add: in_part_def place_in_def sizeof_sblock_def)
  moreover have "part_bytes img p 2 0 sizeof_sblock = ?sb" by (simp add: part_bytes_def superblock_def sizeof_sblock_def)
  ultimately obtain s1 where "part_read fw 2 0 sizeof_sblock (w\<lparr>mem := h\<rparr>) = (Inr ?sb, w\<lparr>mem := h, fws := s1\<rparr>)"
    using part_read_into_eq [of fw "w\<lparr>mem := h\<rparr>" img pos 2 0 sizeof_sblock] dev on p by (auto simp: part_read_def bnd_def ret_def)
  note rd = this
  let ?z = "superblock_inode_size ?sb" and ?v = "volume_at img p a"
  have "inode_on (volume_at img p 0) 2" using tr r2 by (auto simp: tree_on_def dir_on_def)
  then have "inode_ok img p ?sb ?z 2" by (simp add: inode_on_def volume_at_def)
  then obtain s2 where ri: "ext2fs_read_inode fw ?sb 2 (w\<lparr>mem := h, fws := s1, inode_size := ?z\<rparr>)
      = (Inr (vol_inode ?v 2), w\<lparr>mem := h, inode_size := ?z, fws := s2\<rparr>)"
    using inode_read [of fw "w\<lparr>mem := h, fws := s1, inode_size := ?z\<rparr>" img pos ?sb 2] dev on sane p
    by (auto simp: vol_inode_def volume_at_def)
  let ?w = "w\<lparr>mem := h, inode_size := ?z, fws := s2, fs_root := Some (root_node ?v)\<rparr>"
  have "ext2fs_mount fw w = (Inr (), ?w)"
    using m rd magic ri by (simp add: ext2fs_mount_def bnd_def catch_def modify_def root_node_def volume_at_def)
  moreover have "budget ?w = budget w" by simp
  moreover have "tree_mounted fw ?v T 2 (root_node ?v) k ?w"
  proof -
    have "a + offsetof_diropen \<noteq> 0"
    proof -
      have a: "a = malloc_ptr (mem w) + 4" "unat (malloc_ptr (mem w)) + 360 < unat (malloc_end (mem w))"
        using m w by (auto simp: mallocM_def malloc_def Let_def vol_inv_def roomy_def sizeof_data_def split: if_splits prod.splits)
      then have "unat (malloc_ptr (mem w)) + 216 < 2 ^ 32" using low by simp
      then have "unat (malloc_ptr (mem w) + 216) = unat (malloc_ptr (mem w)) + 216"
        using unat_plus_no_wrap [of "malloc_ptr (mem w)" 216] by simp
      then have "malloc_ptr (mem w) + 216 \<noteq> 0" by (metis add_is_0 unat_0 zero_neq_numeral)
      then show ?thesis using a(1) by (simp add: offsetof_diropen_def add.assoc)
    qed
    then have "node_for ?v 2 (root_node ?v)" by (simp add: node_for_def root_node_def) (simp add: volume_at_def)
    moreover have "disk_of fw ?v" using dev on sane by (auto simp: disk_of_def volume_at_def)
    moreover have "vol_inv img p (fs_bs ?sb) k ?w" using inv by (simp add: vol_inv_def)
    ultimately show ?thesis using tr r2 by (simp add: tree_mounted_def volume_at_same(7) [of img p a]) (simp add: volume_at_def)
  qed
  ultimately show ?thesis by blast
qed

section \<open>Opening and reading\<close>

lemma open_ok:
  fixes fw :: "'s firmware" and w :: "('s, 'z) emachine_scheme"
  assumes m: "tree_mounted fw v T rt root (k + lookup_room T path) w" and nul: "NUL \<notin> set path"
    and p: "looks_up T rt 0 rt path (Inr (i, Some FILETYPE_REG)) n'" and i: "inode_on v i"
  shows "\<exists>w' nd. ext2fs_open fw (Some path) w = (Inr (i_size (vol_inode v i)), w') \<and> fs_root w' = Some root
    \<and> fs_file w' = Some nd \<and> nd_data nd = vo_data v \<and> nd_inode nd = vol_inode v i
    \<and> vol_inv (vo_img v) (vo_part v) (fs_bs (vo_sb v)) k w'"
proof -
  let ?w = "w\<lparr>fs_file := None\<rparr>"
  have rt: "fs_root w = Some root" and dk: "disk_of fw v" using m by (simp_all add: tree_mounted_def)
  have "tree_mounted fw v T rt root (k + lookup_room T path) ?w" using m by (simp add: tree_mounted_def vol_inv_def)
  from find_file_outcome [OF this nul, of FILETYPE_REG] obtain r n2 w' where r: "looks_up T rt 0 rt path r n2"
    and c: "case r of
       Inl e \<Rightarrow> ext2fs_find_file fw (Some path) root FILETYPE_REG ?w = (Inr (e, None), w')
     | Inr (i, t) \<Rightarrow> \<exists>nd. ext2fs_find_file fw (Some path) root FILETYPE_REG ?w = (Inr (type_error FILETYPE_REG t, Some nd), w')
         \<and> node_for v i nd \<and> at_work v root (budget ?w) n2 k w'" by blast
  have "r = Inr (i, Some FILETYPE_REG)" using outcome_unique(1) [OF p r] by simp
  then obtain nd where f: "ext2fs_find_file fw (Some path) root FILETYPE_REG ?w = (Inr (ERR_NONE, Some nd), w')"
    and nd: "node_for v i nd" and aw: "at_work v root (budget ?w) n2 k w'"
    using c by (auto simp: type_error_def)
  let ?rd = "if nd_read nd then ret (Inr (nd_inode nd))
                       else catch (ext2fs_read_inode fw (ed_sblock (nd_data nd)) (nd_ino nd))"
  obtain s where s: "(if nd_read nd then ret nd
      else bnd (ext2fs_read_inode fw (ed_sblock (nd_data nd)) (nd_ino nd)) (\<lambda>x. ret (nd\<lparr>nd_inode := x\<rparr>))) w'
    = (Inr (nd\<lparr>nd_inode := vol_inode v i\<rparr>), w'\<lparr>fws := s\<rparr>)"
    using node_inode [OF dk i nd aw] by blast
  have rd: "?rd w' = (Inr (Inr (vol_inode v i)), w'\<lparr>fws := s\<rparr>)"
  proof (cases "nd_read nd")
    case True
    then show ?thesis using s nd by (auto simp: ret_def node_for_def)
  next
    case False
    then obtain x where "ext2fs_read_inode fw (ed_sblock (nd_data nd)) (nd_ino nd) w' = (Inr x, w'\<lparr>fws := s\<rparr>)"
        "nd\<lparr>nd_inode := x\<rparr> = nd\<lparr>nd_inode := vol_inode v i\<rparr>"
      using s by (auto simp: ret_def elim!: bnd_InrE)
    moreover from this(2) have "x = vol_inode v i" by (metis ext2fs_node.select_convs(3) ext2fs_node.surjective ext2fs_node.update_convs(3))
    ultimately show ?thesis using False by (simp add: catch_def)
  qed
  let ?nd = "nd\<lparr>nd_inode := vol_inode v i\<rparr>"
  have "ext2fs_open fw (Some path) w = (Inr (i_size (vol_inode v i)), w'\<lparr>fws := s, fs_file := Some ?nd\<rparr>)"
    using rt f rd by (simp add: ext2fs_open_def bnd_def modify_def ret_def Let_def)
  moreover have "fs_root w' = Some root" "vol_inv (vo_img v) (vo_part v) (fs_bs (vo_sb v)) k (w'\<lparr>fws := s, fs_file := Some ?nd\<rparr>)"
    using aw by (simp_all add: at_work_def vol_inv_def)
  ultimately show ?thesis using nd by (intro exI [of _ "w'\<lparr>fws := s, fs_file := Some ?nd\<rparr>"] exI [of _ ?nd]) (simp add: node_for_def)
qed

lemma read_ok:
  fixes fw :: "'s firmware" and w :: "('s, 'z) emachine_scheme"
  assumes dk: "disk_of fw v" and f: "file_on v i" and rt: "fs_root w = Some root" and nd: "fs_file w = Some nd"
    "nd_data nd = vo_data v" "nd_inode nd = vol_inode v i" and w: "vol_inv (vo_img v) (vo_part v) (fs_bs (vo_sb v)) k w"
  shows "\<exists>z w'. ext2fs_read fw (i_size (vol_inode v i)) w = (Inr (content v i @ z), w')"
proof -
  obtain pos where dev: "block_device fw (p_dev (vo_part v)) (vo_img v) pos" "part_on (vo_img v) (vo_part v)" "sane_sb (vo_sb v)"
    using dk by (auto simp: disk_of_def)
  have bytes: "dir_bytes (vo_img v) (vo_part v) nd = content v i" "file_ok (vo_img v) (vo_part v) nd = file_on v i"
    by (simp_all add: content_def file_on_def dir_bytes_def file_ok_def vol_node_def nd Let_def)
  have len: "length (content v i) = unat (i_size (vol_inode v i))" by (simp add: content_def dir_bytes_def vol_node_def)
  have sz: "unat (i_size (vol_inode v i)) = 0 \<Longrightarrow> ?thesis"
  proof -
    assume z: "unat (i_size (vol_inode v i)) = 0"
    let ?B = "EXT2_BLOCK_SIZE (vo_sb v)"
    have B: "unat ?B = fs_bs (vo_sb v)" "1024 \<le> fs_bs (vo_sb v)" using sane_sizes(1,5) [OF dev(3)] .
    then have "unat (?B - 1) = fs_bs (vo_sb v) - 1" by (simp add: unat_sub word_le_nat_alt)
    then have "unat ((?B - 1) div ?B) = 0" using B by (simp add: unat_div_distrib)
    then have "(?B - 1) div ?B = 0" by (simp add: unat_eq_0)
    then have "ext2fs_read_file fw nd 0 (i_size (vol_inode v i)) w = (Inr [], w)"
      using z sane_sizes(3) [OF dev(3)] by (simp add: ext2fs_read_file_def Let_def nd unat_eq_0 read_blocks.simps ret_def)
    then show ?thesis using rt nd(1) len z by (auto simp: ext2fs_read_def)
  qed
  have ?thesis if "0 < unat (i_size (vol_inode v i))"
  proof -
    have "\<exists>z w'. ext2fs_read_file fw nd 0 (i_size (vol_inode v i)) w
        = (Inr (slice (unat (0 :: u32)) (unat (i_size (vol_inode v i))) (dir_bytes (vo_img v) (vo_part v) nd) @ z), w')
      \<and> vol_inv (vo_img v) (vo_part v) (fs_bs (ed_sblock (nd_data nd))) k w'"
      by (rule read_dir_ok [OF dev(1,2)]) (use dev(3) f bytes w that in \<open>simp_all add: nd\<close>)
    then obtain z w' where "ext2fs_read_file fw nd 0 (i_size (vol_inode v i)) w
        = (Inr (slice 0 (unat (i_size (vol_inode v i))) (content v i) @ z), w')"
      unfolding bytes(1) by auto
    then show ?thesis using rt nd(1) len by (auto simp: ext2fs_read_def slice_def)
  qed
  then show ?thesis using sz by blast
qed

section \<open>Links to the root\<close>

text \<open>
  A link to the root directory keeps the type of a link, since the lookup of a path without
  components stores no type: a path that goes on behind it is refused.
\<close>

lemma link_to_root:
  assumes "dir_find (path_head name) (tr_entries T d) = Some e" and "dirent_type (de_type e) = FILETYPE_SYMLINK"
    and "skip_slashes (tr_target T (de_ino e)) = []" and "path_tail name \<noteq> []" and "n \<noteq> 7"
  shows "walks T rt n d FILETYPE_DIRECTORY name (Inl ERR_FS_NOT_DIR) (Suc n)"
proof -
  have "FILETYPE_SYMLINK \<noteq> FILETYPE_DIRECTORY" by (simp add: filetype_defs)
  then have "goes_on T rt (Suc n) (link_start T rt d (de_ino e)) FILETYPE_SYMLINK name (Inl ERR_FS_NOT_DIR) (Suc n)"
    by (intro on_next [OF assms(4)] walk_file)
  then show ?thesis using walk_link [OF assms(1,2,5) look_here [OF assms(3)]] by simp
qed

section \<open>A small volume\<close>

text \<open>Directory 2 holds the file 3, \<^verbatim>\<open>vmlinux\<close>, and the link 4, \<^verbatim>\<open>boot\<close>, to \<^verbatim>\<open>/vmlinux\<close>.\<close>

definition demo_inode :: "u32 \<Rightarrow> bytes \<Rightarrow> bytes" where
  "demo_inode n data = replicate 4 0 @ rev (bytes32 n) @ replicate 32 0 @ data @ replicate (88 - length data) 0"

definition demo_fs :: bytes where
  "demo_fs = replicate 1024 0
     @ (replicate 20 0 @ rev (bytes32 1) @ replicate 16 0 @ rev (bytes32 8) @ replicate 12 0 @ [0x53, 0xEF] @ replicate 966 0)
     @ (replicate 8 0 @ rev (bytes32 3) @ replicate 1012 0)
     @ (replicate 128 0 @ demo_inode 1024 (rev (bytes32 4)) @ demo_inode 5 (rev (bytes32 5)) @ demo_inode 8 (map byte ''/vmlinux'')
        @ replicate 512 0)
     @ (dirent_bytes 3 16 1 ''vmlinux'' @ [0] @ dirent_bytes 4 1008 7 ''boot'' @ replicate 996 0)
     @ (map byte ''iquik'' @ replicate 1019 0) @ replicate 1024 0"

definition demo_fs_part :: part_t where
  "demo_fs_part = part_zero\<lparr>p_len := 7168\<rparr>"

definition demo_entries :: "dirent list" where
  "demo_entries = [\<lparr>de_ino = 3, de_len = 16, de_type = 1, de_name = ''vmlinux''\<rparr>, \<lparr>de_ino = 4, de_len = 1008, de_type = 7, de_name = ''boot''\<rparr>]"

definition demo_tree :: tree where
  "demo_tree = \<lparr>tr_dirs = [2], tr_entries = (\<lambda>_. demo_entries), tr_target = (\<lambda>_. ''/vmlinux''), tr_longest = 8\<rparr>"

abbreviation "demo_sblock \<equiv> superblock demo_fs demo_fs_part"
abbreviation "demo_vol \<equiv> volume_at demo_fs demo_fs_part 0"

lemmas demo_fs_eval = demo_fs_def demo_inode_def dirent_bytes_def bytes32_def

lemma demo_super: "demo_sblock = replicate 20 0 @ [1, 0, 0, 0] @ replicate 16 0 @ [8, 0, 0, 0] @ replicate 12 0 @ [0x53, 0xEF] @ replicate 146 0"
  by (simp add: superblock_def demo_fs_part_def part_zero_def slice_def demo_fs_eval)

lemma four_zeros: "replicate 4 (0 :: u8) = [0, 0, 0, 0]"
  by (simp add: numeral_eq_Suc)

lemma swab_one: "swab32 1 \<noteq> 0"
  using swab32_be32 [of 0 "[0, 0, 0, 1]"] by (simp add: be32_def le_eval)

lemma demo_super_fields:
  "sane_sb demo_sblock" "fs_bs demo_sblock = 1024" "sb_magic demo_sblock = EXT2_MAGIC" "sb_first_data_block demo_sblock = 1"
  "sb_inodes_per_group demo_sblock = 8" "superblock_inode_size demo_sblock = 128"
  unfolding demo_super
  by (simp_all add: sane_sb_def fs_bs_def sb_magic_def EXT2_MAGIC_def sb_log2_block_size_def sb_first_data_block_def sb_inodes_per_group_def
      superblock_inode_size_def cpu32_le cpu16_le le_eval be32_def four_zeros swab_one)

lemma demo_length: "length demo_fs = 7168"
  by (simp add: demo_fs_eval)

lemma demo_part_fields: "unat (p_start demo_fs_part) = 0" "unat (p_len demo_fs_part) = 7168" "p_dev demo_fs_part = 0"
  by (simp_all add: demo_fs_part_def part_zero_def)

lemma demo_group: "group_table demo_fs demo_fs_part demo_sblock 0 = 3"
proof -
  have g: "slice 2048 32 demo_fs = replicate 8 0 @ [3, 0, 0, 0] @ replicate 20 0" by (simp add: slice_def demo_fs_eval)
  have "bg_inode_table_id (replicate 8 0 @ [3, 0, 0, 0] @ replicate 20 0) = 3" by (simp add: bg_inode_table_id_def cpu32_le le_eval)
  then show ?thesis by (simp add: group_table_def group_place_def demo_super_fields demo_part_fields g)
qed

lemma demo_inode_place: "unat i \<le> 8 \<Longrightarrow> 1 \<le> unat i \<Longrightarrow> inode_place demo_fs demo_fs_part demo_sblock 128 i = 3072 + (unat i - 1) * 128"
  by (simp add: inode_place_def inode_group_def demo_super_fields demo_group)

lemma demo_inode_on: "unat i \<le> 8 \<Longrightarrow> 1 \<le> unat i \<Longrightarrow> inode_on demo_vol i"
  by (simp add: inode_on_def inode_ok_def volume_at_def demo_super_fields demo_inode_place inode_group_def group_place_def place_in_def
      demo_part_fields; linarith)

lemma demo_inodes:
  "vol_inode demo_vol 2 = demo_inode 1024 (rev (bytes32 4))" "vol_inode demo_vol 3 = demo_inode 5 (rev (bytes32 5))"
  "vol_inode demo_vol 4 = demo_inode 8 (map byte ''/vmlinux'')"
  by (simp_all add: vol_inode_def volume_at_def fs_inode_def demo_super_fields demo_inode_place demo_part_fields)
    (simp_all add: slice_def demo_fs_eval)

text \<open>The directory and the file are one block each; the link is short.\<close>

lemma demo_inode_fields:
  "i_size (demo_inode 1024 (rev (bytes32 4))) = 1024" "i_dir_block (demo_inode 1024 (rev (bytes32 4))) 0 = 4"
  "i_size (demo_inode 5 (rev (bytes32 5))) = 5" "i_dir_block (demo_inode 5 (rev (bytes32 5))) 0 = 5"
  "i_size (demo_inode 8 (map byte ''/vmlinux'')) = 8"
  by (simp_all add: demo_inode_def i_size_def i_dir_block_def cpu32_le le_eval bytes32_def)

lemma demo_block:
  assumes "i_size (vol_inode demo_vol i) = n" and "i_dir_block (vol_inode demo_vol i) 0 = b"
    and "unat n \<le> 1024" and "0 < unat b" and "unat b < 6"
  shows "file_on demo_vol i" and "content demo_vol i = slice (unat b * 1024) (unat n) demo_fs"
proof -
  let ?i = "vol_inode demo_vol i"
  have nd: "nd_inode (vol_node demo_vol i) = ?i" "ed_sblock (nd_data (vol_node demo_vol i)) = demo_sblock"
    "vo_img demo_vol = demo_fs" "vo_part demo_vol = demo_fs_part"
    by (simp_all add: vol_node_def) (simp_all add: volume_at_def)
  have fb: "file_block demo_fs demo_fs_part 1024 ?i 0 = b" by (simp add: file_block_def assms(2))
  have "(unat n + 1023) div 1024 \<le> 1" using assms(3) by linarith
  then have k0: "k = 0" if "k < blk_count 1024 (unat n)" for k using that by (simp add: blk_count_def)
  have "readable demo_fs demo_fs_part 1024 ?i 0"
    using assms(4,5) by (simp add: readable_def mapped_def fb Let_def block_in_def demo_part_fields)
  then have "\<forall>k < blk_count 1024 (unat n). readable demo_fs demo_fs_part 1024 ?i k" using k0 by blast
  then show "file_on demo_vol i" using assms(1,3) by (simp add: file_on_def file_ok_def nd demo_super_fields)
  have "file_byte demo_fs demo_fs_part 1024 ?i j = demo_fs ! (unat b * 1024 + j)" if "j < unat n" for j
    using that assms(3,4) by (auto simp: file_byte_def fb demo_part_fields)
  then show "content demo_vol i = slice (unat b * 1024) (unat n) demo_fs" using assms(1,3,5)
    by (intro nth_equalityI) (auto simp: content_def dir_bytes_def nd demo_super_fields nth_slice demo_length)
qed

lemma demo_content:
  "file_on demo_vol 2" "file_on demo_vol 3" "content demo_vol 3 = map byte ''iquik''"
  "content demo_vol 2 = dirent_bytes 3 16 1 ''vmlinux'' @ [0] @ dirent_bytes 4 1008 7 ''boot'' @ replicate 996 0"
proof -
  note b2 = demo_block [of 2 1024 4, unfolded demo_inodes demo_inode_fields, OF refl refl]
    and b3 = demo_block [of 3 5 5, unfolded demo_inodes demo_inode_fields, OF refl refl]
  show "file_on demo_vol 2" "file_on demo_vol 3" using b2(1) b3(1) by simp_all
  show "content demo_vol 3 = map byte ''iquik''" using b3(2) by (simp add: slice_def demo_fs_eval)
  show "content demo_vol 2 = dirent_bytes 3 16 1 ''vmlinux'' @ [0] @ dirent_bytes 4 1008 7 ''boot'' @ replicate 996 0"
    using b2(2) by (simp add: slice_def demo_fs_eval)
qed

lemma demo_link: "link_on demo_vol demo_tree 4"
proof -
  have sz: "i_size (vol_inode demo_vol 4) = 8" by (simp only: demo_inodes demo_inode_fields)
  have "cstr (take 8 (i_symlink (vol_inode demo_vol 4))) = ''/vmlinux''"
    unfolding demo_inodes by (simp add: i_symlink_def demo_inode_def bytes32_def slice_def cstr_def)
  then show ?thesis by (simp add: link_on_def demo_inode_on link_text_def Let_def sz demo_tree_def word_le_nat_alt word_less_nat_alt)
qed

lemma demo_tree_on: "2 < B \<Longrightarrow> tree_on demo_vol demo_tree B"
proof -
  assume B: "2 < B"
  have "dir_chain (content demo_vol 2) 0 demo_entries"
    unfolding demo_content demo_entries_def
    by (simp add: dirent_bytes_def bytes32_def d_inode_def d_direntlen_def d_namelen_def d_filetype_def byte_at_def
      cpu32_le cpu16_le le_eval FILETYPE_UNKNOWN_def)
  then have "dir_on demo_vol demo_tree B 2"
    using B demo_content(1) by (simp add: dir_on_def demo_inode_on demo_tree_def) (simp add: demo_entries_def)
  then show ?thesis
    using demo_link by (auto simp: tree_on_def demo_tree_def demo_entries_def dirent_type_def filetype_defs)
qed

lemma demo_ext2: "2 < B \<Longrightarrow> ext2_volume (ram_disk demo_fs) demo_fs demo_fs_part demo_tree B"
  using demo_tree_on [of B] demo_super_fields ram_disk_device [of demo_fs]
  by (auto simp: ext2_volume_def part_on_def place_in_def demo_part_fields demo_length demo_tree_def)

text \<open>The link leads to the file.\<close>

lemma demo_path: "looks_up demo_tree 2 0 2 ''/boot'' (Inr (3, Some FILETYPE_REG)) 1"
proof -
  have n: "path_tail ''vmlinux'' = []" "path_head ''vmlinux'' = ''vmlinux''" "path_tail ''boot'' = []" "path_head ''boot'' = ''boot''"
    "skip_slashes ''/boot'' = ''boot''" "skip_slashes ''/vmlinux'' = ''vmlinux''"
    by (simp_all add: path_tail_def path_head_def skip_slashes_def)
  have e: "dir_find ''boot'' demo_entries = Some \<lparr>de_ino = 4, de_len = 1008, de_type = 7, de_name = ''boot''\<rparr>"
    "dir_find ''vmlinux'' demo_entries = Some \<lparr>de_ino = 3, de_len = 16, de_type = 1, de_name = ''vmlinux''\<rparr>"
    by (simp_all add: demo_entries_def dir_find_def)
  have t: "dirent_type 7 = FILETYPE_SYMLINK" "dirent_type 1 = FILETYPE_REG" "FILETYPE_REG \<noteq> FILETYPE_SYMLINK"
    by (simp_all add: dirent_type_def filetype_defs)
  have "goes_on demo_tree 2 1 3 FILETYPE_REG ''vmlinux'' (Inr (3, Some FILETYPE_REG)) 1" using n by (intro on_last)
  then have "walks demo_tree 2 1 2 FILETYPE_DIRECTORY ''vmlinux'' (Inr (3, Some FILETYPE_REG)) 1"
    using walk_entry [of "''vmlinux''" demo_tree 2 _ 2 1] e(2) t n by (simp add: demo_tree_def)
  then have "looks_up demo_tree 2 1 2 ''/vmlinux'' (Inr (3, Some FILETYPE_REG)) 1" using n by (intro look_down) simp_all
  moreover have "goes_on demo_tree 2 1 3 FILETYPE_REG ''boot'' (Inr (3, Some FILETYPE_REG)) 1" using n by (intro on_last)
  ultimately have "walks demo_tree 2 0 2 FILETYPE_DIRECTORY ''boot'' (Inr (3, Some FILETYPE_REG)) 1"
    using walk_link [of "''boot''" demo_tree 2 _ 0 2 3 "Some FILETYPE_REG" 1] e(1) t n by (simp add: demo_tree_def link_start_def)
  then show ?thesis using n by (intro look_down) simp_all
qed

lemma demo_room: "lookup_room demo_tree ''/boot'' = 10348" "vol_inv img p 1024 20000 (demo_loader p)"
  by (simp_all add: lookup_room_def link_cost_def demo_tree_def)
    (simp add: vol_inv_def demo_loader_def demo_disk_def demo_machine_def machine.defs pmachine.defs icache_none_def
      cache_ok_def cache_cost_def roomy_def heap_start_def layout_defs)

section \<open>Properties\<close>

text \<open>
  Property C17: the place of an inode.  Where the inodes of a block fill it and the blocks fill a
  group's table, inode \<open>n\<close> is read from the table whose first block the descriptor of its group
  names, at \<open>(n - 1) mod\<close> the inodes of a group times the size of an inode; the descriptor is read from
  the table of descriptors in the block after the superblock's.  Nothing but the firmware's state
  changes.
\<close>

theorem read_inode_place:
  fixes fw :: "'s firmware" and w :: "('s, 'z) emachine_scheme"
  assumes "block_device fw (p_dev (the_part w)) img pos" and "part_on img (the_part w)" and "sane_sb sb"
    and "inode_ok img (the_part w) sb (inode_size w) n"
  defines "start \<equiv> unat (p_start (the_part w))" and "ipg \<equiv> unat (sb_inodes_per_group sb)"
  defines "desc \<equiv> slice (start + (unat (sb_first_data_block sb) + 1) * fs_bs sb + 32 * ((unat n - 1) div ipg)) 32 img"
  shows "\<exists>s'. ext2fs_read_inode fw sb n w
    = (Inr (slice (start + unat (bg_inode_table_id desc) * fs_bs sb + (unat n - 1) mod ipg * unat (inode_size w)) 128 img),
       w\<lparr>fws := s'\<rparr>)"
  using inode_read [OF assms(1-4)]
  by (simp add: fs_inode_def inode_place_def group_table_def inode_group_def group_place_def start_def ipg_def desc_def add.assoc)

theorem read_inode_place_witness:
  "fst (ext2fs_read_inode (ram_disk demo_fs) demo_sblock 3 (demo_loader demo_fs_part)) = Inr (slice 3328 128 demo_fs)"
proof -
  let ?w = "demo_loader demo_fs_part"
  have w: "the_part ?w = demo_fs_part" "inode_size ?w = 128"
    by (simp_all add: demo_loader_def demo_disk_def demo_machine_def machine.defs pmachine.defs)
  have "block_device (ram_disk demo_fs) (p_dev (the_part ?w)) demo_fs (\<lambda>p. p)" "part_on demo_fs (the_part ?w)"
    by (simp_all add: ram_disk_device w part_on_def demo_part_fields demo_length)
  moreover have "inode_ok demo_fs (the_part ?w) demo_sblock (inode_size ?w) 3"
    using demo_inode_on [of 3] by (simp add: inode_on_def volume_at_def demo_super_fields w)
  ultimately obtain s' where "ext2fs_read_inode (ram_disk demo_fs) demo_sblock 3 ?w
      = (Inr (slice (unat (p_start (the_part ?w)) + unat (bg_inode_table_id (slice (unat (p_start (the_part ?w))
            + (unat (sb_first_data_block demo_sblock) + 1) * fs_bs demo_sblock + 32 * ((unat (3 :: u32) - 1) div unat (sb_inodes_per_group demo_sblock))) 32 demo_fs))
          * fs_bs demo_sblock + (unat (3 :: u32) - 1) mod unat (sb_inodes_per_group demo_sblock) * unat (inode_size ?w)) 128 demo_fs), ?w\<lparr>fws := s'\<rparr>)"
    using read_inode_place [of "ram_disk demo_fs" ?w demo_fs "\<lambda>p. p" demo_sblock 3] demo_super_fields(1) by blast
  moreover have "bg_inode_table_id (slice 2048 32 demo_fs) = 3"
    using demo_group by (simp add: group_table_def group_place_def demo_super_fields demo_part_fields)
  ultimately show ?thesis by (simp add: w demo_part_fields demo_super_fields)
qed

text \<open>
  Property C3: path lookup refines the tree.  On a mounted volume whose directories and links are
  those of a tree, each path has exactly one outcome by the rules, and the lookup gives it: the
  error, or a node of the inode with the number that was found, with the error for a type other
  than the one expected.  The number of links is bounded over the whole path, an error behind a
  link is reported as a missing file, and a link to the root directory keeps the type of a link.
\<close>

theorem path_lookup:
  fixes fw :: "'s firmware" and w :: "('s, 'z) emachine_scheme"
  assumes "tree_mounted fw v T rt root (lookup_room T path) w" and "NUL \<notin> set path"
  shows "\<exists>r n'. (\<forall>r2 n2. looks_up T rt 0 rt path r2 n2 \<longleftrightarrow> r2 = r \<and> n2 = n') \<and> (case r of
       Inl e \<Rightarrow> fst (ext2fs_find_file fw (Some path) root et w) = Inr (e, None)
     | Inr (i, t) \<Rightarrow> \<exists>nd. fst (ext2fs_find_file fw (Some path) root et w) = Inr (type_error et t, Some nd)
         \<and> node_for v i nd)"
proof -
  obtain r n' w' where r: "looks_up T rt 0 rt path r n'" and c: "case r of
       Inl e \<Rightarrow> ext2fs_find_file fw (Some path) root et w = (Inr (e, None), w')
     | Inr (i, t) \<Rightarrow> \<exists>nd. ext2fs_find_file fw (Some path) root et w = (Inr (type_error et t, Some nd), w')
         \<and> node_for v i nd \<and> at_work v root (budget w) n' 0 w'"
    using find_file_outcome [of fw v T rt root 0 path w et] assms by auto
  have "\<forall>r2 n2. looks_up T rt 0 rt path r2 n2 \<longleftrightarrow> r2 = r \<and> n2 = n'" using r outcome_unique(1) by blast
  then show ?thesis using c by (intro exI [of _ r] exI [of _ n']) (auto split: sum.splits)
qed

text \<open>The link leads to a file, where a directory is expected.\<close>

theorem path_lookup_witness:
  "\<exists>w1 root. ext2fs_mount (ram_disk demo_fs) (demo_loader demo_fs_part) = (Inr (), w1)
    \<and> (\<exists>nd. fst (ext2fs_find_file (ram_disk demo_fs) (Some ''/boot'') root FILETYPE_DIRECTORY w1) = Inr (ERR_FS_NOT_DIR, Some nd)
        \<and> nd_ino nd = 3)"
proof -
  have b: "budget (demo_loader demo_fs_part) = 100" "unat (malloc_end (mem (demo_loader demo_fs_part))) \<le> 2 ^ 31"
    by (simp_all add: demo_loader_def demo_disk_def demo_machine_def machine.defs pmachine.defs heap_start_def layout_defs)
  have v: "ext2_volume (ram_disk demo_fs) demo_fs demo_fs_part demo_tree (budget (demo_loader demo_fs_part))"
    using demo_ext2 [of 100] by (simp add: b)
  have "vol_inv demo_fs demo_fs_part (fs_bs demo_sblock) (lookup_room demo_tree ''/boot'' + unat sizeof_data + 8) (demo_loader demo_fs_part)"
    unfolding demo_super_fields demo_room(1) by (rule vol_inv_mono [OF demo_room(2)]) (simp add: sizeof_data_def)
  from mount_ok [OF v this b(2)] obtain w1 a where m: "ext2fs_mount (ram_disk demo_fs) (demo_loader demo_fs_part) = (Inr (), w1)"
    and t: "tree_mounted (ram_disk demo_fs) (volume_at demo_fs demo_fs_part a) demo_tree 2 (root_node (volume_at demo_fs demo_fs_part a))
      (lookup_room demo_tree ''/boot'') w1" by blast
  let ?root = "root_node (volume_at demo_fs demo_fs_part a)"
  obtain r n' where u: "\<forall>r2 n2. looks_up demo_tree 2 0 2 ''/boot'' r2 n2 \<longleftrightarrow> r2 = r \<and> n2 = n'"
    and c: "case r of
       Inl e \<Rightarrow> fst (ext2fs_find_file (ram_disk demo_fs) (Some ''/boot'') ?root FILETYPE_DIRECTORY w1) = Inr (e, None)
     | Inr (i, t) \<Rightarrow> \<exists>nd. fst (ext2fs_find_file (ram_disk demo_fs) (Some ''/boot'') ?root FILETYPE_DIRECTORY w1)
           = Inr (type_error FILETYPE_DIRECTORY t, Some nd) \<and> node_for (volume_at demo_fs demo_fs_part a) i nd"
    using path_lookup [OF t, of FILETYPE_DIRECTORY] by auto
  have "Inr (3, Some FILETYPE_REG) = r \<and> 1 = n'" using u demo_path by (metis (no_types))
  then have "r = Inr (3, Some FILETYPE_REG)" by simp
  moreover have "type_error FILETYPE_DIRECTORY (Some FILETYPE_REG) = ERR_FS_NOT_DIR" by (simp add: type_error_def filetype_defs)
  ultimately show ?thesis using m c by (auto simp: node_for_def)
qed



end
