(* ===== verification/File_Spec.thy ===== *)
theory File_Spec
  imports File
begin

unbundle bit_operations_syntax

text \<open>
  Paths as they are printed and as they are parsed: \<open>file_path\<close> reads back what \<open>printkp\<close> prints.
\<close>

lemma strtol_auto:
  assumes ds: "ds \<noteq> []" "list_all (digit_of 10) ds" and rest: "rest = [] \<or> hd rest = CHR ''/''"
    and lead: "hd ds \<noteq> CHR ''0'' \<or> ds = ''0''"
  shows "strtol (ds @ rest) 0 = (strtol_clamp False (digits_value 10 0 ds), rest)"
proof -
  obtain c cs where ds': "ds = c # cs" using ds(1) by (cases ds) auto
  have c: "digit_of 10 c" using ds ds' by simp
  note c' = digit_of_not_space [OF c] digit_of_not_sign [OF c]
  have slash: "\<not> digit_of 10 CHR ''/''" "\<not> digit_of 8 CHR ''/''"
    by (simp_all add: digit_of_def digit_val_def ccode_def)
  show ?thesis
  proof (cases "c = CHR ''0''")
    case False
    have r: "rest = [] \<or> \<not> digit_of 10 (hd rest)" using rest slash by auto
    have "strtol (ds @ rest) 0 = strtol (ds @ rest) 10" using False c' ds' by (simp add: strtol_def Let_def)
    then show ?thesis using strtol_decimal_core [of "[]" "[]" ds rest] ds r by simp
  next
    case True
    then have ds0: "ds = ''0''" using lead ds' by simp
    have v: "digit_val CHR ''0'' = Some 0" by (simp add: digit_val_def ccode_def)
    have slash_val: "digit_val CHR ''/'' = None" by (simp add: digit_val_def ccode_def)
    have sp: "\<not> is_space CHR ''0''" by (simp add: is_space_def ccode_def)
    show ?thesis
    proof (cases rest)
      case Nil
      then show ?thesis using v sp by (simp add: ds0 strtol_def Let_def strtol_clamp_def)
    next
      case (Cons d r)
      then have "d = CHR ''/''" using rest by simp
      then show ?thesis using v sp slash_val Cons by (simp add: ds0 strtol_def Let_def strtol_clamp_def)
    qed
  qed
qed

lemma printknu_lead:
  assumes "2 \<le> b" and "b \<le> 16" and "n \<noteq> 0" and "unat n < 2 ^ 28 * unat b"
  shows "last (printknu_buf n b) \<noteq> CHR ''0''"
  using assms
proof (induction n b rule: printknu_buf.induct)
  case (1 n b)
  let ?n = "(n div b) AND 0x0FFFFFFF"
  have b2: "2 \<le> unat b" using "1.prems" by (simp add: word_le_nat_alt)
  have q: "unat ?n = unat n div unat b mod 2 ^ 28" using printknu_step(2) [of b n] "1.prems" by simp
  have "unat n div unat b < 2 ^ 28" using "1.prems"(4) b2 by (simp add: div_less_iff_less_mult)
  then have q': "unat ?n = unat n div unat b" using q by simp
  show ?case
  proof (cases "?n = 0")
    case True
    then have "unat n div unat b = 0" using q' by simp
    then have "unat n mod unat b = unat n" by (metis add_0 div_mult_mod_eq mult_0)
    moreover have "digit_val (digit_char (unat (n mod b))) = Some (unat n mod unat b)"
      using printknu_step(1) [of b n] "1.prems" by simp
    moreover have "digit_val CHR ''0'' = Some 0" by (simp add: digit_val_def ccode_def)
    ultimately have "digit_char (unat (n mod b)) \<noteq> CHR ''0''" using "1.prems"(3) by (auto simp: unat_eq_0)
    then show ?thesis using True by (subst printknu_buf.simps) (simp add: Let_def)
  next
    case False
    have "unat ?n < 2 ^ 28 * unat b" using unat_mask28 [of "n div b"] b2
      using q' \<open>unat n div unat b < 2 ^ 28\<close> by simp
    then have "last (printknu_buf ?n b) \<noteq> CHR ''0''" using "1.IH" [OF refl] False "1.prems"(1,2) by blast
    moreover have "printknu_buf ?n b \<noteq> []" by (subst printknu_buf.simps) (simp add: Let_def)
    ultimately show ?thesis using False "1.prems" by (subst printknu_buf.simps) (simp add: Let_def)
  qed
qed


lemma printknu_decimal:
  assumes "unat n < 2 ^ 31"
  shows "digits_value 10 0 (printknu n 10) = unat n" and "list_all (digit_of 10) (printknu n 10)"
    and "printknu n 10 \<noteq> []" and "hd (printknu n 10) \<noteq> CHR ''0'' \<or> printknu n 10 = ''0''"
proof -
  show "digits_value 10 0 (printknu n 10) = unat n"
    using printknu_buf_value [of 10 n] assms masked_value_exact [of 10 "unat n" "2 ^ 28"]
    by (simp add: printknu_def div_less_iff_less_mult)
  show "list_all (digit_of 10) (printknu n 10)" using printknu_buf_digits [of 10 n] by (simp add: printknu_def)
  show "printknu n 10 \<noteq> []" by (rule printknu_nonempty)
  have b: "printknu_buf n 10 \<noteq> []" by (subst printknu_buf.simps) (simp add: Let_def)
  show "hd (printknu n 10) \<noteq> CHR ''0'' \<or> printknu n 10 = ''0''"
  proof (cases "n = 0")
    case True
    then show ?thesis by (simp add: printknu_def printknu_buf.simps [of 0] Let_def digit_char_def)
  next
    case False
    then show ?thesis using printknu_lead [of 10 n] assms b by (simp add: printknu_def hd_rev)
  qed
qed

lemma strtol_printed:
  assumes "unat n < 2 ^ 31" and "rest = [] \<or> hd rest = CHR ''/''"
  shows "strtol (printknu n 10 @ rest) 0 = (n, rest)"
  using strtol_auto [of "printknu n 10" rest] printknu_decimal [OF assms(1)] assms by (simp add: strtol_clamp_def)

section \<open>Properties\<close>

text \<open>
  Property C28: a path that is printed with \<open>%P\<close>, as device, colon, partition and absolute path, and
  handed to \<open>file_path\<close> again gives the same path, whatever the default device is, unless the
  heap is full.
\<close>

theorem path_roundtrip:
  assumes "d \<noteq> []" and "CHR '':'' \<notin> set d" and "hd d \<noteq> CHR '' ''" and "unat n < 2 ^ 31"
    and "q = CHR ''/'' # r" and "pt = \<lparr>pt_device = Some d, pt_part = n, pt_path = Some q\<rparr>"
    and "spec = printkp jk (Some pt)"
  shows "fst (file_path spec dev w)
    = (case malloc (word_of_nat (length spec + 1) + sizeof_path) (mem w) of
         (a, h) \<Rightarrow> if a = 0 then Inl (Err ERR_NO_MEM) else Inr (a, pt))"
proof -
  have spec: "spec = d @ CHR '':'' # printknu n 10 @ q"
    using assms(6,7) by (simp add: printkp_def printks_def)
  have chomp: "chomp spec = spec" using assms(1,3) by (cases d) (simp_all add: spec)
  have colon: "strchr spec CHR '':'' = Some (CHR '':'' # printknu n 10 @ q)"
    using assms(2) by (auto simp: spec strchr_Some_iff)
  have dev: "takeWhile (\<lambda>c. c \<noteq> CHR '':'') spec = d"
    using assms(2) by (auto simp: spec takeWhile_append takeWhile_eq_all_conv)
  have "strtol (printknu n 10 @ q) 0 = (n, q)" using assms(4,5) by (intro strtol_printed) simp_all
  moreover have "q \<noteq> printknu n 10 @ q" using printknu_nonempty [of n 10] by simp
  ultimately have "parse_path spec d' = Inr pt" for d'
    using colon dev assms(1,5,6) by (simp add: parse_path_def Let_def fix_path_def)
  then show ?thesis
    by (simp add: file_path_def chomp mallocM_def bnd_def ret_def throw_def split: prod.split)
qed

theorem path_roundtrip_witness:
  "fst (file_path ''hd:3/boot/vmlinux'' env_dev_zero (demo_machine 0))
     = Inr (0x500004, \<lparr>pt_device = Some ''hd'', pt_part = 3, pt_path = Some ''/boot/vmlinux''\<rparr>)"
proof -
  have "printknu 3 10 = ''3''" by (simp add: printknu_def printknu_buf.simps [of 3] Let_def digit_char_def)
  then show ?thesis
    using path_roundtrip [of "''hd''" 3 "''/boot/vmlinux''" "''boot/vmlinux''" _ "''hd:3/boot/vmlinux''"
        "junk (demo_machine 0)" env_dev_zero "demo_machine 0"]
    by (simp add: printkp_def printks_def malloc_def sizeof_path_def demo_machine_def heap_start_def layout_defs Let_def)
qed

end
