(* ===== verification/Elf_Spec.thy ===== *)
theory Elf_Spec
  imports Elf Part
begin

unbundle bit_operations_syntax

text \<open>
  What loading a kernel image means: the part of the file between the first loadable segment
  and the end of the last one is the image, and relocation keeps its bytes and the place of
  its entry in it.
\<close>

section \<open>The loadable part\<close>

text \<open>A program header that counts: its offset, size and address.\<close>

record segment =
  sg_off :: u32
  sg_size :: u32
  sg_addr :: u32

definition segment_at :: "ram \<Rightarrow> u32 \<Rightarrow> segment" where
  "segment_at m p = \<lparr>sg_off = p_offset m p, sg_size = p_memsz m p, sg_addr = p_vaddr m p\<rparr>"

fun segments_at :: "ram \<Rightarrow> u32 \<Rightarrow> nat \<Rightarrow> segment list" where
  "segments_at m p 0 = []"
| "segments_at m p (Suc n) =
     (if p_type m p = PT_LOAD \<and> p_offset m p \<noteq> 0 then [segment_at m p] else []) @ segments_at m (p + sizeof_phdr) n"

definition file_segments :: "ram \<Rightarrow> u32 \<Rightarrow> segment list" where
  "file_segments m e = segments_at m (e + e_phoff m e) (unat (e_phnum m e))"

definition sg_end :: "segment \<Rightarrow> u32" where
  "sg_end s = sg_off s + sg_size s"

text \<open>The first segment is not empty, and no later one ends at or before its start or beyond 4 GB.\<close>

definition segments_ok :: "segment list \<Rightarrow> bool" where
  "segments_ok ss \<longleftrightarrow> ss \<noteq> [] \<and> sg_size (hd ss) \<noteq> 0
     \<and> (\<forall>s \<in> set ss. sg_off (hd ss) < sg_end s \<and> unat (sg_off s) + unat (sg_size s) < 2 ^ 32)"

fun seg_step :: "segment \<Rightarrow> u64 \<times> u32 \<times> u32 \<Rightarrow> u64 \<times> u32 \<times> u32" where
  "seg_step s (off, len, base) =
     (if len = 0 then (ucast (sg_off s), sg_size s, sg_addr s AND ADDRMASK)
      else (off, ucast (ucast (sg_end s) - off), base))"

lemma elf_segments_fold: "elf_segments m p n acc = fold seg_step (segments_at m p n) acc"
proof (induction n arbitrary: p acc)
  case (Suc n)
  obtain off len base where "acc = (off, len, base)" by (cases acc)
  then show ?case by (simp add: Suc segment_at_def sg_end_def)
qed simp

lemma ucast_diff: "ucast (ucast a - ucast b :: u64) = (a - b :: u32)"
  by transfer (simp add: take_bit_diff)

lemma ucast_back [simp]: "ucast (ucast a :: u64) = (a :: u32)"
  by transfer simp

lemma fold_segments:
  assumes "\<forall>s \<in> set ss. off < sg_end s" and "len \<noteq> 0"
  shows "fold seg_step ss (ucast off, len, base) = (ucast off, if ss = [] then len else sg_end (last ss) - off, base)"
  using assms
proof (induction ss arbitrary: len)
  case (Cons s ss)
  have n0: "sg_end s - off \<noteq> 0" using Cons.prems by auto
  show ?case using Cons.IH [OF _ n0] Cons.prems by (simp add: ucast_diff)
qed simp

lemma segments_found:
  assumes "segments_ok ss"
  shows "fold seg_step ss (0, 0, 0) = (ucast (sg_off (hd ss)), sg_end (last ss) - sg_off (hd ss), sg_addr (hd ss) AND ADDRMASK)"
proof -
  obtain s ss' where ss: "ss = s # ss'" using assms by (cases ss) (auto simp: segments_ok_def)
  have "fold seg_step ss' (ucast (sg_off s), sg_size s, sg_addr s AND ADDRMASK)
      = (ucast (sg_off s), if ss' = [] then sg_size s else sg_end (last ss') - sg_off s, sg_addr s AND ADDRMASK)"
    using assms by (intro fold_segments) (simp_all add: ss segments_ok_def)
  then show ?thesis by (simp add: ss sg_end_def)
qed

text \<open>
  Property C13: a 32-bit big-endian ELF file whose loadable segments lie one after the other is taken
  from the start of the first one to the end of the last one, with the first one's address as the
  linked base.  Where the last segment reaches past the file, memory for the rest is claimed first.
\<close>

theorem elf_parse_image:
  assumes "m = ram (mem w)" and "ss = file_segments m buf"
    and "elf_magic m buf" and "e_ident m buf EI_CLASS = ELFCLASS32" and "e_ident m buf EI_DATA = ELFDATA2MSB"
    and "segments_ok ss"
  shows "elf_parse fw buf n w =
    bnd (if n < sg_end (last ss) then prom_ensure_claimed fw (buf + n) (sg_end (last ss) - n) else ret ())
      (\<lambda>_. ret \<lparr>ls_buf = buf, ls_linked_base = sg_addr (hd ss) AND ADDRMASK, ls_text_offset = sg_off (hd ss),
         ls_text_len = sg_end (last ss) - sg_off (hd ss), ls_entry = e_entry m buf AND ADDRMASK\<rparr>) w"
proof -
  have "last ss \<in> set ss" using assms(6) by (simp add: segments_ok_def)
  then have lt: "sg_off (hd ss) < sg_end (last ss)" using assms(6) by (simp add: segments_ok_def)
  let ?len = "sg_end (last ss) - sg_off (hd ss)"
  have nz: "?len \<noteq> 0" using lt by auto
  have f: "elf_segments m (buf + e_phoff m buf) (unat (e_phnum m buf)) (0, 0, 0)
      = (ucast (sg_off (hd ss)), ?len, sg_addr (hd ss) AND ADDRMASK)"
    using segments_found [OF assms(6)] by (simp add: elf_segments_fold assms(2) file_segments_def)
  have stop: "ucast ?len + ucast (sg_off (hd ss)) = (ucast (sg_end (last ss)) :: u64)"
  proof -
    have "unat ?len + unat (sg_off (hd ss)) = unat (sg_end (last ss))" using lt by (simp add: unat_sub word_le_nat_alt word_less_nat_alt)
    then have "unat (ucast ?len + ucast (sg_off (hd ss)) :: u64) = unat (ucast (sg_end (last ss)) :: u64)"
      using unat_lt_u32 [of "sg_end (last ss)"] by (simp add: unat_plus_no_wrap)
    then show ?thesis by (simp only: word_unat_eq_iff)
  qed
  have cmp: "ucast n < (ucast (sg_end (last ss)) :: u64) \<longleftrightarrow> n < sg_end (last ss)" by (simp add: word_less_nat_alt)
  show ?thesis
    using assms(3-5) nz
    by (simp add: elf_parse_def assms(1) [symmetric] Let_def f stop cmp ucast_diff)
qed

text \<open>A kernel of two segments of which the second ends 384 bytes past the file.\<close>

definition demo_elf :: bytes where
  "demo_elf = [0x7f, 0x45, 0x4c, 0x46, 1, 2] @ replicate 18 0 @ bytes32 0xC0000100 @ bytes32 52 @ replicate 12 0 @ [0, 2] @ replicate 6 0
     @ bytes32 1 @ bytes32 0x100 @ bytes32 0xC0000000 @ replicate 8 0 @ bytes32 0x80 @ replicate 8 0
     @ bytes32 1 @ bytes32 0x180 @ bytes32 0xC0000080 @ replicate 8 0 @ bytes32 0x200 @ replicate 8 0"

definition ram_with :: "u32 \<Rightarrow> bytes \<Rightarrow> ram" where
  "ram_with base bs = (\<lambda>a. if unat (a - base) < length bs then bs ! unat (a - base) else 0)"

lemma ram_with_nth:
  assumes "unat (a - base) + k < length bs" and "length bs < 2 ^ 32"
  shows "ram_with base bs (a + word_of_nat k) = bs ! (unat (a - base) + k)"
proof -
  have k: "unat (word_of_nat k :: u32) = k" using assms by (intro unat_word_of_nat_small) simp
  have e: "a + word_of_nat k - base = (a - base) + word_of_nat k" by simp
  have u: "unat ((a - base) + word_of_nat k) = unat (a - base) + k"
    using assms k unat_plus_no_wrap [of "a - base" "word_of_nat k"] by simp
  show ?thesis unfolding ram_with_def e u using assms(1) by simp
qed

lemma load_ram_with:
  assumes "length bs < 2 ^ 32"
  shows "unat (a - base) + 4 \<le> length bs \<Longrightarrow> load32 (ram_with base bs) a = be32 bs (unat (a - base))"
    and "unat (a - base) + 2 \<le> length bs \<Longrightarrow> load16 (ram_with base bs) a = be16 bs (unat (a - base))"
    and "unat (a - base) < length bs \<Longrightarrow> load8 (ram_with base bs) a = bs ! unat (a - base)"
proof -
  have n: "ram_with base bs a = bs ! unat (a - base)" if "unat (a - base) < length bs"
    using ram_with_nth [of a base 0 bs] that assms by simp
  have k: "ram_with base bs (a + 1) = bs ! (unat (a - base) + 1)" if "unat (a - base) + 1 < length bs"
    using ram_with_nth [of a base 1 bs] that assms by simp
  have k2: "ram_with base bs (a + 2) = bs ! (unat (a - base) + 2)" "ram_with base bs (a + 3) = bs ! (unat (a - base) + 3)"
    if "unat (a - base) + 3 < length bs"
    using ram_with_nth [of a base 2 bs] ram_with_nth [of a base 3 bs] that assms by simp_all
  show "load32 (ram_with base bs) a = be32 bs (unat (a - base))" if "unat (a - base) + 4 \<le> length bs"
    using that n k k2 by (simp add: load32_def be32_def slice4 [OF that] slice4 [of 0 "[_, _, _, _]"])
  show "load16 (ram_with base bs) a = be16 bs (unat (a - base))" if "unat (a - base) + 2 \<le> length bs"
    using that n k by (simp add: load16_def be16_def slice2 [OF that] slice2 [of 0 "[_, _]"])
  show "unat (a - base) < length bs \<Longrightarrow> load8 (ram_with base bs) a = bs ! unat (a - base)"
    using n by (simp add: load8_def)
qed

definition demo_loaded :: "(u32 \<times> u32) list machine" where
  "demo_loaded = (demo_machine [])\<lparr>mem := (heap_start (\<lambda>_. 0))\<lparr>ram := ram_with 0x800000 demo_elf\<rparr>\<rparr>"

theorem elf_parse_image_witness:
  "fst (elf_parse demo_firmware 0x800000 0x400 demo_loaded)
     = Inr \<lparr>ls_buf = 0x800000, ls_linked_base = 0, ls_text_offset = 0x100, ls_text_len = 0x280, ls_entry = 0x100\<rparr>"
proof -
  let ?m = "ram (mem demo_loaded)"
  have m: "?m = ram_with 0x800000 demo_elf" by (simp add: demo_loaded_def)
  have len: "length demo_elf = 116" by (simp add: demo_elf_def bytes32_def)
  note e = m load_ram_with len
  have f: "be32 demo_elf 24 = 0xC0000100" "be32 demo_elf 28 = 52" "be16 demo_elf 44 = 2"
    "be32 demo_elf 52 = 1" "be32 demo_elf 56 = 0x100" "be32 demo_elf 60 = 0xC0000000" "be32 demo_elf 72 = 0x80"
    "be32 demo_elf 84 = 1"
    "demo_elf ! 0 = 0x7f" "demo_elf ! Suc 0 = 0x45" "demo_elf ! 2 = 0x4c" "demo_elf ! 3 = 0x46" "demo_elf ! 4 = 1" "demo_elf ! 5 = 2"
    "be32 demo_elf 88 = 0x180" "be32 demo_elf 92 = 0xC0000080" "be32 demo_elf 104 = 0x200"
    by (simp_all add: demo_elf_def bytes32_def be32_def be16_def be_nat_def slice_def)
  have two: "segments_at m p 2 = segments_at m p (Suc (Suc 0))" for m p by (simp add: numeral_2_eq_2)
  have ss: "file_segments ?m 0x800000 = [\<lparr>sg_off = 0x100, sg_size = 0x80, sg_addr = 0xC0000000\<rparr>,
      \<lparr>sg_off = 0x180, sg_size = 0x200, sg_addr = 0xC0000080\<rparr>]"
    by (simp add: e f file_segments_def segment_at_def e_phoff_def e_phnum_def p_type_def p_offset_def p_memsz_def p_vaddr_def
      sizeof_phdr_def PT_LOAD_def two)
  then have ok: "segments_ok (file_segments ?m 0x800000)" by (simp add: segments_ok_def sg_end_def)
  have "elf_magic ?m 0x800000" "e_ident ?m 0x800000 EI_CLASS = ELFCLASS32" "e_ident ?m 0x800000 EI_DATA = ELFDATA2MSB"
    "e_entry ?m 0x800000 = 0xC0000100"
    by (simp_all add: e f elf_magic_def e_ident_def EI_CLASS_def EI_DATA_def ELFCLASS32_def ELFDATA2MSB_def e_entry_def)
  note h = elf_parse_image [OF refl refl this(1-3) ok, of demo_firmware "0x400"] this(4)
  show ?thesis using h by (simp add: ss sg_end_def ADDRMASK_def bnd_def ret_def)
qed

section \<open>Relocation\<close>

lemma ensure_claimed_ok:
  assumes "unat virt + unat n + 4095 < 2 ^ 32" and "unat n div 4096 + 2 \<le> budget w"
  obtains s' where "prom_ensure_claimed fw virt n w = (Inr (), w\<lparr>fws := s'\<rparr>)"
proof -
  have "unat (virt + n) = unat virt + unat n" using assms(1) by (intro unat_plus_no_wrap) simp
  moreover have "unat n + 4096 \<le> 4096 * budget w" using assms(2) by linarith
  ultimately have "\<exists>s'. prom_ensure_claimed fw virt n w = (Inr (), w\<lparr>fws := s'\<rparr>)"
    using claim_pages_ends [of "virt + n" virt "budget w" fw w] assms by (simp add: prom_ensure_claimed_def)
  then show thesis using that by blast
qed

text \<open>
  Property C10: relocation.  A 2.4 or later kernel stays where it was loaded: its base becomes the
  address of its first loadable byte and its entry keeps its distance from the base.  A pre-2.4
  kernel that reaches past the loader's own memory is refused and nothing changes; any other is
  copied to its linked base, where the source and the target may overlap, and no other byte of
  memory changes.
\<close>

theorem elf_relo_image:
  assumes "unat (ls_linked_base img) + unat (ls_text_len img) + 4095 < 2 ^ 32"
    and "unat (ls_text_len img) div 4096 + 2 \<le> budget w"
  shows "if flag_set (bi_flags (bi w)) BOOT_PRE_2_4 then
      if ls_text_len img > IQUIK_BASE then elf_relo fw img w = (Inl (Err ERR_KERNEL_OLD_BIG), w)
      else \<exists>w'. elf_relo fw img w = (Inr img, w') \<and> bi w' = bi w
        \<and> (\<forall>i < ls_text_len img. ram (mem w') (ls_linked_base img + i) = ram (mem w) (ls_buf img + ls_text_offset img + i))
        \<and> (\<forall>a. \<not> a - ls_linked_base img < ls_text_len img \<longrightarrow> ram (mem w') a = ram (mem w) a)
    else \<exists>img'. elf_relo fw img w = (Inr img', w)
        \<and> ls_linked_base img' = ls_buf img + ls_text_offset img
        \<and> ls_entry img' - ls_linked_base img' = ls_entry img - ls_linked_base img
        \<and> ls_text_len img' = ls_text_len img \<and> ls_buf img' = ls_buf img \<and> ls_text_offset img' = ls_text_offset img"
proof -
  obtain s' where c: "prom_ensure_claimed fw (ls_linked_base img) (ls_text_len img) w = (Inr (), w\<lparr>fws := s'\<rparr>)"
    using assms by (rule ensure_claimed_ok)
  show ?thesis
    by (simp add: elf_relo_def Let_def c bnd_def modify_def ret_def memcpy_def)
qed

text \<open>An old kernel moved down over itself.\<close>

definition demo_image_at :: load_state_t where
  "demo_image_at = \<lparr>ls_buf = 0x800000, ls_linked_base = 0x800010, ls_text_offset = 0, ls_text_len = 0x40, ls_entry = 0\<rparr>"

theorem elf_relo_image_witness:
  "\<exists>w'. elf_relo demo_firmware demo_image_at (demo_loaded\<lparr>bi := bi_zero\<lparr>bi_flags := BOOT_PRE_2_4\<rparr>\<rparr>) = (Inr demo_image_at, w')
     \<and> ram (mem w') 0x800010 = 0x7f \<and> ram (mem w') 0x800013 = 0x46"
proof -
  let ?w = "demo_loaded\<lparr>bi := bi_zero\<lparr>bi_flags := BOOT_PRE_2_4\<rparr>\<rparr>"
  have f: "flag_set (bi_flags (bi ?w)) BOOT_PRE_2_4" by (simp add: flag_set_def BOOT_PRE_2_4_def)
  have n: "\<not> ls_text_len demo_image_at > IQUIK_BASE" by (simp add: demo_image_at_def IQUIK_BASE_def)
  have "unat (ls_linked_base demo_image_at) + unat (ls_text_len demo_image_at) + 4095 < 2 ^ 32"
    "unat (ls_text_len demo_image_at) div 4096 + 2 \<le> budget ?w"
    by (simp_all add: demo_image_at_def demo_loaded_def demo_machine_def)
  from elf_relo_image [OF this, of demo_firmware, unfolded if_P [OF f] if_not_P [OF n]]
  obtain w' where w': "elf_relo demo_firmware demo_image_at ?w = (Inr demo_image_at, w')"
    and c: "\<forall>i < 0x40. ram (mem w') (0x800010 + i) = ram_with 0x800000 demo_elf (0x800000 + i)"
    by (auto simp: demo_image_at_def demo_loaded_def)
  have "ram (mem w') 0x800010 = 0x7f" "ram (mem w') 0x800013 = 0x46"
    using spec [OF c, of 0] spec [OF c, of 3] by (simp_all add: ram_with_def demo_elf_def)
  then show ?thesis using w' by blast
qed

end
