(* ===== verification/Cfg_Types.thy ===== *)
theory Cfg_Types
  imports Cfg_Text Boot
begin

text \<open>
  The types of the parser's tables: whatever the text of the configuration is, each table keeps
  the names and types of its options, an option's value is a C string shorter than a token's
  buffer, and a flag's value is empty.  This bounds the kernel parameters that are put together
  from the tables.
\<close>

section \<open>Well-typed tables\<close>

definition entry_typed :: "CONFIG \<Rightarrow> bool" where
  "entry_typed e \<longleftrightarrow>
     (case cf_data e of
        None \<Rightarrow> True
      | Some d \<Rightarrow> length d < MAX_TOKEN \<and> NUL \<notin> set d \<and> (cf_type e = cft_flag \<longrightarrow> d = []))"

definition table_typed :: "CONFIG list \<Rightarrow> CONFIG list \<Rightarrow> bool" where
  "table_typed t0 t \<longleftrightarrow> map (\<lambda>e. (cf_type e, cf_name e)) t = map (\<lambda>e. (cf_type e, cf_name e)) t0 \<and> list_all entry_typed t"

definition tok_ok :: "tok option \<Rightarrow> bool" where
  "tok_ok t \<longleftrightarrow> (case t of None \<Rightarrow> True | Some (p, x) \<Rightarrow> length x < MAX_TOKEN \<and> NUL \<notin> set x)"

definition tables_typed :: "cfg \<Rightarrow> bool" where
  "tables_typed s \<longleftrightarrow> table_typed cf_options0 (cf_options s) \<and> list_all (table_typed cf_image0) (images s)
     \<and> (curr_image s \<longrightarrow> images s \<noteq> [])"

definition cfg_typed :: "cfg \<Rightarrow> bool" where
  "cfg_typed s \<longleftrightarrow> tables_typed s \<and> tok_ok (last_token s) \<and> tok_ok (last_item s) \<and> tok_ok (last_value s)"

section \<open>The parser keeps them\<close>

lemma token_dup_clean: "token_dup t s = (Inr (Some (p, x)), s') \<Longrightarrow> NUL \<notin> set x"
  by (auto simp: token_dup_def Let_def dest: set_takeWhileD split: prod.splits if_splits)

lemma fresh_token_clean:
  assumes "cfg_get_token s = (Inr (Some (p, t)), s')" and "last_token s = None"
  shows "NUL \<notin> set t"
proof -
  obtain ch s1 where k: "skip_to_token s = (ch, s1)" by fastforce
  with assms obtain c where c: "ch = Some c" by (cases ch) (auto simp: cfg_get_token_def)
  show ?thesis
  proof (cases "c = CHR ''=''")
    case True
    then show ?thesis using assms k c token_dup_clean [of "''=''" s1] by (simp add: cfg_get_token_def)
  next
    case False
    then have "bnd (if c = DQUOTE then quoted [] else unquoted (Some c) False []) token_dup s1
        = (Inr (Some (p, t)), s')" using assms k c by (simp add: cfg_get_token_def)
    then show ?thesis by (rule bnd_InrE) (rule token_dup_clean)
  qed
qed

lemma get_token_typed:
  assumes "cfg_typed s" and g: "cfg_get_token s = (r, s')"
  shows "cfg_typed s'" and "r = Inr t \<Longrightarrow> tok_ok t"
proof -
  note f = cfg_get_token_frame(1,2) [OF g]
  show "cfg_typed s'" using assms(1) f by (simp add: cfg_typed_def tables_typed_def parsed_def tok_ok_def)
  show "tok_ok t" if r: "r = Inr t"
  proof (cases "last_token s")
    case None
    then show ?thesis using g r fresh_token [of s] fresh_token_clean [of s]
      by (cases t) (auto simp: tok_ok_def)
  next
    case (Some u)
    then show ?thesis using g r assms(1) by (auto simp: cfg_get_token_def cfg_typed_def)
  qed
qed

lemma cfg_error_typed: "cfg_typed s \<Longrightarrow> cfg_typed (snd (cfg_error m s))"
  by (simp add: cfg_error_def cfg_typed_def tables_typed_def)

lemma next_typed:
  assumes s: "cfg_typed s" and n: "cfg_next s = (r, s')"
  shows "cfg_typed s' \<and> (\<forall>i v. r = Inr (Some (i, v)) \<longrightarrow> tok_ok (Some i) \<and> tok_ok v)"
proof (cases "last_item s")
  case (Some i)
  then show ?thesis using assms by (auto simp: cfg_next_def cfg_typed_def tables_typed_def tok_ok_def)
next
  case None
  obtain r1 s1 where g1: "cfg_get_token s = (r1, s1)" by fastforce
  obtain r2 s2 where g2: "cfg_get_token s1 = (r2, s2)" by fastforce
  obtain r3 s3 where g3: "cfg_get_token s2 = (r3, s3)" by fastforce
  note t1 = get_token_typed [OF s g1]
  note t2 = get_token_typed [OF t1(1) g2]
  note t3 = get_token_typed [OF t2(1) g3]
  have e: "cfg_typed (s1\<lparr>cfg_msgs := m\<rparr>)" "cfg_typed (s2\<lparr>cfg_msgs := m\<rparr>)" "cfg_typed (s3\<lparr>cfg_msgs := m\<rparr>)" for m
    using t1(1) t2(1) t3(1) by (simp_all add: cfg_typed_def tables_typed_def)
  have l: "cfg_typed (s2\<lparr>last_token := Some t\<rparr>)" if "tok_ok (Some t)" for t
    using t2(1) that by (simp add: cfg_typed_def tables_typed_def)
  have n0: "tok_ok None" by (simp add: tok_ok_def)
  show ?thesis
    using n None g1 g2 g3 t1 t2 t3 e l n0 unfolding cfg_next_def
    by (cases r1; cases r2; cases r3)
      (auto simp: io_simps cfg_error_def cfg_return_token_def split: option.splits if_splits)
qed

lemma set_entry_typed:
  assumes "entry_typed e" and "tok_ok val" and "set_entry e (map_option snd val) = (e', ws)"
  shows "entry_typed e' \<and> cf_type e' = cf_type e \<and> cf_name e' = cf_name e"
proof -
  have "length ([] :: string) < MAX_TOKEN" by (simp add: MAX_TOKEN_def)
  then show ?thesis
    using assms by (auto simp: set_entry_def entry_typed_def tok_ok_def split: if_splits CONFIG_TYPE.splits option.splits)
qed

lemma set_table_typed:
  assumes "list_all entry_typed t" and "tok_ok val" and "set_table t item (map_option snd val) = Some (t', ws)"
  shows "list_all entry_typed t' \<and> map (\<lambda>e. (cf_type e, cf_name e)) t' = map (\<lambda>e. (cf_type e, cf_name e)) t"
  using assms
proof (induction t arbitrary: t' ws)
  case (Cons e t)
  then show ?case using set_entry_typed [of e val]
    by (auto split: if_splits prod.splits)
qed simp

lemma fold_warn_typed: "tables_typed (fold cfg_warn ws s) = tables_typed s"
  "last_value (fold cfg_warn ws s) = last_value s"
  by (induction ws arbitrary: s) (simp_all add: tables_typed_def cfg_warn_def)

lemma set_typed:
  assumes s: "cfg_typed s" and v: "tok_ok (Some item)" "tok_ok val" and c: "cfg_set item val s = (r, s')"
  shows "cfg_typed s'"
proof -
  let ?m = "if strcasecmp (snd item) ''image'' = 0 then new_image else ret ()"
  obtain q s1 where q: "?m s = (q, s1)" by fastforce
  have "list_all entry_typed cf_image0" by (simp add: cf_image0_def strg_def flg_def entry_typed_def)
  then have s1: "cfg_typed s1" using s q
    by (auto simp: new_image_def ret_def cfg_typed_def tables_typed_def table_typed_def split: if_splits prod.splits)
  show ?thesis
  proof (cases "set_table (curr_table s1) (snd item) (map_option snd val)")
    case None
    then show ?thesis using c q s1 v
      by (cases q) (auto simp: cfg_set_def bnd_def cfg_return_def cfg_typed_def tables_typed_def)
  next
    case (Some tw)
    obtain t ws where tw: "tw = (t, ws)" by (cases tw)
    let ?t0 = "if curr_image s1 then cf_image0 else cf_options0"
    have last_in: "curr_image s1 \<Longrightarrow> last (images s1) \<in> set (images s1)" using s1 by (simp add: cfg_typed_def tables_typed_def)
    have ct: "table_typed ?t0 (curr_table s1)"
      using s1 last_in by (auto simp: cfg_typed_def tables_typed_def curr_table_def list_all_iff)
    then have "table_typed ?t0 t"
      using set_table_typed [OF _ v(2) Some [unfolded tw]] by (simp add: table_typed_def)
    then have "cfg_typed (put_table t s1)"
      using s1 by (auto simp: put_table_def cfg_typed_def tables_typed_def list_all_iff dest: in_set_butlastD)
    then have "cfg_typed (fold cfg_warn ws (put_table t s1))" by (simp add: cfg_typed_def fold_warn_typed)
    then show ?thesis using c q s1 Some tw by (cases q) (auto simp: cfg_set_def bnd_def)
  qed
qed

lemma loop_typed: "cfg_typed s \<Longrightarrow> cfg_loop s = (r, s') \<Longrightarrow> cfg_typed s'"
proof (induction s arbitrary: r rule: cfg_loop.induct)
  case (1 s)
  obtain q s1 where n: "cfg_next s = (q, s1)" by fastforce
  note t = next_typed [OF "1.prems"(1) n]
  show ?case
  proof (cases "\<exists>item val. q = Inr (Some (item, val))")
    case False
    then show ?thesis using "1.prems"(2) n t
      by (auto simp: cfg_loop.simps [of s] split: sum.splits option.splits cfg_fail.splits)
  next
    case True
    then obtain item val where q: "q = Inr (Some (item, val))" by blast
    obtain k s2 where c: "cfg_set item val s1 = (k, s2)" by fastforce
    have s2: "cfg_typed s2" using set_typed [OF _ _ _ c] t q by blast
    then have s2': "cfg_typed (s2\<lparr>cfg_heap := h\<rparr>)" for h by (simp add: cfg_typed_def tables_typed_def)
    show ?thesis
    proof (cases "k = Inr True")
      case k: True
      have "cfg_loop (s2\<lparr>cfg_heap := free (fst item) (cfg_heap s2)\<rparr>) = (r, s')"
        using "1.prems"(2) n q c k by (simp add: cfg_loop.simps [of s])
      then show ?thesis using "1.IH" [OF n [symmetric] q refl refl c [symmetric] k] s2' by simp
    next
      case False
      then show ?thesis using "1.prems"(2) n q c s2
        by (cases k) (auto simp: cfg_loop.simps [of s])
    qed
  qed
qed

lemma cfg_typed_input: "cfg_typed s \<Longrightarrow> cfg_typed (s\<lparr>file_name := f, inp := i\<rparr>)"
  by (simp add: cfg_typed_def tables_typed_def)

text \<open>
  Property C16: parsing any text, in any state of the parser, with or without an error, keeps the
  tables well typed: the names and types of their options, values shorter than a token's
  buffer and without a NUL, and empty values for flags.
\<close>

theorem cfg_tables_typed:
  assumes "cfg_typed s"
  shows "cfg_typed (snd (cfg_parse file text n s))"
proof -
  obtain r s' where p: "cfg_parse file text n s = (r, s')" by fastforce
  have "cfg_typed (s\<lparr>file_name := file, inp := take n text\<rparr>)" using assms by (simp add: cfg_typed_def tables_typed_def)
  then show ?thesis using p loop_typed by (simp add: cfg_parse_def)
qed

lemma start_typed: "cfg_typed (cfg_start h bits text)"
  by (simp add: cfg_typed_def tables_typed_def table_typed_def cfg_start_def tok_ok_def
      cf_options0_def strg_def flg_def entry_typed_def)

theorem cfg_tables_typed_witness:
  "cfg_typed (snd (cfg_parse None ''root=/dev/sda3 image=/vmlinux bogus'' 36 (cfg_start (heap_start (\<lambda>_. 0)) 0 [])))"
  by (rule cfg_tables_typed) (rule start_typed)

section \<open>Kernel parameters\<close>

lemma table_lookup_typed: "list_all entry_typed t \<Longrightarrow> cfg_get_strg_i t item = Some v \<Longrightarrow> length v < MAX_TOKEN"
  by (induction t) (auto simp: entry_typed_def split: if_splits option.splits)

lemma find_image_in: "cfg_find_image nul0 img ts = Some t \<Longrightarrow> t \<in> set ts"
  by (induction ts) (auto split: if_splits)

lemma lookup_typed:
  assumes "cfg_typed s" and "cfg_get_strg nul0 s img item = Some v"
  shows "length v < MAX_TOKEN"
proof -
  have o: "cfg_get_strg_i (cf_options s) item = Some v \<Longrightarrow> ?thesis"
    using assms(1) by (simp add: cfg_typed_def tables_typed_def table_typed_def table_lookup_typed [of "cf_options s" item v])
  show ?thesis
  proof (cases img)
    case None
    then show ?thesis using assms(2) o by (simp add: cfg_get_strg_def)
  next
    case (Some im)
    show ?thesis
    proof (cases "cfg_find_image nul0 im (images s)")
      case None
      then show ?thesis using assms(2) Some by (simp add: cfg_get_strg_def)
    next
      case t: (Some t)
      then have "t \<in> set (images s)" by (rule find_image_in)
      then have "list_all entry_typed t"
        using assms(1) by (simp add: cfg_typed_def tables_typed_def table_typed_def list_all_iff [of _ "images s"])
      then show ?thesis using assms(2) Some t o table_lookup_typed [of t item v]
        by (simp add: cfg_get_strg_def split: option.splits)
    qed
  qed
qed

lemma params_text_length:
  assumes "\<And>item v. get item = Some v \<Longrightarrow> length v < MAX_TOKEN"
  shows "length (params_text get params) \<le> 3 * MAX_TOKEN + 24 + length params"
proof -
  have "length (case get ''root'' of Some p \<Rightarrow> ''root='' @ p @ '' '' | None \<Rightarrow> []) \<le> MAX_TOKEN + 6"
    "length (case get ''ramdisk'' of Some p \<Rightarrow> ''ramdisk='' @ p @ '' '' | None \<Rightarrow> []) \<le> MAX_TOKEN + 9"
    "length (case get ''append'' of Some p \<Rightarrow> p @ '' '' | None \<Rightarrow> []) \<le> MAX_TOKEN + 1"
    using assms [of "''root''"] assms [of "''ramdisk''"] assms [of "''append''"]
    by (auto split: option.split intro: less_imp_le)
  then show ?thesis using assms [of "''literal''"] by (auto simp: params_text_def split: option.split)
qed

text \<open>Computations that only change the state.\<close>

definition succeeds :: "('w, 'e, unit) io \<Rightarrow> bool" where
  "succeeds m \<longleftrightarrow> (\<forall>w. \<exists>w'. m w = (Inr (), w'))"

lemma succeeds_modify: "succeeds (modify f)" "succeeds (modify_bi g)" "succeeds (bi_or b)" "succeeds (ret ())"
  by (simp_all add: succeeds_def ret_def modify_def modify_bi_def bi_or_def)

lemma succeeds_cond: "succeeds m \<Longrightarrow> succeeds (whenM c m)" "(\<And>y. succeeds (h y)) \<Longrightarrow> succeeds (on_some x h)"
  by (simp_all add: whenM_def on_some_def succeeds_modify(4) split: option.split)

lemma succeeds_bnd: "succeeds m \<Longrightarrow> (\<And>u. succeeds (k u)) \<Longrightarrow> succeeds (bnd m k)"
  unfolding succeeds_def
proof
  fix w
  assume "\<forall>w. \<exists>w'. m w = (Inr (), w')" and k: "\<And>u. \<forall>w. \<exists>w'. k u w = (Inr (), w')"
  then obtain w1 where "m w = (Inr (), w1)" by blast
  then have "bnd m k w = k () w1" by (rule bnd_Inr)
  then show "\<exists>w'. bnd m k w = (Inr (), w')" using k by simp
qed

text \<open>
  \<open>make_params\<close> stores the kernel's parameters without testing that they fit.  With well-typed
  tables, and typed parameters shorter than a line of the editor, text and NUL stay inside the
  buffer it allocates.
\<close>

lemma params_fit:
  assumes "cfg_typed (conf w)" and "length params < CMD_LENG"
  shows "\<exists>r w'. make_params label params w = (Inr r, w')
    \<and> (case r of None \<Rightarrow> True | Some t \<Rightarrow> length t + 1 \<le> unat PARAMS_SIZE)"
proof -
  have len: "length (params_text (conf_strg v (Some label)) params) + 1 \<le> unat PARAMS_SIZE" if "conf v = conf w" for v
    using params_text_length [of "conf_strg v (Some label)" params] lookup_typed assms that
    by (auto simp: conf_strg_def MAX_TOKEN_def CMD_LENG_def PARAMS_SIZE_def)
  let ?first = "\<lambda>w. if params_buf w = 0 then bnd (mallocM PARAMS_SIZE) (\<lambda>p. modify (\<lambda>w. w\<lparr>params_buf := p\<rparr>)) w
              else (Inr (), w)"
  obtain v where v: "?first w = (Inr (), v)" "conf v = conf w"
  proof (cases "params_buf w = 0")
    case True
    obtain p h where "malloc PARAMS_SIZE (mem w) = (p, h)" by fastforce
    then show thesis using True that [of "w\<lparr>mem := h, params_buf := p\<rparr>"] by (simp add: mallocM_def bnd_def modify_def)
  qed simp
  let ?get = "conf_strg v (Some label)"
  let ?m = "whenM (?get ''literal'' = None)
            (bnd (whenM (?get ''pause-after'' \<noteq> None) (bi_or PAUSE_BEFORE_BOOT)) (\<lambda>_.
             on_some (?get ''pause-message'') (\<lambda>p. modify_bi (\<lambda>b. b\<lparr>bi_pause_message := Some p\<rparr>))))"
  obtain v2 where m: "?m v = (Inr (), v2)"
  proof -
    have "succeeds ?m" by (intro succeeds_modify succeeds_cond succeeds_bnd)
    then show thesis using that unfolding succeeds_def by blast
  qed
  have "make_params label params w = (if params_buf v = 0 then (Inr None, v)
      else (Inr (Some (params_text ?get params)), v2))"
    using v(1) m by (simp add: make_params_def bnd_def Let_def ret_def)
  then show ?thesis using len [OF v(2)] by simp
qed

definition demo_linux :: "(u32 \<times> u32) list lmachine" where
  "demo_linux = emachine.extend (pmachine.extend (machine.extend (demo_machine []) \<lparr>the_part = part_zero\<rparr>)
     \<lparr>fs_root = None, fs_file = None, symlinknest = 0, indir1 = icache_none, indir2 = icache_none, inode_size = 128\<rparr>)
     \<lparr>conf = snd (cfg_parse None ''root=/dev/sda3 image=/vmlinux'' 30 (cfg_start (heap_start (\<lambda>_. 0)) 0 [])), cbuff = 0, params_buf = 0\<rparr>"

lemma demo_linux_typed: "cfg_typed (conf demo_linux)"
proof -
  have "cfg_typed (snd (cfg_loop ((cfg_start (heap_start (\<lambda>_. 0)) 0 [])\<lparr>file_name := None, inp := take 30 ''root=/dev/sda3 image=/vmlinux''\<rparr>)))"
    by (metis cfg_typed_input loop_typed prod.collapse start_typed)
  then show ?thesis by (simp add: demo_linux_def cfg_parse_def emachine.defs)
qed

end
