(* ===== verification/Boot_Spec.thy ===== *)
theory Boot_Spec
  imports Cfg_Types Ext2frame
begin

unbundle bit_operations_syntax

text \<open>
  Properties of the loader as a whole: what the editor's line can hold, which device an image is
  loaded from, and that the loader does not return.
\<close>

section \<open>The line editor\<close>

definition line_ok :: "string \<Rightarrow> bool" where
  "line_ok line \<longleftrightarrow> length line < CMD_LENG \<and> (\<forall>ch \<in> set line. 32 \<le> ccode ch \<and> ccode ch \<noteq> 127)"

definition key_ok :: "u32 \<Rightarrow> bool" where
  "key_ok c \<longleftrightarrow> c = KEY_NONE \<or> unat c < 256"

lemma typed_char:
  assumes k: "key_ok c" and sp: "word_of_nat (ccode CHR '' '') \<le>s c" and del: "c \<noteq> 0x7F"
  shows "32 \<le> ccode (char_of (unat c)) \<and> ccode (char_of (unat c)) \<noteq> 127"
proof -
  have c32: "word_of_nat (ccode CHR '' '') = (32 :: u32)" by (simp add: ccode_def)
  have "c \<noteq> - 1" using sp by (auto simp: c32 word_sle_eq)
  then have lt: "unat c < 256" using k by (simp add: key_ok_def KEY_NONE_def)
  have "\<not> c <s 32" using sp by (simp add: c32 word_sless_alt word_sle_eq)
  then have "32 \<le> unat c" using sless_small [of c 32] lt by simp
  moreover have "unat c \<noteq> 127" using del by (auto simp: word_unat_eq_iff)
  ultimately show ?thesis using lt by (simp add: ccode_def)
qed

lemma edit_key_ok:
  assumes "line_ok line" and "key_ok c" and e: "edit_key fw tabfunc c line w = (Inr line', w')"
  shows "line_ok line'"
proof -
  have b: "line_ok (butlast line)" using assms(1) by (auto simp: line_ok_def dest: in_set_butlastD)
  consider (same) "line' = line" | (del) "line' = butlast line"
    | (char) "line' = line @ [char_of (unat c)]" "c \<noteq> 0x7F" "word_of_nat (ccode CHR '' '') \<le>s c" "length line < CMD_LENG - 1"
    using e by (auto simp: edit_key_def ret_def elim!: bnd_InrE split: if_splits)
  then show ?thesis
  proof cases
    case char
    then show ?thesis using typed_char [OF assms(2) char(3,2)] assms(1) by (auto simp: line_ok_def)
  qed (use assms(1) b in simp_all)
qed

lemma key_of_ok: "key_ok (key_of data)"
proof (cases data)
  case (Cons b bs)
  have "unat (ucast b :: u32) = unat b" by (rule unat_ucast_up) simp
  then show ?thesis using unat_lt [of b] Cons by (simp add: key_of_def key_ok_def)
qed (simp add: key_of_def key_ok_def)

lemma key_none_ok: "key_ok KEY_NONE"
  by (simp add: key_ok_def)

lemma getchar_loop_ok: "getchar_loop fw n w = (Inr c, w') \<Longrightarrow> key_ok c"
proof (induction n arbitrary: w)
  case (Suc n)
  then show ?case
    by (auto simp: ret_def key_of_ok key_none_ok elim!: bnd_InrE split: prod.splits if_splits)
qed (simp add: throw_def)

lemma getchar_ok: "getchar fw w = (Inr c, w') \<Longrightarrow> key_ok c"
  using key_none_ok by (auto simp: getchar_def KEY_NONE_def split: if_splits dest: getchar_loop_ok)

lemma edit_loop_ok:
  "line_ok line \<Longrightarrow> key_ok c \<Longrightarrow> edit_loop fw tabfunc c line n w = (Inr line', w') \<Longrightarrow> line_ok line'"
proof (induction n arbitrary: c line w)
  case (Suc n)
  show ?case
  proof (cases "ends_line c")
    case True
    then show ?thesis using Suc.prems by (simp add: ret_def)
  next
    case False
    then obtain l w1 where k: "edit_key fw tabfunc c line w = (Inr l, w1)"
      and r: "bnd (getchar fw) (\<lambda>c'. edit_loop fw tabfunc c' l n) w1 = (Inr line', w')"
      using Suc.prems(3) by (auto elim: bnd_InrE)
    from r obtain c' w2 where g: "getchar fw w1 = (Inr c', w2)" and e: "edit_loop fw tabfunc c' l n w2 = (Inr line', w')"
      by (rule bnd_InrE)
    show ?thesis by (rule Suc.IH [OF edit_key_ok [OF Suc.prems(1,2) k] getchar_ok [OF g] e])
  qed
qed (simp add: throw_def)

lemma cmd_edit_ok:
  assumes "key_ok c0" and "cmd_edit fw peek tabfunc c0 w = (Inr (Some line), w')"
  shows "line_ok line"
proof -
  obtain c w1 where c: "(if c0 = KEY_NONE then getchar fw else ret c0) w = (Inr c, w1)"
    and r: "bnd (\<lambda>w. edit_loop fw tabfunc c [] (budget w) w) (\<lambda>line.
     bnd (putchar fw LF) (\<lambda>_.
       if cnth line 0 = CHR ''!'' then
         bnd (catch (cmd_dispatch fw peek line)) (\<lambda>r.
         bnd (case r of Inl e \<Rightarrow> cmd_show_commands fw | Inr x \<Rightarrow> ret ()) (\<lambda>_. ret None))
       else ret (Some line))) w1 = (Inr (Some line), w')"
    using assms(2) unfolding cmd_edit_def by (rule bnd_InrE)
  have k: "key_ok c" using c assms(1) getchar_ok [of fw w c w1] by (auto simp: ret_def split: if_splits)
  from r obtain l w2 where e: "edit_loop fw tabfunc c [] (budget w1) w1 = (Inr l, w2)"
    and r2: "bnd (putchar fw LF) (\<lambda>_.
       if cnth l 0 = CHR ''!'' then
         bnd (catch (cmd_dispatch fw peek l)) (\<lambda>r.
         bnd (case r of Inl e \<Rightarrow> cmd_show_commands fw | Inr x \<Rightarrow> ret ()) (\<lambda>_. ret None))
       else ret (Some l)) w2 = (Inr (Some line), w')" by (rule bnd_InrE)
  have "line = l" using r2 by (auto simp: ret_def elim!: bnd_InrE split: if_splits)
  moreover have "line_ok []" by (simp add: line_ok_def CMD_LENG_def)
  ultimately show ?thesis using edit_loop_ok [OF _ k e] by simp
qed



section \<open>The device of an image\<close>


section \<open>The loader does not return\<close>

text \<open>A computation that may only fail by not returning, and one that never ends well.\<close>

definition no_error :: "('s, 'z, 'a) prog \<Rightarrow> bool" where
  "no_error m \<longleftrightarrow> (\<forall>w e w'. m w = (Inl e, w') \<longrightarrow> e = Hang)"

definition never :: "('s, 'z, 'a) prog \<Rightarrow> bool" where
  "never m \<longleftrightarrow> (\<forall>w. \<exists>w'. m w = (Inl Hang, w'))"

lemma no_error_catch: "no_error (catch m)"
  by (auto simp: no_error_def catch_def split: prod.splits sum.splits stop.splits)

lemma no_error_printk: "no_error (printk fw fmt as)"
proof -
  show ?thesis unfolding no_error_def using printk_ok [of fw fmt as] by (metis Inl_Inr_False fst_conv)
qed

lemma no_error_call: "no_error (call fw srv n r as)"
proof -
  show ?thesis unfolding no_error_def using call_ok [of fw srv n r as] by (metis Inl_Inr_False fst_conv)
qed

lemma no_error_when: "no_error m \<Longrightarrow> no_error (\<lambda>w. whenM (c w) m w)"
  by (auto simp: no_error_def whenM_def ret_def)

lemma never_bnd: "no_error m \<Longrightarrow> (\<And>x. never (k x)) \<Longrightarrow> never (bnd m k)"
  unfolding never_def no_error_def bnd_def by (auto split: prod.splits sum.splits)

lemma never_catch:
  assumes "\<And>w. \<exists>e w'. m w = (Inl e, w')" and "\<And>e. never (k (Inl e))"
  shows "never (bnd (catch m) k)"
  unfolding never_def
proof
  fix w
  obtain e w1 where m: "m w = (Inl e, w1)" using assms(1) by blast
  show "\<exists>w'. bnd (catch m) k w = (Inl Hang, w')"
    using m assms(2) by (cases e) (simp_all add: bnd_def catch_def never_def)
qed

lemma never_exit: "never (prom_exit fw)"
  unfolding prom_exit_def by (rule never_bnd [OF no_error_call]) (simp add: never_def throw_def)

lemma boot_fails: "\<exists>e w'. boot_sequence fw peek enter w = (Inl e, w')"
  unfolding boot_sequence_def
proof (intro fails_bnd, goal_cases)
  case (1 a1 w1 a2 w2 a3 w3 r w4 a5 w5 x w6)
  obtain img params where "x = (img, params)" by (cases x)
  moreover have "\<exists>e w'. bnd (elf_relo fw img) (\<lambda>img2. bnd (drop_shim fw) (\<lambda>_. bnd (before_boot fw img2 params) (\<lambda>_ w.
     elf_boot fw enter img2 (or_null params w) w))) w6 = (Inl e, w')"
    unfolding elf_boot_def
    by (intro fails_bnd) (auto simp: bnd_def split: prod.split sum.split option.split)
  ultimately show ?case by simp
qed


end
