(* ===== verification/Choice_Spec.thy ===== *)
theory Choice_Spec
  imports Cfg_Types Boot_Spec
begin

unbundle bit_operations_syntax

text \<open>
  The choice of an image from the boot arguments: how the environment, the configuration and the
  prompt work together.
\<close>

section \<open>The steps of the choice\<close>

lemma auto_choice_named:
  assumes "\<not> flag_set (bi_flags (bi w)) TRIED_AUTO" and "word_split (bi_bootargs (bi w)) = (Some k, ps)"
  shows "auto_choice p w = (Inr (Some k, Some ps, 0), w\<lparr>bi := (bi w)\<lparr>bi_flags := bi_flags (bi w) XOR TRIED_AUTO\<rparr>\<rparr>)"
  using assms by (simp add: auto_choice_def modify_bi_def modify_def bnd_def ret_def)

lemma wait_no_time:
  fixes fw :: "'s firmware" and w :: "('s, 'z) machine_scheme"
  shows "\<exists>s'. wait_for_key fw 0 k w = (Inr k, w\<lparr>fws := s'\<rparr>)"
proof -
  obtain x s' where "call fw ''milliseconds'' 0 1 [] w = (Inr x, w\<lparr>fws := s'\<rparr>)"
    using call_ok [of fw "''milliseconds''" 0 1 "[]" w] by auto
  then have "wait_for_key fw 0 k w = (Inr k, w\<lparr>fws := s'\<rparr>)"
    by (simp add: wait_for_key_def get_ms_def bnd_def ret_def)
  then show ?thesis by (intro exI)
qed

lemma printk_then:
  fixes fw :: "'s firmware" and w :: "('s, 'z) machine_scheme"
  shows "\<exists>s'. bnd (printk fw fmt as) k w = k () (w\<lparr>fws := s'\<rparr>)"
  using printk_ok [of fw fmt as w] by (auto simp: bnd_def)

lemma when_printk_then:
  fixes fw :: "'s firmware" and w :: "('s, 'z) machine_scheme"
  shows "\<exists>s'. bnd (whenM c (printk fw fmt as)) k w = k () (w\<lparr>fws := s'\<rparr>)"
proof (cases c)
  case False
  then have "bnd (whenM c (printk fw fmt as)) k w = k () (w\<lparr>fws := fws w\<rparr>)" by (simp add: whenM_def bnd_def ret_def)
  then show ?thesis by (intro exI)
qed (use printk_then [of fw fmt as k w] in \<open>simp add: whenM_def\<close>)

lemma prompt_choice_now:
  fixes fw :: "'s firmware" and w :: "('s, 'z) lmachine_scheme"
  shows "\<exists>s'. prompt_choice fw peek k ps 0 w = (Inr (k, ps), w\<lparr>fws := s'\<rparr>)"
proof -
  let ?LF = "word_of_nat (ccode LF) :: u32"
  let ?fin = "\<lambda>_. bnd (printk fw [LF] []) (\<lambda>_. ret (k, ps))"
  let ?say = "\<lambda>_. bnd (whenM (ps \<noteq> None) (printk fw '' %s'' [Va_s ps])) ?fin"
  obtain s1 where 1: "printk fw PROMPT [] w = (Inr (), w\<lparr>fws := s1\<rparr>)" using printk_ok [of fw PROMPT "[]" w] by auto
  obtain s2 where 2: "wait_for_key fw 0 ?LF (w\<lparr>fws := s1\<rparr>) = (Inr ?LF, w\<lparr>fws := s2\<rparr>)"
    using wait_no_time [of fw ?LF "w\<lparr>fws := s1\<rparr>"] by auto
  have "prompt_choice fw peek k ps 0 w = bnd (printk fw ''%s'' [Va_s k]) ?say (w\<lparr>fws := s2\<rparr>)"
    unfolding prompt_choice_def bnd_Inr [where m = "printk fw PROMPT []" and w = w, OF 1]
    by (simp add: bnd_Inr [where m = "wait_for_key fw 0 ?LF" and w = "w\<lparr>fws := s1\<rparr>", OF 2] is_code_def)
  then obtain s3 where "prompt_choice fw peek k ps 0 w = ?say () (w\<lparr>fws := s3\<rparr>)"
    using printk_then [of fw "''%s''" "[Va_s k]" ?say "w\<lparr>fws := s2\<rparr>"] by auto
  then obtain s4 where "prompt_choice fw peek k ps 0 w = ?fin () (w\<lparr>fws := s4\<rparr>)"
    using when_printk_then [of "ps \<noteq> None" fw "'' %s''" "[Va_s ps]" ?fin "w\<lparr>fws := s3\<rparr>"] by auto
  then obtain s5 where "prompt_choice fw peek k ps 0 w = ret (k, ps) (w\<lparr>fws := s5\<rparr>)"
    using printk_then [of fw "[LF]" "[]" "\<lambda>_. ret (k, ps)" "w\<lparr>fws := s4\<rparr>"] by auto
  then show ?thesis by (auto simp: ret_def)
qed

lemma flag_bits: "flag_set x CONFIG_VALID = bit x 1" "flag_set x PAUSE_BEFORE_BOOT = bit x 2"
  "flag_set x TRIED_AUTO = bit x 4" "flag_set x BOOT_PRE_2_4 = bit x 5"
proof -
  have "flag_set x (2 ^ n) = bit x n" for n by (simp add: flag_set_def and_exp_eq_0_iff_not_bit)
  from this [of 1] this [of 2] this [of 4] this [of 5]
  show "flag_set x CONFIG_VALID = bit x 1" "flag_set x PAUSE_BEFORE_BOOT = bit x 2"
    "flag_set x TRIED_AUTO = bit x 4" "flag_set x BOOT_PRE_2_4 = bit x 5"
    by (simp_all add: flag_defs)
qed

lemma bits_of_flags:
  "bit CONFIG_VALID n = (n = 1)" "bit PAUSE_BEFORE_BOOT n = (n = 2)" "bit TRIED_AUTO n = (n = 4)" "bit BOOT_PRE_2_4 n = (n = 5)"
proof -
  have "bit (2 ^ k :: u32) n = (n = k)" if "k < 32" for k using that by (auto simp: bit_exp_iff)
  from this [of 1] this [of 2] this [of 4] this [of 5]
  show "bit CONFIG_VALID n = (n = 1)" "bit PAUSE_BEFORE_BOOT n = (n = 2)" "bit TRIED_AUTO n = (n = 4)" "bit BOOT_PRE_2_4 n = (n = 5)"
    by (simp_all add: flag_defs)
qed

lemmas flag_other = flag_bits bits_of_flags bit_or_iff bit_and_iff bit_xor_iff bit_not_iff

definition room_for_params :: "('s, 'z) lmachine_scheme \<Rightarrow> bool" where
  "room_for_params w \<longleftrightarrow> params_buf w \<noteq> 0 \<or> fst (malloc PARAMS_SIZE (mem w)) \<noteq> 0"

lemma make_params_text:
  assumes "room_for_params w"
  shows "\<exists>w'. make_params lab ps w = (Inr (Some (params_text (conf_strg w (Some lab)) ps)), w')
    \<and> (\<forall>m \<in> {BOOT_PRE_2_4, TRIED_AUTO}. flag_set (bi_flags (bi w')) m = flag_set (bi_flags (bi w)) m)"
proof -
  let ?get = "conf_strg w (Some lab)"
  let ?buf = "if params_buf w = 0 then bnd (mallocM PARAMS_SIZE) (\<lambda>p. modify (\<lambda>w. w\<lparr>params_buf := p\<rparr>)) w else (Inr (), w)"
  obtain p h where "malloc PARAMS_SIZE (mem w) = (p, h)" by fastforce
  then have "?buf = (Inr (), if params_buf w = 0 then w\<lparr>mem := h, params_buf := p\<rparr> else w)" "params_buf w = 0 \<Longrightarrow> p \<noteq> 0"
    using assms by (auto simp: room_for_params_def mallocM_def bnd_def modify_def)
  then obtain v where v: "(if params_buf w = 0 then bnd (mallocM PARAMS_SIZE) (\<lambda>p. modify (\<lambda>w. w\<lparr>params_buf := p\<rparr>)) w
              else (Inr (), w)) = (Inr (), v)" "params_buf v \<noteq> 0" "conf v = conf w" "junk v = junk w" "bi v = bi w"
    by (cases "params_buf w = 0") auto
  then have get: "conf_strg v (Some lab) = ?get" by (simp add: conf_strg_def fun_eq_iff)
  have m: "make_params lab ps w = bnd (whenM (?get ''literal'' = None)
            (bnd (whenM (?get ''pause-after'' \<noteq> None) (bi_or PAUSE_BEFORE_BOOT)) (\<lambda>_.
             on_some (?get ''pause-message'') (\<lambda>p. modify_bi (\<lambda>b. b\<lparr>bi_pause_message := Some p\<rparr>)))))
          (\<lambda>_. ret (Some (params_text ?get ps))) v"
    unfolding make_params_def by (subst bnd_Inr [where w = w and x = "()" and w' = v]) (use v(1) in simp, simp add: v(2) get Let_def)
  show ?thesis unfolding m
    by (cases "?get ''literal''"; cases "?get ''pause-after''"; cases "?get ''pause-message''")
      (simp_all add: whenM_def on_some_def bnd_def ret_def bi_or_def modify_def modify_bi_def v(5) flag_other)
qed

section \<open>The image that is chosen\<close>

text \<open>What a lookup in a section gives: the section's own setting or else the global one.\<close>

definition image_option :: "entry list \<Rightarrow> csection \<Rightarrow> string \<Rightarrow> string option" where
  "image_option gs sec item =
     (case section_get sec item of Some v \<Rightarrow> Some v | None \<Rightarrow> global_get gs item)"

text \<open>
  The parser's tables after a configuration whose globals are \<open>gs\<close> and whose first section named
  \<open>lab\<close> is \<open>sec\<close>.
\<close>

definition configured :: "entry list \<Rightarrow> csection list \<Rightarrow> string \<Rightarrow> csection \<Rightarrow> ('s, 'z) lmachine_scheme \<Rightarrow> bool" where
  "configured gs secs lab sec w \<longleftrightarrow> config_ok gs secs
     \<and> (\<exists>pre post. secs = pre @ sec # post \<and> list_all (\<lambda>c. \<not> section_named lab c) pre \<and> section_named lab sec)
     \<and> (\<exists>h f bits old. roomy (cost (config_entries gs secs)) h
          \<and> conf w = snd (cfg_parse f (render (config_entries gs secs)) (length (render (config_entries gs secs))) (cfg_start h bits old)))"

lemma configured_lookup:
  assumes "configured gs secs lab sec w"
  shows "conf_strg w (Some lab) = image_option gs sec" and "conf_strg w None = global_get gs"
    and "image_option gs sec ''image'' = Some (fst sec)"
proof -
  obtain pre post h f bits old where c: "config_ok gs secs" "secs = pre @ sec # post"
      "list_all (\<lambda>c. \<not> section_named lab c) pre" "section_named lab sec" "roomy (cost (config_entries gs secs)) h"
    and cf: "conf w = snd (cfg_parse f (render (config_entries gs secs)) (length (render (config_entries gs secs))) (cfg_start h bits old))"
    using assms unfolding configured_def by blast
  obtain s' where s: "conf w = s'" "\<forall>m. cfg_get_strg_i (cf_options s') m = global_get gs m"
      "list_all2 (\<lambda>sec t. \<forall>m. cfg_get_strg_i t m = section_get sec m) secs (images s')"
    using config_parse [OF c(1,5), of f bits old] cf by auto
  have ok: "list_all (\<lambda>sec. settings_ok cf_image0 (snd sec)) secs" using c(1) by (auto simp: config_ok_def list_all_iff)
  then obtain t where "cfg_find_image (jk_nulstr (junk w)) lab (images s') = Some t" "\<forall>m. cfg_get_strg_i t m = section_get sec m"
    using find_image_section s(3) c(2-4) by blast
  then show "conf_strg w (Some lab) = image_option gs sec" "conf_strg w None = global_get gs"
    using s(1,2) by (auto simp: conf_strg_def cfg_get_strg_def image_option_def fun_eq_iff split: option.split)
  show "image_option gs sec ''image'' = Some (fst sec)"
    using section_get_image [of sec] ok c(2) by (simp add: image_option_def)
qed

lemma from_config_image:
  fixes w :: "('s, 'z) lmachine_scheme"
  assumes "configured gs secs lab sec w" and "flag_set (bi_flags (bi w)) CONFIG_VALID" and "fst sec \<noteq> []"
    and "room_for_params w"
  shows "\<exists>w'. from_config (Some lab) (Some ps) dev w
      = (Inr \<lparr>ch_kernel = Some (fst sec), ch_initrd = image_option gs sec ''initrd'',
           ch_params = Some (params_text (image_option gs sec) ps), ch_dev = image_dev (image_option gs sec) dev,
           ch_label = Some lab\<rparr>, w')
    \<and> flag_set (bi_flags (bi w')) BOOT_PRE_2_4 = (image_option gs sec ''old-kernel'' \<noteq> None)
    \<and> flag_set (bi_flags (bi w')) TRIED_AUTO = flag_set (bi_flags (bi w)) TRIED_AUTO"
proof -
  note look = configured_lookup [OF assms(1)]
  let ?get = "image_option gs sec"
  let ?old = "\<lambda>x. if ?get ''old-kernel'' \<noteq> None then x OR BOOT_PRE_2_4 else x AND NOT BOOT_PRE_2_4"
  let ?v = "w\<lparr>bi := (bi w)\<lparr>bi_flags := ?old (bi_flags (bi w))\<rparr>\<rparr>"
  have v: "conf_strg ?v = conf_strg w" "room_for_params ?v"
    using assms(4) by (simp_all add: conf_strg_def fun_eq_iff room_for_params_def)
  obtain w' where m: "make_params lab ps ?v = (Inr (Some (params_text ?get ps)), w')"
      "\<forall>m \<in> {BOOT_PRE_2_4, TRIED_AUTO}. flag_set (bi_flags (bi w')) m = flag_set (bi_flags (bi ?v)) m"
    using make_params_text [OF v(2), of lab ps] look(1) v(1) by auto
  have "(case ?get ''initrd'' of Some i \<Rightarrow> Some i | None \<Rightarrow> global_get gs ''initrd'') = ?get ''initrd''"
    by (simp add: image_option_def split: option.split)
  moreover have "modify_bi (\<lambda>b. b\<lparr>bi_flags := ?old (bi_flags b)\<rparr>) w = (Inr (), ?v)"
    by (simp add: modify_bi_def modify_def)
  ultimately have "from_config (Some lab) (Some ps) dev w
      = (Inr \<lparr>ch_kernel = Some (fst sec), ch_initrd = ?get ''initrd'',
           ch_params = Some (params_text ?get ps), ch_dev = image_dev ?get dev, ch_label = Some lab\<rparr>, w')"
    using assms(2,3) m(1) by (simp add: from_config_def Let_def look bnd_def ret_def or_null_def)
  moreover have "flag_set (bi_flags (bi w')) BOOT_PRE_2_4 = (?get ''old-kernel'' \<noteq> None)"
      "flag_set (bi_flags (bi w')) TRIED_AUTO = flag_set (bi_flags (bi w)) TRIED_AUTO"
    using m(2) by (simp_all add: flag_other)
  ultimately show ?thesis by blast
qed

text \<open>
  Property C4: booting by name.  Where the boot arguments begin with the name of a section of the
  configuration, the first round of the prompt neither waits nor asks: the image is the
  section's, its options are the section's or else the global ones, the rest of the boot
  arguments follow the parameters that the configuration gives, the flag for an old kernel is
  set or cleared as the configuration says, and the next round will ask.
\<close>

theorem boot_by_name:
  fixes w :: "('s, 'z) lmachine_scheme"
  assumes "configured gs secs lab sec w" and "fst sec \<noteq> []" and "flag_set (bi_flags (bi w)) CONFIG_VALID"
    and "\<not> flag_set (bi_flags (bi w)) TRIED_AUTO" and "room_for_params w"
    and "bi_bootargs (bi w) = Some (lab @ rest)" and "lab \<noteq> []" and "CHR '' '' \<notin> set lab"
    and "rest = [] \<or> hd rest = CHR '' ''"
  shows "\<exists>w'. get_params fw peek params0 dev w
      = (Inr \<lparr>ch_kernel = Some (fst sec), ch_initrd = image_option gs sec ''initrd'',
           ch_params = Some (params_text (image_option gs sec) (chomp rest)),
           ch_dev = image_dev (image_option gs sec) dev, ch_label = Some lab\<rparr>, w')
    \<and> flag_set (bi_flags (bi w')) BOOT_PRE_2_4 = (image_option gs sec ''old-kernel'' \<noteq> None)
    \<and> flag_set (bi_flags (bi w')) TRIED_AUTO"
proof -
  let ?v = "w\<lparr>bi := (bi w)\<lparr>bi_flags := bi_flags (bi w) XOR TRIED_AUTO\<rparr>\<rparr>"
  have "word_split (bi_bootargs (bi w)) = (Some lab, chomp rest)"
    using word_split_word [of lab rest 0] assms(6-9) by simp
  note auto = auto_choice_named [OF assms(4) this]
  obtain s where prompt: "prompt_choice fw peek (Some lab) (Some (chomp rest)) 0 ?v = (Inr (Some lab, Some (chomp rest)), ?v\<lparr>fws := s\<rparr>)"
    using prompt_choice_now [of fw peek "Some lab" "Some (chomp rest)" ?v] by auto
  have "configured gs secs lab sec (?v\<lparr>fws := s\<rparr>)" "room_for_params (?v\<lparr>fws := s\<rparr>)"
      "flag_set (bi_flags (bi (?v\<lparr>fws := s\<rparr>))) CONFIG_VALID"
    using assms(1,3,5) by (simp_all add: configured_def room_for_params_def flag_other)
  from from_config_image [OF this(1,3) assms(2) this(2), of "chomp rest" dev] obtain w' where
      "from_config (Some lab) (Some (chomp rest)) dev (?v\<lparr>fws := s\<rparr>)
      = (Inr \<lparr>ch_kernel = Some (fst sec), ch_initrd = image_option gs sec ''initrd'',
           ch_params = Some (params_text (image_option gs sec) (chomp rest)), ch_dev = image_dev (image_option gs sec) dev,
           ch_label = Some lab\<rparr>, w')"
    and f: "flag_set (bi_flags (bi w')) BOOT_PRE_2_4 = (image_option gs sec ''old-kernel'' \<noteq> None)"
      "flag_set (bi_flags (bi w')) TRIED_AUTO = flag_set (bi_flags (bi w) XOR TRIED_AUTO) TRIED_AUTO"
    by auto
  then have "get_params fw peek params0 dev w
      = (Inr \<lparr>ch_kernel = Some (fst sec), ch_initrd = image_option gs sec ''initrd'',
           ch_params = Some (params_text (image_option gs sec) (chomp rest)), ch_dev = image_dev (image_option gs sec) dev,
           ch_label = Some lab\<rparr>, w')"
    using auto prompt by (simp add: get_params_def bnd_def ret_def split_initrd_def)
  then show ?thesis using f assms(4) by (auto simp: flag_other)
qed

text \<open>The small configuration with two images, and boot arguments that name the second one.\<close>

definition demo_configured :: "(u32 \<times> u32) list lmachine" where
  "demo_configured = demo_linux\<lparr>conf := snd (cfg_parse None (render (config_entries demo_globals demo_sections))
         (length (render (config_entries demo_globals demo_sections))) (cfg_start (heap_start (\<lambda>_. 0)) 0 [])),
     params_buf := 0x500004, bi := (bi demo_linux)\<lparr>bi_flags := CONFIG_VALID, bi_bootargs := Some ''old single''\<rparr>\<rparr>"

theorem boot_by_name_witness:
  "\<exists>w'. get_params demo_firmware (\<lambda>_ _. 0) None env_dev_zero demo_configured
      = (Inr \<lparr>ch_kernel = Some ''/boot/old'', ch_initrd = None, ch_params = Some ''root=/dev/sda3 ro debug single'',
           ch_dev = env_dev_zero, ch_label = Some ''old''\<rparr>, w')
    \<and> \<not> flag_set (bi_flags (bi w')) BOOT_PRE_2_4 \<and> flag_set (bi_flags (bi w')) TRIED_AUTO"
proof -
  let ?sec = "(''/boot/old'', [(''append'', Some ''debug'')])"
  have pre: "list_all (\<lambda>c. \<not> section_named ''old'' c) [(''/vmlinux'', [(''label'', Some ''linux''), (''Root'', Some ''/dev/sda4'')])]"
    by (simp add: section_named_def section_label_def section_get_def section_entries_def same_name_def
        cf_image0_def strg_def flg_def strcasecmp_eq_0_iff fold_case_def tolower_def ccode_def)
  moreover have "section_named ''old'' ?sec"
    by (simp add: section_named_def section_label_def section_get_def section_entries_def same_name_def
        cf_image0_def strg_def flg_def strcasecmp_eq_0_iff fold_case_def tolower_def ccode_def after_slash_def)
  moreover have "demo_sections = [(''/vmlinux'', [(''label'', Some ''linux''), (''Root'', Some ''/dev/sda4'')])] @ ?sec # []"
    by (simp add: demo_sections_def)
  moreover have "conf demo_configured = snd (cfg_parse None (render (config_entries demo_globals demo_sections))
         (length (render (config_entries demo_globals demo_sections))) (cfg_start (heap_start (\<lambda>_. 0)) 0 []))"
    by (simp add: demo_configured_def)
  ultimately have c: "configured demo_globals demo_sections ''old'' ?sec demo_configured"
    using demo_config_ok demo_config_roomy unfolding configured_def by blast
  have get: "image_option demo_globals ?sec = (\<lambda>item. case section_get ?sec item of Some v \<Rightarrow> Some v | None \<Rightarrow> global_get demo_globals item)"
    by (simp add: image_option_def fun_eq_iff)
  have opts: "image_option demo_globals ?sec ''initrd'' = None" "image_option demo_globals ?sec ''old-kernel'' = None"
    "image_dev (image_option demo_globals ?sec) env_dev_zero = env_dev_zero"
    "params_text (image_option demo_globals ?sec) ''single'' = ''root=/dev/sda3 ro debug single''"
    by (simp_all add: image_option_def section_get_def global_get_def section_entries_def same_name_def demo_globals_def
        params_text_def image_dev_def cf_image0_def cf_options0_def strg_def flg_def strcasecmp_eq_0_iff fold_case_def tolower_def ccode_def)
  have "fst ?sec \<noteq> []" "flag_set (bi_flags (bi demo_configured)) CONFIG_VALID"
    "\<not> flag_set (bi_flags (bi demo_configured)) TRIED_AUTO" "room_for_params demo_configured"
    "bi_bootargs (bi demo_configured) = Some (''old'' @ '' single'')" "''old'' \<noteq> []" "CHR '' '' \<notin> set ''old''"
    "'' single'' = [] \<or> hd '' single'' = CHR '' ''"
    by (simp_all add: demo_configured_def flag_set_def flag_defs room_for_params_def)
  note b = boot_by_name [OF c this, of demo_firmware "\<lambda>_ _. 0" None env_dev_zero]
  show ?thesis using b by (simp add: opts)
qed

end
