(* ===== verification/Prompt_Spec.thy ===== *)
theory Prompt_Spec
  imports Choice_Spec Ext2frame
begin

unbundle bit_operations_syntax

text \<open>
  The rounds of the prompt: what every command and every attempt to load a kernel leaves alone,
  and what therefore holds in each round, however many there were before.
\<close>

section \<open>What a round leaves alone\<close>

text \<open>
  A predicate that looks at the parser's tables, the boot arguments and whether a volume is
  flagged as mounted, and at nothing else that a round can change.
\<close>

locale round_frame = nav_frame P + mount_frame P for P :: "('s, 'z) lmachine_scheme \<Rightarrow> bool" +
  assumes P_file [simp]: "P (w\<lparr>fs_file := x\<rparr>) = P w"
    and P_bi: "bi_bootargs b = bi_bootargs (bi w) \<Longrightarrow> P (w\<lparr>bi := b\<rparr>) = P w"
    and P_flags [simp]: "P (w\<lparr>prom_flags := y\<rparr>) = P w"
    and P_shim [simp]: "P (w\<lparr>shim_cpu := y\<rparr>) = P w" "P (w\<lparr>shim_cpu_count := y\<rparr>) = P w" "P (w\<lparr>shim_mediabay_ata := y\<rparr>) = P w"
    and P_handles [simp]: "P (w\<lparr>prom_mmu := y\<rparr>) = P w" "P (w\<lparr>prom_memory := y\<rparr>) = P w"
    and P_params_buf [simp]: "P (w\<lparr>params_buf := y\<rparr>) = P w"
begin

lemma step_call [frame]: "P w \<Longrightarrow> P (snd (call fw srv n r as w))" "P w \<Longrightarrow> P (snd (call_prom fw srv n r as w))"
  by (simp_all add: step_fw)

lemma step_putchar [frame]: "P w \<Longrightarrow> P (snd (putchar fw c w))" "P w \<Longrightarrow> P (snd (putchars fw cs w))"
  by (simp_all add: step_fw)

lemma step_write_out [frame]: "P w \<Longrightarrow> P (snd (write_out fw cs w))"
  unfolding write_out_def by (rule frame)

lemma step_prom_print [frame]: "P w \<Longrightarrow> P (snd (prom_print fw s w))"
proof (induction fw s arbitrary: w rule: prom_print.induct)
  case (1 fw msg)
  show ?case unfolding prom_print.simps [of fw msg] Let_def using 1(2) by - (assumption | rule frame 1(1) refl)+
qed

lemma step_modify_bi [frame]: "P w \<Longrightarrow> (\<And>b. bi_bootargs (f b) = bi_bootargs b) \<Longrightarrow> P (snd (modify_bi f w))"
  by (simp add: modify_bi_def modify_def P_bi)

lemma step_bi_or [frame]: "P w \<Longrightarrow> P (snd (bi_or m w))"
  by (simp add: bi_or_def modify_def P_bi)

lemma step_prom_or [frame]: "P w \<Longrightarrow> P (snd (prom_or m w))"
  by (simp add: prom_or_def modify_def)

lemma step_when [frame]: "(c \<Longrightarrow> P (snd (m w))) \<Longrightarrow> P w \<Longrightarrow> P (snd (whenM c m w))"
  by (simp add: whenM_def ret_def)

lemma step_on_some [frame]: "(\<And>y. P (snd (f y w))) \<Longrightarrow> P w \<Longrightarrow> P (snd (on_some x f w))"
  by (simp add: on_some_def ret_def split: option.split)

lemma step_read_key [frame]: "P w \<Longrightarrow> P (snd (read_key fw w))"
  unfolding read_key_def by (rule frame)

lemma step_getchar_loop: "P w \<Longrightarrow> P (snd (getchar_loop fw n w))"
proof (induction n arbitrary: w)
  case (Suc n)
  show ?case unfolding getchar_loop.simps using Suc.prems by - (assumption | rule frame Suc.IH)+
qed (simp add: throw_def)

lemma step_keys [frame]: "P w \<Longrightarrow> P (snd (getchar fw w))" "P w \<Longrightarrow> P (snd (nbgetchar fw w))" "P w \<Longrightarrow> P (snd (get_ms fw w))"
  unfolding getchar_def nbgetchar_def get_ms_def by (assumption | rule frame step_getchar_loop)+

lemma step_wait_loop: "P w \<Longrightarrow> P (snd (wait_loop fw until n w))"
proof (induction n arbitrary: w)
  case (Suc n)
  show ?case unfolding wait_loop.simps using Suc.prems by - (assumption | rule frame Suc.IH)+
qed (simp add: throw_def)

lemma step_wait [frame]: "P w \<Longrightarrow> P (snd (wait_for_key fw t k w))"
  unfolding wait_for_key_def by (assumption | rule frame step_wait_loop)+

lemma step_table [frame]: "P w \<Longrightarrow> P (snd (table_print fw t s w))" "P w \<Longrightarrow> P (snd (table_print_end fw t w))"
  unfolding table_print_def table_print_end_def by (assumption | rule frame)+

lemma step_tables [frame]: "P w \<Longrightarrow> P (snd (table_prints fw t ss w))"
proof (induction ss arbitrary: t w)
  case (Cons s ss)
  show ?case unfolding table_prints.simps using Cons.prems by - (assumption | rule frame Cons.IH)+
qed (simp add: ret_def)

lemma step_prom_claim [frame]: "P w \<Longrightarrow> P (snd (prom_claim fw a n w))" "P w \<Longrightarrow> P (snd (prom_release fw a n w))"
  unfolding prom_claim_def prom_release_def by (assumption | rule frame)+

lemma step_claim_from: "P w \<Longrightarrow> P (snd (claim_from fw n a w))"
proof (induction fw n a arbitrary: w rule: claim_from.induct)
  case (1 fw n a)
  show ?case unfolding claim_from.simps [of fw n a] using 1(2) by - (assumption | rule frame 1(1))+
qed

lemma step_claim_pages: "P w \<Longrightarrow> P (snd (claim_pages fw stop a n w))"
proof (induction n arbitrary: a w)
  case (Suc n)
  show ?case unfolding claim_pages.simps using Suc.prems by - (assumption | rule frame Suc.IH)+
qed (simp add: throw_def)

lemma step_claims [frame]: "P w \<Longrightarrow> P (snd (prom_claim_chunk fw a n w))" "P w \<Longrightarrow> P (snd (prom_ensure_claimed fw a n w))"
  unfolding prom_claim_chunk_def prom_ensure_claimed_def by (assumption | rule step_claim_from step_claim_pages)+

lemma step_prom_pause [frame]: "P w \<Longrightarrow> P (snd (prom_pause fw m w))" "P w \<Longrightarrow> P (snd (prom_interpret fw s w))"
  unfolding prom_pause_def prom_interpret_def by (assumption | rule frame)+

section \<open>The commands\<close>

lemma step_if_flag [frame]: "P w \<Longrightarrow> (P w \<Longrightarrow> P (snd (m w))) \<Longrightarrow> P (snd (if_flag f m w))"
  by (simp add: if_flag_def)

lemma step_props [frame]: "P w \<Longrightarrow> P (snd (prom_getproplen fw nd nm w))" "P w \<Longrightarrow> P (snd (finddevice fw path w))"
    "P w \<Longrightarrow> P (snd (prom_getprop fw nd nm n w))"
  unfolding prom_getproplen_def finddevice_def prom_getprop_def by (assumption | rule frame)+

lemma step_flags [frame]: "P w \<Longrightarrow> P (snd (parse_prom_flags fw w))"
  unfolding parse_prom_flags_def flags_claim_def flags_smp_def flags_mediabay_def
  by (assumption | rule frame | simp)+

lemma step_cmd_prom_flags [frame]: "P w \<Longrightarrow> P (snd (cmd_prom_flags fw as w))"
  unfolding cmd_prom_flags_def by (assumption | rule frame | simp)+

lemma step_write_words: "P w \<Longrightarrow> P (snd (write_words fw stop a n w))"
proof (induction n arbitrary: a w)
  case (Suc n)
  have "P v \<Longrightarrow> P (snd (poke32 a x v))" for a x v by (simp add: poke32_def modify_def)
  then show ?case unfolding write_words.simps using Suc.prems by - (assumption | rule frame Suc.IH)+
qed (simp add: throw_def)

lemma step_read_words: "P w \<Longrightarrow> P (snd (read_words fw peek stop a n w))"
proof (induction n arbitrary: a w)
  case (Suc n)
  show ?case unfolding read_words.simps using Suc.prems by - (assumption | rule frame Suc.IH)+
qed (simp add: throw_def)

lemma step_memtest [frame]: "P w \<Longrightarrow> P (snd (memtest fw peek as w))"
  unfolding memtest_def Let_def by (assumption | rule frame step_write_words step_read_words)+

lemma step_show_command [frame]: "P w \<Longrightarrow> P (snd (cmd_show_command fw c w))" "P w \<Longrightarrow> P (snd (cmd_show_commands fw w))"
  unfolding cmd_show_command_def cmd_show_commands_def by (assumption | rule frame)+

lemma step_show_each [frame]: "P w \<Longrightarrow> P (snd (show_each fw cs w))"
proof (induction cs arbitrary: w)
  case (Cons c cs)
  show ?case unfolding show_each.simps using Cons.prems by - (assumption | rule frame Cons.IH)+
qed (simp add: ret_def)

lemma step_help [frame]: "P w \<Longrightarrow> P (snd (cmd_help fw as w))"
  unfolding cmd_help_def by (assumption | rule frame)+

lemma step_main_commands [frame]: "P w \<Longrightarrow> P (snd (cmd_debug w))" "P w \<Longrightarrow> P (snd (cmd_old_kernel fw w))"
    "P w \<Longrightarrow> P (snd (cmd_halt fw w))" "P w \<Longrightarrow> P (snd (cmd_of_interp fw as w))"
  unfolding cmd_debug_def cmd_old_kernel_def cmd_halt_def cmd_of_interp_def
  by (assumption | rule frame | simp)+

section \<open>Files\<close>

lemma step_file_path [frame]: "P w \<Longrightarrow> P (snd (file_path p d w))"
  unfolding file_path_def by (assumption | rule frame)+

lemma step_default_path [frame]: "P w \<Longrightarrow> P (snd (default_path p w))"
  unfolding default_path_def by (assumption | rule frame)+

lemma step_option_pair [frame]:
  "P (snd x) \<Longrightarrow> (\<And>b. P (snd (g b))) \<Longrightarrow> P (snd (case r of None \<Rightarrow> x | Some b \<Rightarrow> g b))"
  by (cases r) simp_all

lemma step_prod_pair [frame]: "(\<And>a b. P (snd (f a b))) \<Longrightarrow> P (snd (case r of (a, b) \<Rightarrow> f a b))"
  by (cases r) simp

lemma step_prod_curried: "(\<And>a b. P (snd (f a b x w))) \<Longrightarrow> P (snd ((case r of (a, b) \<Rightarrow> f a b) x w))"
  by (cases r) simp

lemma step_open [frame]: "P w \<Longrightarrow> P (snd (ext2fs_open fw nm w))"
  unfolding ext2fs_open_def Let_def by (assumption | rule frame | simp)+

lemma step_ls [frame]: "P w \<Longrightarrow> P (snd (ext2fs_ls fw nm w))"
  unfolding ext2fs_ls_def Let_def by (assumption | rule frame | simp)+

lemma step_ext2fs_read [frame]: "P w \<Longrightarrow> P (snd (ext2fs_read fw n w))"
  unfolding ext2fs_read_def by (assumption | rule frame)+

lemma step_poke [frame]: "P w \<Longrightarrow> P (snd (poke_bytes a bs w))"
  by (simp add: poke_bytes_def modify_def)

lemma step_files [frame]: "P w \<Longrightarrow> P (snd (open_path fw pt w))" "P w \<Longrightarrow> P (snd (file_len fw pt w))"
    "P w \<Longrightarrow> P (snd (file_load fw pt a w))" "P w \<Longrightarrow> P (snd (file_ls fw pt w))"
  unfolding file_len_def file_load_def file_ls_def open_path_def by (assumption | rule frame)+

lemma step_file_commands [frame]: "P w \<Longrightarrow> P (snd (file_cmd_dev as w))" "P w \<Longrightarrow> P (snd (file_cmd_cat fw as w))"
    "P w \<Longrightarrow> P (snd (file_cmd_ls fw as w))"
  unfolding file_cmd_dev_def file_cmd_cat_def file_cmd_ls_def by (assumption | rule frame | simp)+

section \<open>The prompt\<close>

lemma step_run_command [frame]: "P w \<Longrightarrow> P (snd (run_command fw peek f as w))"
  unfolding run_command_def by (cases f) (simp_all add: frame)

lemma step_dispatch [frame]: "P w \<Longrightarrow> P (snd (cmd_dispatch fw peek line w))"
  unfolding cmd_dispatch_def by (assumption | rule frame)+

lemma step_maintabfunc [frame]: "P w \<Longrightarrow> P (snd (maintabfunc fw buf w))"
  unfolding maintabfunc_def by (assumption | rule frame)+

lemma step_edit_key:
  assumes "\<And>l v. P v \<Longrightarrow> P (snd (the tabfunc l v))" and "P w"
  shows "P (snd (edit_key fw tabfunc c line w))"
  unfolding edit_key_def using assms(2) by - (assumption | rule frame assms(1))+

lemma step_edit_loop:
  assumes "\<And>l v. P v \<Longrightarrow> P (snd (the tabfunc l v))" and "P w"
  shows "P (snd (edit_loop fw tabfunc c line n w))"
  using assms(2)
proof (induction n arbitrary: c line w)
  case (Suc n)
  show ?case unfolding edit_loop.simps using Suc.prems by - (assumption | rule frame step_edit_key assms(1) Suc.IH)+
qed (simp add: throw_def)

lemma step_edit:
  assumes "\<And>l v. P v \<Longrightarrow> P (snd (the tabfunc l v))" and "P w"
  shows "P (snd (cmd_edit fw peek tabfunc c w))"
  unfolding cmd_edit_def using assms(2) by - (assumption | rule frame step_edit_loop assms(1))+

lemma step_auto_choice [frame]: "P w \<Longrightarrow> P (snd (auto_choice ps w))"
  unfolding auto_choice_def by (assumption | rule frame | simp)+

lemma step_prompt_choice [frame]: "P w \<Longrightarrow> P (snd (prompt_choice fw peek k ps t w))"
  unfolding prompt_choice_def by (assumption | rule frame step_edit | simp)+

lemma step_make_params [frame]: "P w \<Longrightarrow> P (snd (make_params lab ps w))"
  unfolding make_params_def Let_def by (assumption | rule frame | simp)+

lemma step_from_config [frame]: "P w \<Longrightarrow> P (snd (from_config k ps d w))"
  unfolding from_config_def Let_def by (assumption | rule frame | simp)+

lemma step_get_params [frame]: "P w \<Longrightarrow> P (snd (get_params fw peek ps d w))"
  unfolding get_params_def by (assumption | rule frame)+

lemma step_load_paths [frame]: "P w \<Longrightarrow> P (snd (get_load_paths fw peek ps w))"
  unfolding get_load_paths_def resolve_paths_def paths_on_def env_dev_update_from_default_def
  by (assumption | rule frame)+

lemma step_load_image [frame]: "P w \<Longrightarrow> P (snd (load_image fw pt a w))"
  unfolding load_image_def by (assumption | rule frame)+

lemma step_elf_parse [frame]: "P w \<Longrightarrow> P (snd (elf_parse fw a n w))"
  unfolding elf_parse_def Let_def by (assumption | rule frame)+

lemma step_round: "P w \<Longrightarrow> P (snd (try_load_loop fw peek ps w))"
  unfolding try_load_loop_def give_up_def set_initrd_def by (assumption | rule frame step_prod_curried | simp)+

end

text \<open>The parser's tables, the boot arguments and the flag of the volume.\<close>

interpretation rounds: round_frame
    "\<lambda>w :: ('s, 'z) lmachine_scheme. conf w = c \<and> bi_bootargs (bi w) = a \<and> \<not> flag_set (p_flags (the_part w)) PART_MOUNTED"
  for c a
  by unfold_locales auto

section \<open>The parameters of a round\<close>

definition short_text :: "string option \<Rightarrow> bool" where
  "short_text ps \<longleftrightarrow> (\<exists>t. ps = Some t \<and> length t < CMD_LENG)"

definition params_stored :: "string option \<Rightarrow> bool" where
  "params_stored ps \<longleftrightarrow> (\<exists>t. ps = Some t \<and> length t + 1 \<le> unat PARAMS_SIZE)"

lemma short_stored: "short_text ps \<Longrightarrow> params_stored ps"
  by (auto simp: short_text_def params_stored_def CMD_LENG_def PARAMS_SIZE_def)

lemma length_scan: "scan_word p = (x, r) \<Longrightarrow> length r \<le> length p"
  by (auto simp: scan_word_eq length_dropWhile_le)

lemma length_split:
  assumes "word_split (Some l) = (k, r)"
  shows "length r \<le> length l"
proof -
  obtain x y where sc: "scan_word (chomp l) = (x, y)" by fastforce
  have "r = [] \<or> r = chomp y" using assms sc by (auto simp: word_split_def Let_def split: if_splits)
  moreover have "length (chomp y) \<le> length l" using length_chomp [of y] length_scan [OF sc] length_chomp [of l] by simp
  ultimately show ?thesis by auto
qed

definition loader_ok :: "('s, 'z) lmachine_scheme \<Rightarrow> bool" where
  "loader_ok w \<longleftrightarrow> cfg_typed (conf w) \<and> (case bi_bootargs (bi w) of None \<Rightarrow> True | Some a \<Rightarrow> length a < CMD_LENG)
     \<and> \<not> flag_set (p_flags (the_part w)) PART_MOUNTED"

lemma auto_params:
  assumes "loader_ok w" and "auto_choice None w = (Inr (k, ps, t), w')"
  shows "short_text ps \<or> t = - 1"
proof (cases "flag_set (bi_flags (bi w)) TRIED_AUTO")
  case True
  then show ?thesis using assms(2) by (simp add: auto_choice_def DEFAULT_TIMEOUT_def)
next
  case False
  obtain j r where j: "word_split (bi_bootargs (bi w)) = (j, r)" by fastforce
  have "length r < CMD_LENG"
    using assms(1) j length_split by (cases "bi_bootargs (bi w)") (fastforce simp: loader_ok_def CMD_LENG_def)+
  then show ?thesis using assms(2) False j
    by (auto simp: auto_choice_def modify_bi_def modify_def bnd_def ret_def short_text_def split: option.splits)
qed

lemma wait_loop_ok: "wait_loop fw u n w = (Inr c, w') \<Longrightarrow> key_ok c"
proof (induction n arbitrary: w)
  case (Suc n)
  have nb: "key_ok k" if "nbgetchar fw v = (Inr k, v')" for v k v'
    using that key_none_ok key_none_ok [unfolded KEY_NONE_def] by (auto simp: nbgetchar_def read_key_def ret_def key_of_ok elim!: bnd_InrE split: if_splits prod.splits)
  show ?case using Suc.prems nb Suc.IH by (auto simp: ret_def elim!: bnd_InrE split: if_splits)
qed (simp add: throw_def)

lemma wait_ok: "key_ok t \<Longrightarrow> wait_for_key fw n t w = (Inr c, w') \<Longrightarrow> key_ok c"
  using key_none_ok
  by (auto simp: wait_for_key_def ret_def key_ok_def ccode_def KEY_NONE_def elim!: bnd_InrE split: if_splits dest!: wait_loop_ok)

lemma prompt_params:
  assumes "short_text ps \<or> t = - 1" and "prompt_choice fw peek k ps t w = (Inr (k', ps'), w')"
  shows "short_text ps'"
proof -
  let ?LF = "word_of_nat (ccode LF) :: u32"
  obtain w1 w2 key where key: "(if t \<noteq> - 1 then wait_for_key fw t ?LF else ret KEY_NONE) w1 = (Inr key, w2)"
    and r: "(if is_code key LF then
         bnd (printk fw ''%s'' [Va_s k]) (\<lambda>_.
         bnd (whenM (ps \<noteq> None) (printk fw '' %s'' [Va_s ps])) (\<lambda>_.
         bnd (printk fw [LF] []) (\<lambda>_. ret (k, ps))))
       else
         bnd (cmd_edit fw peek (Some (maintabfunc fw)) key) (\<lambda>buf.
           case buf of
             None \<Rightarrow> throw (Err ERR_NOT_READY)
           | Some b \<Rightarrow> (case word_split (Some b) of (k, ps) \<Rightarrow> ret (k, Some ps)))) w2 = (Inr (k', ps'), w')"
    using assms(2) unfolding prompt_choice_def by (auto elim!: bnd_InrE)
  have ok: "key_ok key"
    using key key_none_ok wait_ok [of ?LF fw t w1 key w2] by (auto simp: ret_def key_ok_def ccode_def split: if_splits)
  show ?thesis
  proof (cases "is_code key LF")
    case True
    then have "t \<noteq> - 1" using key by (auto simp: ret_def is_code_def KEY_NONE_def ccode_def)
    then show ?thesis using assms(1) r True by (auto simp: ret_def elim!: bnd_InrE)
  next
    case False
    then obtain b w3 where e: "cmd_edit fw peek (Some (maintabfunc fw)) key w2 = (Inr (Some b), w3)"
      and s: "word_split (Some b) = (k', the ps')" "ps' = Some (the ps')"
      using r by (auto simp: ret_def throw_def elim!: bnd_InrE split: option.splits prod.splits)
    have "length (the ps') < CMD_LENG" using cmd_edit_ok [OF ok e] length_split [OF s(1)] by (simp add: line_ok_def)
    then show ?thesis using s(2) by (auto simp: short_text_def)
  qed
qed

lemma modify_bi_then: "bnd (modify_bi f) k w = k () (w\<lparr>bi := f (bi w)\<rparr>)"
  by (simp add: modify_bi_def modify_def bnd_def)

lemma config_params:
  fixes w :: "('s, 'z) lmachine_scheme"
  assumes "cfg_typed (conf w)" and "short_text ps" and "from_config k ps d w = (Inr c, w')"
  shows "params_stored (ch_params c)"
proof -
  obtain t where t: "ps = Some t" "length t < CMD_LENG" using assms(2) by (auto simp: short_text_def)
  have fit: "params_stored r" if "make_params l t v = (Inr r, v')" "conf v = conf w" "r \<noteq> None"
    for l r v' and v :: "('s, 'z) lmachine_scheme"
    using params_fit [of v t l] assms(1) t(2) that by (auto simp: params_stored_def)
  consider (plain) "ch_params c = ps"
    | (made) r v' and v :: "('s, 'z) lmachine_scheme" where "make_params (the k) (or_null ps w) v = (Inr r, v')" "conf v = conf w" "r \<noteq> None" "ch_params c = r"
  proof (cases "flag_set (bi_flags (bi w)) CONFIG_VALID \<and> conf_strg w k ''image'' \<noteq> None \<and> conf_strg w k ''image'' \<noteq> Some []")
    case False
    then have "ch_params c = ps" using assms(3) by (auto simp: from_config_def Let_def split: if_splits)
    then show thesis by (rule plain)
  next
    case True
    let ?v = "w\<lparr>bi := (bi w)\<lparr>bi_flags := if conf_strg w k ''old-kernel'' \<noteq> None then bi_flags (bi w) OR BOOT_PRE_2_4
                     else bi_flags (bi w) AND NOT BOOT_PRE_2_4\<rparr>\<rparr>"
    let ?k = "\<lambda>ps. if ps = None then throw (Err ERR_NO_MEM)
                else ret \<lparr>ch_kernel = conf_strg w k ''image'',
                       ch_initrd = (case conf_strg w k ''initrd'' of Some i \<Rightarrow> Some i | None \<Rightarrow> conf_strg w None ''initrd''),
                       ch_params = ps, ch_dev = image_dev (conf_strg w k) d, ch_label = k\<rparr>"
    from True have r: "bnd (make_params (the k) (or_null ps w)) ?k ?v = (Inr c, w')"
      using assms(3) by (simp only: from_config_def Let_def modify_bi_then if_False de_Morgan_disj not_not simp_thms)
    from r obtain q v' where q: "make_params (the k) (or_null ps w) ?v = (Inr q, v')"
      and e: "?k q v' = (Inr c, w')"
      by (rule bnd_InrE)
    have "q \<noteq> None" "ch_params c = q" using e by (auto simp: ret_def throw_def split: if_splits)
    then show thesis using q made [OF q] by simp
  qed
  then show ?thesis
  proof cases
    case plain
    then show ?thesis using short_stored [OF assms(2)] by simp
  next
    case made
    then show ?thesis using fit t(1) by (simp add: or_null_def)
  qed
qed

lemma split_params: "params_stored (ch_params c) \<Longrightarrow> params_stored (ch_params (split_initrd c))"
proof -
  assume "params_stored (ch_params c)"
  then obtain t where t: "ch_params c = Some t" "length t + 1 \<le> unat PARAMS_SIZE" by (auto simp: params_stored_def)
  then have "length (chomp t) + 1 \<le> unat PARAMS_SIZE" using length_chomp [of t] by simp
  then show ?thesis using t length_split [of "chomp t"]
    by (fastforce simp: split_initrd_def Let_def params_stored_def split: prod.split)
qed

lemma chosen_params:
  assumes w: "loader_ok w" and "get_params fw peek None d w = (Inr c, w')"
  shows "params_stored (ch_params c)"
proof -
  obtain k ps t w1 where a: "auto_choice None w = (Inr (k, ps, t), w1)"
    and r: "bnd (prompt_choice fw peek k ps t) (\<lambda>(k, ps). bnd (from_config k ps d) (\<lambda>c.
       if ch_kernel c = None then
         bnd (printk fw (''<TAB> for list of bootable images, or !help'' @ [LF]) []) (\<lambda>_. throw (Err ERR_NOT_READY))
       else ret (split_initrd c))) w1 = (Inr c, w')"
    using assms(2) unfolding get_params_def by (elim bnd_InrE [where m = "auto_choice None"]) auto
  from r obtain k2 ps2 w2 c2 w3 where p: "prompt_choice fw peek k ps t w1 = (Inr (k2, ps2), w2)"
    and f: "from_config k2 ps2 d w2 = (Inr c2, w3)" and c: "c = split_initrd c2"
    by (auto simp: ret_def throw_def elim!: bnd_InrE split: if_splits)
  have "conf w1 = conf w" using rounds.step_auto_choice [of w "conf w" "bi_bootargs (bi w)" None] w a by (simp add: loader_ok_def)
  moreover have "conf w2 = conf w1"
    using rounds.step_prompt_choice [of w1 "conf w1" "bi_bootargs (bi w1)" fw peek k ps t]
      rounds.step_auto_choice [of w "conf w" "bi_bootargs (bi w)" None] w a p by (simp add: loader_ok_def)
  ultimately have "cfg_typed (conf w2)" using w by (simp add: loader_ok_def)
  from config_params [OF this prompt_params [OF auto_params [OF w a] p] f]
  show ?thesis unfolding c by (rule split_params)
qed

lemma resolved_params:
  assumes "resolve_paths fw c w = (Inr (kp, ip, ps), w')"
  shows "ps = ch_params c"
  using assms by (auto simp: resolve_paths_def paths_on_def ret_def throw_def elim!: bnd_InrE split: sum.splits option.splits prod.splits)

lemma loaded_params:
  assumes "loader_ok w" and "try_load_loop fw peek None w = (Inr (img, ps), w')"
  shows "params_stored ps"
proof -
  obtain kp ip w1 where "get_load_paths fw peek None w = (Inr (kp, ip, ps), w1)"
    using assms(2) by (auto simp: try_load_loop_def give_up_def ret_def throw_def elim!: bnd_InrE split: sum.splits option.splits prod.splits)
  then obtain c w2 where "get_params fw peek None env_dev_zero w = (Inr c, w2)" "resolve_paths fw c w2 = (Inr (kp, ip, ps), w1)"
    unfolding get_load_paths_def by (rule bnd_InrE)
  then show ?thesis using chosen_params [OF assms(1)] resolved_params by blast
qed

section \<open>Round after round\<close>

text \<open>The states in which a round starts: the first, and any after a round that failed.\<close>

inductive round_of :: "'s firmware \<Rightarrow> hardware \<Rightarrow> ('s, 'z) lmachine_scheme \<Rightarrow> ('s, 'z) lmachine_scheme \<Rightarrow> bool"
  for fw peek w0 where
  round_first: "round_of fw peek w0 w0"
| round_again: "round_of fw peek w0 w \<Longrightarrow> try_load_loop fw peek None w = (Inl (Err e), w') \<Longrightarrow> round_of fw peek w0 w'"

lemma round_ok: "loader_ok w \<Longrightarrow> loader_ok (snd (try_load_loop fw peek None w))
    \<and> conf (snd (try_load_loop fw peek None w)) = conf w"
  using rounds.step_round [of w "conf w" "bi_bootargs (bi w)" fw peek None] by (simp add: loader_ok_def)

lemma rounds_ok: "round_of fw peek w0 w \<Longrightarrow> loader_ok w0 \<Longrightarrow> loader_ok w \<and> conf w = conf w0"
proof (induction rule: round_of.induct)
  case (round_again w e w')
  then show ?case using round_ok [of w fw peek] by simp
qed simp

text \<open>The loop of the loader goes from one such state to the next, and ends with a round that succeeds.\<close>

lemma load_until_round:
  fixes fw :: "'s firmware" and w :: "('s, 'z) lmachine_scheme"
  assumes "load_until fw peek n w = (Inr x, w')"
  shows "\<exists>v. round_of fw peek w v \<and> try_load_loop fw peek None v = (Inr x, w')"
proof -
  have "\<exists>v. round_of fw peek w0 v \<and> try_load_loop fw peek None v = (Inr x, w')"
    if "load_until fw peek n w = (Inr x, w')" "round_of fw peek w0 w" for w0 w :: "('s, 'z) lmachine_scheme"
    using that
  proof (induction n arbitrary: w)
    case (Suc n)
    obtain r v where t: "try_load_loop fw peek None w = (r, v)" by fastforce
    show ?case
    proof (cases r)
      case (Inr y)
      then show ?thesis using Suc.prems t by (auto simp: bnd_def catch_def ret_def)
    next
      case (Inl e)
      then obtain e' where e: "r = Inl (Err e')" and "load_until fw peek n v = (Inr x, w')"
        using Suc.prems(1) t by (cases e) (auto simp: bnd_def catch_def)
      then show ?thesis using Suc.IH round_again Suc.prems(2) t by blast
    qed
  qed (simp add: throw_def)
  then show ?thesis using assms round_first by blast
qed

text \<open>Without a keyboard a round ends with the message of an empty line.\<close>

lemma empty_round:
  fixes fw :: "'s firmware" and w :: "('s, 'z) lmachine_scheme"
  assumes "prom_stdin w = 0" and "prom_stdout w = 0" and "budget w = Suc m"
    and "bi_flags (bi w) = 0" and "bi_bootargs (bi w) = None"
  shows "\<exists>w'. try_load_loop fw peek None w = (Inl (Err ERR_NOT_READY), w')"
proof -
  let ?w1 = "w\<lparr>bi := (bi w)\<lparr>bi_flags := TRIED_AUTO\<rparr>\<rparr>"
  let ?fin = "\<lambda>(k, ps). bnd (from_config k ps env_dev_zero) (\<lambda>c.
       if ch_kernel c = None then
         bnd (printk fw (''<TAB> for list of bootable images, or !help'' @ [LF]) [])
           (\<lambda>_. throw (Err ERR_NOT_READY))
       else ret (split_initrd c))"
  obtain k where a: "auto_choice None w = (Inr (k, Some [], - 1), ?w1)"
    using assms(4,5) by (simp add: auto_choice_def modify_bi_def modify_def bnd_def ret_def flag_set_def flag_defs DEFAULT_TIMEOUT_def)
  obtain s where 1: "printk fw PROMPT [] ?w1 = (Inr (), ?w1\<lparr>fws := s\<rparr>)"
    using printk_ok [of fw PROMPT "[]" ?w1] by auto
  let ?w2 = "?w1\<lparr>fws := s\<rparr>"
  have g: "getchar fw ?w2 = (Inr (- 1), ?w2)" and o: "putchar fw LF ?w2 = (Inr 0, ?w2)"
    using assms(1,2) by (simp_all add: getchar_def putchar_def)
  have "cmd_edit fw peek (Some (maintabfunc fw)) KEY_NONE ?w2 = (Inr (Some []), ?w2)"
    using assms(3) by (simp add: cmd_edit_def bnd_def ret_def g o ends_line_def KEY_NONE_def cnth_def)
  then have p: "prompt_choice fw peek k (Some []) (- 1) ?w1 = (Inr (None, Some []), ?w2)"
    unfolding prompt_choice_def bnd_Inr [where m = "printk fw PROMPT []" and w = ?w1, OF 1]
    by (simp add: bnd_def ret_def is_code_def KEY_NONE_def ccode_def word_split_def)
  have "\<not> flag_set TRIED_AUTO CONFIG_VALID" by (simp add: flag_set_def flag_defs)
  then obtain s2 where "?fin (None, Some []) ?w2 = throw (Err ERR_NOT_READY) (?w2\<lparr>fws := s2\<rparr>)"
    using printk_then [of fw "''<TAB> for list of bootable images, or !help'' @ [LF]" "[]" "\<lambda>_. throw (Err ERR_NOT_READY)" ?w2]
    by (auto simp: from_config_def Let_def bnd_def)
  then have "get_params fw peek None env_dev_zero w = (Inl (Err ERR_NOT_READY), ?w2\<lparr>fws := s2\<rparr>)"
    using a p by (simp add: get_params_def bnd_def throw_def)
  then show ?thesis by (simp add: try_load_loop_def get_load_paths_def bnd_def)
qed

text \<open>
  Property C15: however many rounds the prompt goes through, with whatever commands, failed loads
  and volumes, each begins with the tables that the configuration left, and no volume flagged as
  mounted; the parameters that are chosen in it, typed or from the boot arguments or put
  together from the configuration, fit the buffer that \<open>make_params\<close> fills without a test, and so
  do those that the kernel is started with.
\<close>

theorem every_round_fits:
  fixes fw :: "'s firmware" and w0 :: "('s, 'z) lmachine_scheme"
  assumes "loader_ok w0"
  shows "(\<forall>w. round_of fw peek w0 w \<longrightarrow> loader_ok w \<and> conf w = conf w0
        \<and> (\<forall>c w'. get_params fw peek None dev w = (Inr c, w') \<longrightarrow> params_stored (ch_params c)))
    \<and> (\<forall>n img ps w'. load_until fw peek n w0 = (Inr (img, ps), w') \<longrightarrow> params_stored ps)"
proof (intro conjI allI impI)
  fix w assume "round_of fw peek w0 w"
  note r = rounds_ok [OF this assms]
  then show "loader_ok w" "conf w = conf w0" by simp_all
  show "params_stored (ch_params c)" if "get_params fw peek None dev w = (Inr c, w')" for c w'
    using r chosen_params that by blast
next
  fix n img ps w' assume "load_until fw peek n w0 = (Inr (img, ps), w')"
  then show "params_stored ps" using load_until_round rounds_ok loaded_params assms by blast
qed

text \<open>A second round after one without a keyboard, and a kernel named in the boot arguments.\<close>

definition demo_args :: "(u32 \<times> u32) list lmachine" where
  "demo_args = demo_linux\<lparr>bi := (bi demo_linux)\<lparr>bi_bootargs := Some ''vmlinux single''\<rparr>\<rparr>"

theorem every_round_fits_witness:
  "(\<exists>w e. try_load_loop demo_firmware load32 None demo_linux = (Inl (Err e), w) \<and> loader_ok w \<and> conf w = conf demo_linux)
    \<and> (\<exists>c w'. get_params demo_firmware load32 None env_dev_zero demo_args = (Inr c, w') \<and> params_stored (ch_params c))"
proof
  have ok: "loader_ok demo_linux" "loader_ok demo_args" using demo_linux_typed
    by (simp_all add: loader_ok_def demo_args_def CMD_LENG_def) (simp_all add: demo_linux_def demo_machine_def machine.defs
        pmachine.defs emachine.defs bi_zero_def part_zero_def flag_set_def)
  have "prom_stdin demo_linux = 0" "prom_stdout demo_linux = 0" "budget demo_linux = Suc 99"
      "bi_flags (bi demo_linux) = 0" "bi_bootargs (bi demo_linux) = None"
    by (simp_all add: demo_linux_def demo_machine_def machine.defs pmachine.defs emachine.defs bi_zero_def)
  from empty_round [OF this] obtain w where w: "try_load_loop demo_firmware load32 None demo_linux = (Inl (Err ERR_NOT_READY), w)"
    by blast
  then have "round_of demo_firmware load32 demo_linux w" by (rule round_again [OF round_first])
  then show "\<exists>w e. try_load_loop demo_firmware load32 None demo_linux = (Inl (Err e), w) \<and> loader_ok w \<and> conf w = conf demo_linux"
    using every_round_fits [OF ok(1), of demo_firmware load32 env_dev_zero] w by blast
  let ?v = "demo_args\<lparr>bi := (bi demo_args)\<lparr>bi_flags := bi_flags (bi demo_args) XOR TRIED_AUTO\<rparr>\<rparr>"
  have f: "\<not> flag_set (bi_flags (bi demo_args)) TRIED_AUTO" "\<not> flag_set (bi_flags (bi ?v)) CONFIG_VALID"
    and b: "word_split (bi_bootargs (bi demo_args)) = (Some ''vmlinux'', ''single'')"
    by (simp_all add: demo_args_def demo_linux_def demo_machine_def machine.defs pmachine.defs emachine.defs bi_zero_def
        flag_set_def flag_defs word_split_def scan_word_eq chomp_eq)
  obtain s where p: "prompt_choice demo_firmware load32 (Some ''vmlinux'') (Some ''single'') 0 ?v
      = (Inr (Some ''vmlinux'', Some ''single''), ?v\<lparr>fws := s\<rparr>)"
    using prompt_choice_now [of demo_firmware load32 "Some ''vmlinux''" "Some ''single''" ?v] by auto
  obtain c w' where g: "get_params demo_firmware load32 None env_dev_zero demo_args = (Inr c, w')"
    using auto_choice_named [OF f(1) b, of None] p f(2) by (simp add: get_params_def bnd_def ret_def from_config_def Let_def)
  then show "\<exists>c w'. get_params demo_firmware load32 None env_dev_zero demo_args = (Inr c, w') \<and> params_stored (ch_params c)"
    using every_round_fits [OF ok(2), of demo_firmware load32 env_dev_zero] round_first by blast
qed

end
