(* ===== verification/Installer.thy ===== *)
theory Installer
  imports Part
begin

unbundle bit_operations_syntax

text \<open>
  The installer that runs under Linux (\<^verbatim>\<open>installer/iquik.c\<close>): it finds the bootstrap partition of a
  disk, writes the loader's image with an optional preboot script into it, and marks the map
  entry bootable.  Files and disks are byte strings under their names; \<open>fatal\<close> is the error
  value, with its message's beginning.  Progress messages are not modelled.  Sizes and offsets
  are those of a 64-bit host, where none of the products overflows.
\<close>

section \<open>Files\<close>

record host =
  files :: "string \<Rightarrow> bytes option"
  test_mode :: bool

type_synonym 'a hostprog = "(host, string, 'a) io"

definition fatal :: "string \<Rightarrow> 'a hostprog" where
  "fatal msg = throw msg"

definition open_file :: "string \<Rightarrow> string \<Rightarrow> bytes hostprog" where
  "open_file nm msg = (\<lambda>h. case files h nm of Some bs \<Rightarrow> (Inr bs, h) | None \<Rightarrow> (Inl msg, h))"

text \<open>A write through a disk's end is cut; the count written is the result.\<close>

definition overwrite :: "nat \<Rightarrow> bytes \<Rightarrow> bytes \<Rightarrow> bytes" where
  "overwrite off data disk =
     (let d = take (length disk - off) data in take off disk @ d @ drop (off + length d) disk)"

definition do_write :: "string \<Rightarrow> nat \<Rightarrow> bytes \<Rightarrow> nat hostprog" where
  "do_write device off data =
     (\<lambda>h. if test_mode h then (Inr (length data), h)
          else
            (case files h device of
               None \<Rightarrow> (Inr 0, h)
             | Some disk \<Rightarrow>
                 (Inr (length (take (length disk - off) data)),
                  h\<lparr>files := (files h)(device \<mapsto> overwrite off data disk)\<rparr>)))"

definition sector :: "nat \<Rightarrow> bytes \<Rightarrow> bytes option" where
  "sector off disk = (let b = slice off 512 disk in if length b = 512 then Some b else None)"

section \<open>Finding the bootstrap partition\<close>

definition mp_type :: "bytes \<Rightarrow> string" where "mp_type blk = cstr (drop 48 blk)"
definition APPLE_BOOT_TYPE :: string where "APPLE_BOOT_TYPE = ''Apple_Bootstrap''"

text \<open>The loop over the map entries; \<open>maxpart\<close> is an \<open>int\<close>.\<close>

function sb_loop :: "bytes \<Rightarrow> nat \<Rightarrow> nat \<Rightarrow> int \<Rightarrow> string + (nat \<times> nat)" where
  "sb_loop disk secsize part maxpart =
     (if \<not> int part \<le> maxpart then Inl ''No Apple_Bootstrap partition found''
      else
        (case sector (part * secsize) disk of
           None \<Rightarrow> Inl ''Error reading partition map''
         | Some blk \<Rightarrow>
             if mp_signature blk \<noteq> MAC_PARTITION_MAGIC then Inl ''No Apple_Bootstrap partition found''
             else
               (let count = sint (mp_map_count blk); maxpart' = (if part = 1 then count else maxpart) in
                if part \<noteq> 1 \<and> maxpart \<noteq> count then Inl ''No Apple_Bootstrap partition found''
                else if strcmp (mp_type blk) APPLE_BOOT_TYPE = 0
                then Inr (part, unat (mp_start_block blk) * (secsize div 512))
                else sb_loop disk secsize (part + 1) maxpart')))"
  by pat_completeness auto
termination
proof (relation "measures [\<lambda>(disk, secsize, part, maxpart). if part \<le> 1 then 2 - part else 0,
    \<lambda>(disk, secsize, part, maxpart). nat (maxpart + 1 - int part)]", goal_cases)
  case (2 disk secsize part maxpart blk count maxpart')
  show ?case
  proof (cases "part \<le> 1")
    case True
    then show ?thesis by simp
  next
    case False
    then have "maxpart' = maxpart" "\<not> part + 1 \<le> 1" using 2 by simp_all
    with False 2(1) show ?thesis by simp
  qed
qed simp

declare sb_loop.simps [simp del]

text \<open>The results are the map entry, the partition's first 512-byte block and the sector size.\<close>

definition read_sb :: "string \<Rightarrow> (nat \<times> nat \<times> nat) hostprog" where
  "read_sb device =
     bnd (open_file device ''Cannot open'') (\<lambda>disk.
       case sector 0 disk of
         None \<Rightarrow> fatal ''Error reading block 0''
       | Some md \<Rightarrow>
           if md_signature md \<noteq> MAC_DRIVER_MAGIC then fatal ''not a mac-formatted disk''
           else
             (let secsize = unat (md_block_size md) in
              case sb_loop disk secsize 1 1 of
                Inl e \<Rightarrow> fatal e
              | Inr (part, doff) \<Rightarrow> ret (part, doff, secsize)))"

section \<open>Marking the map entry\<close>

definition put_bytes :: "nat \<Rightarrow> bytes \<Rightarrow> bytes \<Rightarrow> bytes" where
  "put_bytes off d bs = take off bs @ d @ drop (off + length d) bs"

definition put32 :: "nat \<Rightarrow> u32 \<Rightarrow> bytes \<Rightarrow> bytes" where
  "put32 off v bs = put_bytes off (bytes32 v) bs"

text \<open>The C library's \<open>strncpy\<close> pads with zero bytes.\<close>

definition strncpy_field :: "string \<Rightarrow> nat \<Rightarrow> bytes" where
  "strncpy_field s n = take n (map byte s @ replicate n 0)"

definition mark_entry :: "nat \<Rightarrow> u32 \<Rightarrow> bytes \<Rightarrow> bytes" where
  "mark_entry stage_size load_base blk =
     put_bytes 120 (strncpy_field ''PowerPC'' 16)
       (put32 112 0 (put32 108 load_base (put32 104 0 (put32 100 load_base
         (put32 96 (word_of_nat stage_size) (put32 92 0
           (put32 88 (mp_status blk OR STATUS_BOOTABLE) blk)))))))"

definition make_bootable :: "string \<Rightarrow> nat \<Rightarrow> nat \<Rightarrow> nat \<Rightarrow> u32 \<Rightarrow> unit hostprog" where
  "make_bootable device secsize part_index stage_size load_base =
     (if part_index = 0 then ret ()
      else
        bnd (open_file device ''Cannot open for writing'') (\<lambda>disk.
          case sector (part_index * secsize) disk of
            None \<Rightarrow> fatal ''Error reading partition map entry''
          | Some blk \<Rightarrow>
              bnd (do_write device (part_index * secsize) (mark_entry stage_size load_base blk)) (\<lambda>n.
                if n \<noteq> 512 then fatal ''write error'' else ret ())))"

section \<open>Writing the boot code\<close>

definition chrootcpy :: "string option \<Rightarrow> string \<Rightarrow> string" where
  "chrootcpy new_root path =
     (case new_root of
        Some r \<Rightarrow> if r \<noteq> [] then r @ (if last r \<noteq> CHR ''/'' then path else tl path) else path
      | None \<Rightarrow> path)"

text \<open>
  The image to be written.  With a script the magic word at the end of the boot code is
  replaced by the script and a zero byte.  A read that gives nothing is fatal, a short one is not.
  A file shorter than the magic word ends in an error in any case.
\<close>

definition stage_image :: "bytes \<Rightarrow> bytes option \<Rightarrow> string + bytes" where
  "stage_image code preboot =
     (case preboot of
        None \<Rightarrow> if code = [] then Inl ''Cannot read boot code'' else Inr code
      | Some script \<Rightarrow>
          (let code_size = length code - 4 in
           if code_size = 0 then Inl ''Cannot read boot code''
           else if be32 code code_size \<noteq> PREBOOT_MAGIC then Inl ''bad preboot magic''
           else if script = [] then Inl ''Cannot read preboot script''
           else Inr (take code_size code @ script @ [0])))"

text \<open>The result is the size of what was written.\<close>

definition install_stage :: "string \<Rightarrow> string \<Rightarrow> string option \<Rightarrow> nat \<Rightarrow> nat hostprog" where
  "install_stage device filename preboot doff =
     bnd (open_file device ''Cannot open device for writing'') (\<lambda>disk.
     bnd (open_file filename ''Cannot open primary boot file'') (\<lambda>code.
     bnd (case preboot of
            None \<Rightarrow> ret None
          | Some p \<Rightarrow> bnd (open_file p ''Cannot open preboot script'') (\<lambda>s. ret (Some s))) (\<lambda>script.
       case stage_image code script of
         Inl e \<Rightarrow> fatal e
       | Inr img \<Rightarrow>
           bnd (do_write device (doff * 512) img) (\<lambda>n.
             if n \<noteq> length img then fatal ''Cannot write boot code'' else ret (length img)))))"

section \<open>The program\<close>

text \<open>\<open>fgets\<close> with a buffer of 256: a line with its newline, at most 255 characters at a time.\<close>

definition fgets_len :: "string \<Rightarrow> nat" where
  "fgets_len s = min 255 (length (takeWhile (\<lambda>c. c \<noteq> LF) s) + 1)"

function some_line :: "string \<Rightarrow> string \<Rightarrow> bool" where
  "some_line line s = (if s = [] then False else take (fgets_len s) s = line \<or> some_line line (drop (fgets_len s) s))"
  by pat_completeness auto
termination
proof (relation "measure (\<lambda>(line, s). length s)", goal_cases)
  case (2 line s)
  then show ?case by (cases s) (auto simp: fgets_len_def)
qed simp

declare some_line.simps [simp del]

definition am_i_newworld :: "bool hostprog" where
  "am_i_newworld =
     bnd (open_file ''/proc/cpuinfo'' ''Could not open /proc/cpuinfo!'') (\<lambda>s.
       ret (some_line (''pmac-generation'' @ [TAB] @ '': NewWorld'' @ [LF]) (map chr s)))"

record opts =
  o_preboot :: "string option"
  o_name :: string
  o_root :: "string option"
  o_device :: "string option"
  o_version :: bool
  o_usage :: bool
  o_test :: bool

text \<open>One option with its argument, as \<open>getopt\<close> gives them.\<close>

definition set_opt :: "char \<times> string \<Rightarrow> opts \<Rightarrow> opts" where
  "set_opt = (\<lambda>(c, optarg) o'.
     if c = CHR ''p'' then o'\<lparr>o_preboot := Some optarg\<rparr>
     else if c = CHR ''b'' then o'\<lparr>o_name := optarg\<rparr>
     else if c = CHR ''r'' then o'\<lparr>o_root := Some optarg\<rparr>
     else if c = CHR ''T'' then o'\<lparr>o_test := True\<rparr>
     else if c = CHR ''V'' then o'\<lparr>o_version := True\<rparr>
     else if c = CHR ''h'' then o'\<lparr>o_usage := True\<rparr>
     else if c = CHR ''d'' then o'\<lparr>o_device := Some optarg\<rparr>
     else o')"

definition DFL_BOOTBLOCK :: string where "DFL_BOOTBLOCK = ''/boot/iquik.b''"

definition opts0 :: opts where
  "opts0 = \<lparr>o_preboot = None, o_name = DFL_BOOTBLOCK, o_root = None, o_device = None,
     o_version = False, o_usage = False, o_test = False\<rparr>"

definition parse_opts :: "(char \<times> string) list \<Rightarrow> opts" where
  "parse_opts as = fold set_opt as opts0"

text \<open>The usage is printed, and the status is 1.\<close>

definition usage :: "nat hostprog" where
  "usage = ret 1"

definition disk_of_major :: "nat \<Rightarrow> string option" where
  "disk_of_major major =
     (if major = 8 then Some ''/dev/sda'' else if major = 3 then Some ''/dev/hda''
      else if major = 22 then Some ''/dev/hdc'' else if major = 33 then Some ''/dev/hde''
      else if major = 34 then Some ''/dev/hdg'' else None)"

text \<open>
  The search of \<^verbatim>\<open>/dev\<close> for the block device of a number.  \<open>names\<close> are the entries that \<open>readdir\<close>
  gives, none when the directory cannot be opened; \<open>stat\<close> gives whether a file is a block device
  and its number.  An entry that \<open>stat\<close> fails on ends the search.
\<close>

fun dev_scan :: "(string \<Rightarrow> (bool \<times> nat) option) \<Rightarrow> nat \<Rightarrow> string list \<Rightarrow> string option" where
  "dev_scan stat number [] = None"
| "dev_scan stat number (d # ds) =
     (case stat (''/dev/'' @ d) of
        None \<Rightarrow> None
      | Some (block, rdev) \<Rightarrow> if block \<and> rdev = number then Some (''/dev/'' @ d) else dev_scan stat number ds)"

definition find_dev :: "string list option \<Rightarrow> (string \<Rightarrow> (bool \<times> nat) option) \<Rightarrow> nat \<Rightarrow> string option" where
  "find_dev names stat number =
     (if number = 0 then None else case names of None \<Rightarrow> None | Some ds \<Rightarrow> dev_scan stat number ds)"

text \<open>
  \<open>resolve_to_dev\<close>, which nothing calls: the components of the path in \<open>buffer\<close> are looked at from
  position \<open>p\<close> on until one is on the device, and links are put in place of their names.  The result
  is what is left of the path from there.  A name that is the last one is stored through a null
  pointer.  \<open>lstat\<close> gives the device of a file and whether it is a link.  Links may lead round in a
  circle; the buffers' sizes are not modelled.
\<close>

definition first_slash :: "string \<Rightarrow> nat \<Rightarrow> nat option" where
  "first_slash buffer p =
     (if CHR ''/'' \<in> set (drop p buffer) then Some (p + length (takeWhile (\<lambda>c. c \<noteq> CHR ''/'') (drop p buffer))) else None)"

definition splice_link :: "string \<Rightarrow> string \<Rightarrow> string option \<Rightarrow> string" where
  "splice_link name link behind =
     (let b = (if cnth link 0 = CHR ''/'' then link else name @ ''/'' @ link) in
      case behind of None \<Rightarrow> b | Some r \<Rightarrow> b @ (if last b \<noteq> CHR ''/'' then ''/'' else []) @ r)"

fun resolve_to_dev ::
    "(string \<Rightarrow> (nat \<times> bool) option) \<Rightarrow> (string \<Rightarrow> string option) \<Rightarrow> nat \<Rightarrow> string \<Rightarrow> nat \<Rightarrow> nat \<Rightarrow> (string + string) option" where
  "resolve_to_dev lstat readlink dev buffer p 0 = None"
| "resolve_to_dev lstat readlink dev buffer p (Suc n) =
     (let q = first_slash buffer p;
          name = (case q of Some k \<Rightarrow> take k buffer | None \<Rightarrow> buffer);
          fn = (if name = [] then ''/'' else name)
      in case lstat fn of
           None \<Rightarrow> Some (Inl ''Cannot stat'')
         | Some (d, islnk) \<Rightarrow>
             if d = dev then (case q of None \<Rightarrow> Some (Inl ''store through null'') | Some k \<Rightarrow> Some (Inr (drop k buffer)))
             else if islnk then
               (case readlink name of
                  None \<Rightarrow> Some (Inl ''Cannot readlink'')
                | Some link \<Rightarrow>
                    resolve_to_dev lstat readlink dev
                      (splice_link name link (map_option (\<lambda>k. drop (k + 1) buffer) q)) 1 n)
             else
               (case q of
                  None \<Rightarrow> Some (Inl ''store through null'')
                | Some k \<Rightarrow> resolve_to_dev lstat readlink dev buffer (k + 1) n))"

text \<open>
  \<open>dev_of\<close> is the device number a file is on, \<open>names\<close> and \<open>stat\<close> are the operating system's answers
  about \<^verbatim>\<open>/dev\<close>.  \<open>rest\<close> says that arguments are left over, \<open>root_env\<close> is the environment's
  \<^verbatim>\<open>ROOT\<close>.  The result is the status the program exits with; \<open>fatal\<close> exits with 1.
\<close>

definition install_main ::
    "(string \<Rightarrow> nat) \<Rightarrow> string list option \<Rightarrow> (string \<Rightarrow> (bool \<times> nat) option) \<Rightarrow> string option \<Rightarrow> (char \<times> string) list \<Rightarrow> bool \<Rightarrow> nat hostprog" where
  "install_main dev_of names stat root_env as rest =
     (let o' = parse_opts as in
      if o_usage o' then usage
      else if o_version o' then ret 0
      else if rest then usage
      else
        (let name = chrootcpy (case o_root o' of Some r \<Rightarrow> Some r | None \<Rightarrow> root_env) (o_name o') in
         bnd (modify (\<lambda>h. h\<lparr>test_mode := o_test o'\<rparr>)) (\<lambda>_.
         bnd (open_file name ''Cannot open iQUIK boot block'') (\<lambda>code.
         bnd (if o_device o' = None then am_i_newworld else ret False) (\<lambda>nw.
           if nw then fatal ''You must use the -d flag''
           else
             (case (case o_device o' of
                      Some d \<Rightarrow> Some d
                    | None \<Rightarrow>
                        (case disk_of_major (dev_of name div 256) of
                           Some d \<Rightarrow> Some d
                         | None \<Rightarrow> find_dev names stat (dev_of name))) of
                None \<Rightarrow> fatal ''Cannot find out what device to install to''
              | Some basedev \<Rightarrow>
                  bnd (read_sb basedev) (\<lambda>(part_index, doff, secsize).
                  bnd (install_stage basedev name (o_preboot o') doff) (\<lambda>stage_size.
                  bnd (make_bootable basedev secsize part_index stage_size IQUIK_BASE) (\<lambda>_. ret 0)))))))))"

end
