(* ===== verification/Install_Spec.thy ===== *)
theory Install_Spec
  imports Installer
begin

unbundle bit_operations_syntax

text \<open>
  What the installer does to files: where it writes, what it writes there, and that the map entry
  it marks is one the loader boots from.
\<close>

section \<open>Writing into a block\<close>

lemma length_put_bytes: "off + length d \<le> length bs \<Longrightarrow> length (put_bytes off d bs) = length bs"
  by (simp add: put_bytes_def)

lemma slice_put_same:
  assumes "off + length d \<le> length bs" and "n = length d"
  shows "slice off n (put_bytes off d bs) = d"
  using assms by (simp add: slice_def put_bytes_def)

lemma slice_put_other:
  assumes "off + length d \<le> length bs" and "i + n \<le> off \<or> off + length d \<le> i"
  shows "slice i n (put_bytes off d bs) = slice i n bs"
proof (rule nth_equalityI)
  have l: "length (put_bytes off d bs) = length bs" using assms(1) by (rule length_put_bytes)
  then show "length (slice i n (put_bytes off d bs)) = length (slice i n bs)" by simp
  fix k assume "k < length (slice i n (put_bytes off d bs))"
  then have k: "k < n" "i + k < length bs" using l by auto
  then have "put_bytes off d bs ! (i + k) = bs ! (i + k)"
    using assms by (auto simp: put_bytes_def nth_append)
  then show "slice i n (put_bytes off d bs) ! k = slice i n bs ! k" using k l by (simp add: nth_slice)
qed

section \<open>The marked map entry\<close>

lemma mark_entry_fields:
  assumes "length blk = 512"
  shows "length (mark_entry sz base blk) = 512"
    and "i + n \<le> 88 \<Longrightarrow> slice i n (mark_entry sz base blk) = slice i n blk"
    and "slice 88 4 (mark_entry sz base blk) = bytes32 (mp_status blk OR STATUS_BOOTABLE)"
    and "slice 120 16 (mark_entry sz base blk) = strncpy_field ''PowerPC'' 16"
proof -
  have s: "length (strncpy_field ''PowerPC'' 16) = 16" by (simp add: strncpy_field_def)
  show "length (mark_entry sz base blk) = 512"
    using assms s by (simp add: mark_entry_def put32_def length_put_bytes)
  show "slice i n (mark_entry sz base blk) = slice i n blk" if "i + n \<le> 88"
    using assms s that by (simp add: mark_entry_def put32_def slice_put_other length_put_bytes)
  show "slice 88 4 (mark_entry sz base blk) = bytes32 (mp_status blk OR STATUS_BOOTABLE)"
    using assms s by (simp add: mark_entry_def put32_def slice_put_other slice_put_same length_put_bytes)
  show "slice 120 16 (mark_entry sz base blk) = strncpy_field ''PowerPC'' 16"
    using assms s by (simp add: mark_entry_def put32_def slice_put_same length_put_bytes)
qed


lemma be16_slice: "slice off 2 a = slice off 2 b \<Longrightarrow> be16 a off = be16 b off"
  and be32_slice: "slice off 4 a = slice off 4 b \<Longrightarrow> be32 a off = be32 b off"
  by (simp_all add: be16_def be32_def)

text \<open>
  The map entry that the installer marks is one the loader selects when no partition is named, and
  it still is the entry of its map.
\<close>

lemma marked_entry:
  assumes "length blk = 512"
  shows "let e = mark_entry sz base blk in
    length e = 512 \<and> mac_bootable e \<and> mp_signature e = mp_signature blk
    \<and> mp_map_count e = mp_map_count blk \<and> mp_start_block e = mp_start_block blk \<and> mp_block_count e = mp_block_count blk"
proof -
  let ?e = "mark_entry sz base blk"
  note f = mark_entry_fields [OF assms, where sz = sz and base = base]
  have "mp_status ?e = mp_status blk OR STATUS_BOOTABLE"
    unfolding mp_status_def by (rule be32_slice_bytes32) (use f(3) in \<open>simp add: mp_status_def\<close>)
  then have st: "mp_status ?e AND STATUS_BOOTABLE \<noteq> 0"
    using flag_set_OR [of "mp_status blk" STATUS_BOOTABLE STATUS_BOOTABLE] by (simp add: flag_set_def STATUS_BOOTABLE_def)
  have name: "strncpy_field ''PowerPC'' 16 = map byte ''PowerPC'' @ 0 # replicate 8 0"
    by (simp add: strncpy_field_def numeral_eq_Suc)
  have "drop 120 ?e = slice 120 16 ?e @ drop 16 (drop 120 ?e)" by (simp add: slice_def del: drop_drop)
  also have "\<dots> = map byte ''PowerPC'' @ 0 # replicate 8 0 @ drop 16 (drop 120 ?e)"
    unfolding f(4) name by simp
  finally have d: "drop 120 ?e = map byte ''PowerPC'' @ 0 # replicate 8 0 @ drop 16 (drop 120 ?e)" .
  have p: "mp_processor ?e = ''PowerPC''" unfolding mp_processor_def by (subst d, rule cstr_string) simp
  have "mac_bootable ?e" using st p by (simp add: mac_bootable_def STATUS_BOOTABLE_def fold_case_def ccode_def tolower_def)
  moreover have "mp_signature ?e = mp_signature blk" "mp_map_count ?e = mp_map_count blk"
      "mp_start_block ?e = mp_start_block blk" "mp_block_count ?e = mp_block_count blk"
    unfolding mp_signature_def mp_map_count_def mp_start_block_def mp_block_count_def
    by (rule be16_slice be32_slice, rule f(2), simp)+
  ultimately show ?thesis using f(1) by (simp add: Let_def)
qed

section \<open>The bootstrap partition\<close>

text \<open>A map of \<open>n\<close> entries in the sectors 1 to \<open>n\<close> of a disk.\<close>

definition map_sector :: "bytes \<Rightarrow> nat \<Rightarrow> nat \<Rightarrow> bytes" where
  "map_sector disk secsize k = slice (k * secsize) 512 disk"

definition disk_map :: "bytes \<Rightarrow> nat \<Rightarrow> nat \<Rightarrow> bool" where
  "disk_map disk secsize n \<longleftrightarrow> 0 < n \<and> (\<forall>k \<in> {1..n}. k * secsize + 512 \<le> length disk
     \<and> mp_signature (map_sector disk secsize k) = MAC_PARTITION_MAGIC
     \<and> sint (mp_map_count (map_sector disk secsize k)) = int n)"

lemma sb_loop_finds:
  assumes m: "disk_map disk secsize n" and k: "1 \<le> k" "k \<le> Suc n" and mx: "maxpart = (if k = 1 then 1 else int n)"
  shows "sb_loop disk secsize k maxpart =
    (case find (\<lambda>k. mp_type (map_sector disk secsize k) = APPLE_BOOT_TYPE) [k..<Suc n] of
       None \<Rightarrow> Inl ''No Apple_Bootstrap partition found''
     | Some k \<Rightarrow> Inr (k, unat (mp_start_block (map_sector disk secsize k)) * (secsize div 512)))"
  using k mx
proof (induction "Suc n - k" arbitrary: k maxpart)
  case 0
  then have "k = Suc n" "k \<noteq> 1" using m by (auto simp: disk_map_def)
  then show ?case using 0 by (simp add: sb_loop.simps [of disk secsize "Suc n"])
next
  case (Suc d)
  let ?b = "map_sector disk secsize k"
  have kn: "k \<le> n" using Suc.hyps(2) by linarith
  then have b: "sector (k * secsize) disk = Some ?b" "mp_signature ?b = MAC_PARTITION_MAGIC" "sint (mp_map_count ?b) = int n"
  proof -
    have f: "k * secsize + 512 \<le> length disk" "mp_signature ?b = MAC_PARTITION_MAGIC" "sint (mp_map_count ?b) = int n"
      using m Suc.prems(1) kn by (simp_all add: disk_map_def)
    then have "512 \<le> length disk - k * secsize" by linarith
    then show "sector (k * secsize) disk = Some ?b" "mp_signature ?b = MAC_PARTITION_MAGIC" "sint (mp_map_count ?b) = int n"
      using f by (simp_all add: sector_def map_sector_def Let_def)
  qed
  have in_range: "int k \<le> maxpart" using Suc.prems kn by auto
  have cmp: "strcmp (mp_type ?b) APPLE_BOOT_TYPE = 0 \<longleftrightarrow> mp_type ?b = APPLE_BOOT_TYPE"
    by (rule strcmp_eq_0_iff) (simp_all add: mp_type_def cstr_no_NUL APPLE_BOOT_TYPE_def)
  have self: "strcmp APPLE_BOOT_TYPE APPLE_BOOT_TYPE = 0"
    by (subst strcmp_eq_0_iff) (simp_all add: APPLE_BOOT_TYPE_def)
  have step: "sb_loop disk secsize k maxpart = (if mp_type ?b = APPLE_BOOT_TYPE
      then Inr (k, unat (mp_start_block ?b) * (secsize div 512)) else sb_loop disk secsize (Suc k) (int n))"
    by (subst sb_loop.simps) (use b in_range cmp self Suc.prems(3) in \<open>simp add: Let_def\<close>)
  have up: "[k..<Suc n] = k # [Suc k..<Suc n]" using kn by (intro upt_conv_Cons) simp
  show ?case
  proof (cases "mp_type ?b = APPLE_BOOT_TYPE")
    case True
    then show ?thesis unfolding step up by simp
  next
    case False
    have "sb_loop disk secsize (Suc k) (int n) =
      (case find (\<lambda>k. mp_type (map_sector disk secsize k) = APPLE_BOOT_TYPE) [Suc k..<Suc n] of
         None \<Rightarrow> Inl ''No Apple_Bootstrap partition found''
       | Some k \<Rightarrow> Inr (k, unat (mp_start_block (map_sector disk secsize k)) * (secsize div 512)))"
      using Suc.hyps(2) Suc.prems kn by (intro Suc.hyps(1)) simp_all
    then show ?thesis using False unfolding step up by simp
  qed
qed

text \<open>
  Property C26: on a partition map whose entries agree on their number the installer finds the first
  Apple_Bootstrap partition, or reports that there is none, and its search ends.
\<close>

theorem bootstrap_found:
  assumes "disk_map disk secsize n"
  shows "sb_loop disk secsize 1 1 =
    (case find (\<lambda>k. mp_type (map_sector disk secsize k) = APPLE_BOOT_TYPE) [1..<Suc n] of
       None \<Rightarrow> Inl ''No Apple_Bootstrap partition found''
     | Some k \<Rightarrow> Inr (k, unat (mp_start_block (map_sector disk secsize k)) * (secsize div 512)))"
  using assms by (rule sb_loop_finds) simp_all

definition demo_entry :: "u32 \<Rightarrow> string \<Rightarrow> bytes" where
  "demo_entry start t = [0x50, 0x4d, 0, 0, 0, 0, 0, 2] @ bytes32 start @ replicate 36 0 @ map byte t @ replicate (464 - length t) 0"

text \<open>
  A disk that can be booted from: a driver block, a map of \<open>n\<close> entries, and the first bootstrap
  partition in entry \<open>k\<close>; and the byte where that partition starts.
\<close>

definition boot_disk :: "bytes \<Rightarrow> nat \<Rightarrow> nat \<Rightarrow> bool" where
  "boot_disk disk n k \<longleftrightarrow> 512 \<le> length disk \<and> md_signature disk = MAC_DRIVER_MAGIC
     \<and> 512 dvd unat (md_block_size disk) \<and> md_block_size disk \<noteq> 0 \<and> disk_map disk (unat (md_block_size disk)) n
     \<and> find (\<lambda>i. mp_type (mac_entry disk i) = APPLE_BOOT_TYPE) [1..<Suc n] = Some k"

definition boot_start :: "bytes \<Rightarrow> nat \<Rightarrow> nat" where
  "boot_start disk k = unat (fst (mac_place disk k))"

lemma map_sector_entry: "map_sector disk (unat (md_block_size disk)) k = mac_entry disk k"
  by (simp add: map_sector_def mac_entry_def)

lemma boot_start_product: "boot_start disk k = unat (mp_start_block (mac_entry disk k)) * unat (md_block_size disk)"
proof -
  have "unat (mp_start_block (mac_entry disk k)) < 2 ^ 32" "unat (md_block_size disk) < 2 ^ 16"
    using unat_lt [of "mp_start_block (mac_entry disk k)"] unat_lt [of "md_block_size disk"] by simp_all
  then have "unat (mp_start_block (mac_entry disk k)) * unat (md_block_size disk) < 2 ^ 32 * 2 ^ 16"
    by (intro mult_strict_mono) auto
  then have "unat (mp_start_block (mac_entry disk k)) * unat (md_block_size disk) < 2 ^ LENGTH(64)" by simp
  then show ?thesis unfolding boot_start_def mac_place_def Let_def fst_conv by (rule unat_word_of_nat_small [OF order.strict_trans2]) simp
qed

definition demo_boot_map :: bytes where
  "demo_boot_map = [0x45, 0x52, 2, 0] @ replicate 508 0 @ demo_entry 1 ''Apple_partition_map'' @ demo_entry 3 ''Apple_Bootstrap'' @ replicate 512 7"

lemma demo_entry_fields:
  "length t \<le> 464 \<Longrightarrow> length (demo_entry a t) = 512"
  "mp_signature (demo_entry a t) = MAC_PARTITION_MAGIC" "sint (mp_map_count (demo_entry a t)) = 2"
  "mp_start_block (demo_entry a t) = a"
  "length t < 464 \<Longrightarrow> NUL \<notin> set t \<Longrightarrow> mp_type (demo_entry a t) = t"
proof -
  show "mp_signature (demo_entry a t) = MAC_PARTITION_MAGIC" "sint (mp_map_count (demo_entry a t)) = 2" "mp_start_block (demo_entry a t) = a"
    by (simp_all add: demo_entry_def mp_signature_def mp_map_count_def mp_start_block_def MAC_PARTITION_MAGIC_def
      be16_def be32_def be_nat_def slice_def) (simp add: be_nat_bytes32 [unfolded be_nat_def])
  show "length (demo_entry a t) = 512" if "length t \<le> 464" using that by (simp add: demo_entry_def)
  show "mp_type (demo_entry a t) = t" if "length t < 464" "NUL \<notin> set t"
  proof -
    have "drop 48 (demo_entry a t) = map byte t @ 0 # replicate (463 - length t) 0"
      using that by (simp add: demo_entry_def replicate_Suc [symmetric] del: replicate_Suc)
    then show ?thesis using that by (simp add: mp_type_def)
  qed
qed

lemma demo_boot_map_facts:
  "length demo_boot_map = 2048" "md_signature demo_boot_map = MAC_DRIVER_MAGIC" "md_block_size demo_boot_map = 512"
  "mac_entry demo_boot_map 1 = demo_entry 1 ''Apple_partition_map''" "mac_entry demo_boot_map 2 = demo_entry 3 ''Apple_Bootstrap''"
  "boot_start demo_boot_map 2 = 1536"
proof -
  show hd: "length demo_boot_map = 2048" "md_signature demo_boot_map = MAC_DRIVER_MAGIC" "md_block_size demo_boot_map = 512"
    by (simp_all add: demo_boot_map_def demo_entry_fields md_signature_def md_block_size_def be16_def be_nat_def slice_def MAC_DRIVER_MAGIC_def)
  have l: "length (demo_entry 1 ''Apple_partition_map'') = 512" "length (demo_entry 3 ''Apple_Bootstrap'') = 512"
    by (simp_all add: demo_entry_fields)
  show "mac_entry demo_boot_map 1 = demo_entry 1 ''Apple_partition_map''" "mac_entry demo_boot_map 2 = demo_entry 3 ''Apple_Bootstrap''"
    unfolding mac_entry_def hd by (simp_all add: demo_boot_map_def slice_def l)
  then show "boot_start demo_boot_map 2 = 1536" by (simp add: boot_start_product hd demo_entry_fields)
qed

lemma demo_boot_disk: "boot_disk demo_boot_map 2 2"
proof -
  note f = demo_boot_map_facts
  have "disk_map demo_boot_map 512 2"
    unfolding disk_map_def
  proof (intro conjI ballI)
    fix i :: nat assume "i \<in> {1..2}"
    then have i: "i = 1 \<or> i = 2" by auto
    then show "i * 512 + 512 \<le> length demo_boot_map" "mp_signature (map_sector demo_boot_map 512 i) = MAC_PARTITION_MAGIC"
      "sint (mp_map_count (map_sector demo_boot_map 512 i)) = int 2"
      using map_sector_entry [of demo_boot_map i] by (auto simp: f f(4) [simplified] demo_entry_fields)
  qed simp
  moreover have "find (\<lambda>i. mp_type (mac_entry demo_boot_map i) = APPLE_BOOT_TYPE) [1..<Suc 2] = Some 2"
  proof -
    have up: "[1..<Suc 2] = [1, 2]" by (simp add: upt_rec)
    show ?thesis unfolding up find.simps f by (simp add: demo_entry_fields APPLE_BOOT_TYPE_def)
  qed
  ultimately show ?thesis using f by (simp add: boot_disk_def)
qed

theorem bootstrap_found_witness: "sb_loop demo_boot_map 512 1 1 = Inr (2, 3)"
proof -
  have "disk_map demo_boot_map 512 2" using demo_boot_disk demo_boot_map_facts(3) by (simp add: boot_disk_def)
  from bootstrap_found [OF this] show ?thesis
    using demo_boot_disk map_sector_entry [of demo_boot_map] demo_boot_map_facts by (simp add: boot_disk_def demo_entry_fields)
qed

section \<open>What is written\<close>

lemma overwrite_put: "off + length d \<le> length disk \<Longrightarrow> overwrite off d disk = put_bytes off d disk"
  by (simp add: overwrite_def put_bytes_def Let_def)

lemma nth_put_other:
  "off + length d \<le> length bs \<Longrightarrow> i < off \<or> off + length d \<le> i \<Longrightarrow> i < length bs \<Longrightarrow> put_bytes off d bs ! i = bs ! i"
  by (auto simp: put_bytes_def nth_append)

lemma staged:
  assumes "files h device = Some disk" "files h name = Some code" "files h p = Some script" "\<not> test_mode h"
    and "stage_image code (Some script) = Inr img" "doff * 512 + length img \<le> length disk"
  shows "install_stage device name (Some p) doff h =
    (Inr (length img), h\<lparr>files := (files h)(device \<mapsto> put_bytes (doff * 512) img disk)\<rparr>)"
  using assms by (simp add: install_stage_def bnd_def ret_def open_file_def do_write_def overwrite_put)

lemma marked:
  assumes "files h device = Some disk" "\<not> test_mode h" "k \<noteq> 0" "k * secsize + 512 \<le> length disk"
  shows "make_bootable device secsize k sz base h =
    (Inr (), h\<lparr>files := (files h)(device \<mapsto> put_bytes (k * secsize) (mark_entry sz base (map_sector disk secsize k)) disk)\<rparr>)"
proof -
  have l: "length (map_sector disk secsize k) = 512" using assms(4) by (simp add: map_sector_def)
  then have s: "sector (k * secsize) disk = Some (map_sector disk secsize k)" by (simp add: sector_def map_sector_def Let_def)
  have "length (mark_entry sz base (map_sector disk secsize k)) = 512" using mark_entry_fields(1) [OF l] .
  then show ?thesis using assms s by (simp add: make_bootable_def bnd_def ret_def open_file_def do_write_def overwrite_put)
qed

lemma superblock_read:
  assumes "files h device = Some disk" "512 \<le> length disk" "md_signature (take 512 disk) = MAC_DRIVER_MAGIC"
    and "sb_loop disk (unat (md_block_size (take 512 disk))) 1 1 = Inr (k, doff)"
  shows "read_sb device h = (Inr (k, doff, unat (md_block_size (take 512 disk))), h)"
proof -
  have "sector 0 disk = Some (take 512 disk)" using assms(2) by (simp add: sector_def slice_def Let_def)
  then show ?thesis using assms by (simp add: read_sb_def bnd_def ret_def open_file_def Let_def)
qed

lemma boot_disk_entry:
  assumes "boot_disk disk n k"
  shows "1 \<le> k \<and> k \<le> n" and "\<And>i. 1 \<le> i \<Longrightarrow> i \<le> n \<Longrightarrow> i * unat (md_block_size disk) + 512 \<le> Suc n * unat (md_block_size disk)"
    and "Suc n * unat (md_block_size disk) \<le> length disk \<Longrightarrow> 1 \<le> i \<Longrightarrow> i \<le> n \<Longrightarrow> length (mac_entry disk i) = 512"
    and "512 \<le> unat (md_block_size disk)" and "md_block_size (take 512 disk) = md_block_size disk"
    "md_signature (take 512 disk) = md_signature disk"
proof -
  note b = assms [unfolded boot_disk_def]
  have "k \<in> set [1..<Suc n]"
    using b unfolding find_Some_iff by (auto simp only: nth_mem)
  then show "1 \<le> k \<and> k \<le> n" by auto
  have "unat (md_block_size disk) \<noteq> 0" using b by (simp add: unat_eq_zero)
  then show bs: "512 \<le> unat (md_block_size disk)" using b by (auto intro: dvd_imp_le)
  show e: "i * unat (md_block_size disk) + 512 \<le> Suc n * unat (md_block_size disk)" if "1 \<le> i" "i \<le> n" for i
  proof -
    have "i * unat (md_block_size disk) \<le> n * unat (md_block_size disk)" using that by (intro mult_le_mono1)
    then show ?thesis unfolding mult_Suc using bs by linarith
  qed
  show "length (mac_entry disk i) = 512" if "Suc n * unat (md_block_size disk) \<le> length disk" "1 \<le> i" "i \<le> n"
    using e [OF that(2,3)] that(1) by (simp add: mac_entry_def)
  show "md_block_size (take 512 disk) = md_block_size disk" "md_signature (take 512 disk) = md_signature disk"
    using slice_slice [of 0 2 512 0 disk] slice_slice [of 2 2 512 0 disk]
    by (simp_all add: md_block_size_def md_signature_def be16_def slice_def [of 0 512] numeral_2_eq_2)
qed

text \<open>The disk after an installation of \<open>img\<close>.\<close>

definition installed_disk :: "bytes \<Rightarrow> nat \<Rightarrow> bytes \<Rightarrow> bytes" where
  "installed_disk disk k img =
     put_bytes (k * unat (md_block_size disk)) (mark_entry (length img) IQUIK_BASE (mac_entry disk k))
       (put_bytes (boot_start disk k) img disk)"

lemma installed_disk_parts:
  assumes b: "boot_disk disk n k" and at: "Suc n * unat (md_block_size disk) \<le> boot_start disk k" "boot_start disk k + length img \<le> length disk"
  shows "length (installed_disk disk k img) = length disk"
    and "slice (boot_start disk k) (length img) (installed_disk disk k img) = img"
    and "md_block_size (installed_disk disk k img) = md_block_size disk"
    and "md_signature (installed_disk disk k img) = md_signature disk"
    and "mac_entry (installed_disk disk k img) k = mark_entry (length img) IQUIK_BASE (mac_entry disk k)"
    and "\<And>i. 1 \<le> i \<Longrightarrow> i \<le> n \<Longrightarrow> i \<noteq> k \<Longrightarrow> mac_entry (installed_disk disk k img) i = mac_entry disk i"
    and "\<And>i. i < length disk \<Longrightarrow> i < k * unat (md_block_size disk) \<or> k * unat (md_block_size disk) + 512 \<le> i \<Longrightarrow>
      i < boot_start disk k \<or> boot_start disk k + length img \<le> i \<Longrightarrow> installed_disk disk k img ! i = disk ! i"
proof -
  note e = boot_disk_entry [OF b]
  have k: "1 \<le> k" "k \<le> n" using e(1) by simp_all
  have le: "length (mac_entry disk k) = 512" using e(3) [OF _ k] at by simp
  let ?bs = "unat (md_block_size disk)" and ?m = "mark_entry (length img) IQUIK_BASE (mac_entry disk k)"
  let ?d1 = "put_bytes (boot_start disk k) img disk" and ?d2 = "installed_disk disk k img"
  have lm: "length ?m = 512" using mark_entry_fields(1) [OF le] .
  have l1: "length ?d1 = length disk" using at(2) by (rule length_put_bytes)
  have kb: "k * ?bs + 512 \<le> boot_start disk k" using e(2) [OF k] at(1) by linarith
  then have in1: "k * ?bs + length ?m \<le> length ?d1" using lm l1 at(2) by linarith
  show "length ?d2 = length disk" using length_put_bytes [OF in1] l1 by (simp add: installed_disk_def)
  have kbs: "?bs \<le> k * ?bs" using k(1) by simp
  have out: "slice i m ?d2 = slice i m disk" if "i + m \<le> k * ?bs \<or> k * ?bs + 512 \<le> i" "i + m \<le> boot_start disk k" for i m
    using that in1 lm at(2) by (simp add: installed_disk_def slice_put_other)
  have head: "2 \<le> k * ?bs" "4 \<le> k * ?bs" "4 \<le> boot_start disk k" "2 \<le> boot_start disk k" using kbs e(4) kb by linarith+
  show bs: "md_block_size ?d2 = md_block_size disk"
    unfolding md_block_size_def by (rule be16_slice, rule out) (use head in simp_all)
  show "md_signature ?d2 = md_signature disk"
    unfolding md_signature_def by (rule be16_slice, rule out) (use head in simp_all)
  show "slice (boot_start disk k) (length img) ?d2 = img"
    using in1 lm kb at(2) by (simp add: installed_disk_def slice_put_other slice_put_same)
  show "mac_entry ?d2 k = ?m" unfolding mac_entry_def bs
    using slice_put_same [OF in1] lm by (simp add: installed_disk_def mac_entry_def)
  show "mac_entry ?d2 i = mac_entry disk i" if i: "1 \<le> i" "i \<le> n" "i \<noteq> k" for i
  proof -
    have "i * ?bs + ?bs \<le> k * ?bs \<or> k * ?bs + ?bs \<le> i * ?bs"
      using mult_le_mono1 [of "Suc i" k ?bs] mult_le_mono1 [of "Suc k" i ?bs] i(3) by fastforce
    then have "i * ?bs + 512 \<le> k * ?bs \<or> k * ?bs + 512 \<le> i * ?bs" using e(4) by linarith
    then show ?thesis unfolding mac_entry_def bs using e(2) [OF i(1,2)] at(1) by (intro out) linarith+
  qed
  show "?d2 ! i = disk ! i" if "i < length disk" "i < k * ?bs \<or> k * ?bs + 512 \<le> i" "i < boot_start disk k \<or> boot_start disk k + length img \<le> i" for i
    using that in1 lm l1 at(2) by (simp add: installed_disk_def nth_put_other)
qed

lemma install_run:
  assumes dev: "files h device = Some disk" and code: "files h name = Some code" and script: "files h p = Some script"
    and opts: "o' = parse_opts as" "o_device o' = Some device" "o_preboot o' = Some p" "\<not> o_usage o'" "\<not> o_version o'" "\<not> o_test o'"
      "name = chrootcpy (case o_root o' of Some r \<Rightarrow> Some r | None \<Rightarrow> root_env) (o_name o')"
    and img: "stage_image code (Some script) = Inr img"
    and b: "boot_disk disk n k" and at: "Suc n * unat (md_block_size disk) \<le> boot_start disk k" "boot_start disk k + length img \<le> length disk"
  shows "install_main dev_of names stat root_env as False h =
    (Inr 0, h\<lparr>test_mode := False, files := (files h)(device \<mapsto> installed_disk disk k img)\<rparr>)"
proof -
  note e = boot_disk_entry [OF b] and b' = b [unfolded boot_disk_def]
  have k: "1 \<le> k" "k \<le> n" using e(1) by simp_all
  let ?bs = "unat (md_block_size disk)" and ?start = "boot_start disk k"
  let ?h0 = "h\<lparr>test_mode := False\<rparr>" and ?d1 = "put_bytes (boot_start disk k) img disk"
  let ?h1 = "?h0\<lparr>files := (files h)(device \<mapsto> ?d1)\<rparr>"
  have kb: "k * ?bs + 512 \<le> ?start" using e(2) [OF k] at(1) by linarith
  have l1: "length ?d1 = length disk" using at(2) by (rule length_put_bytes)
  obtain c where c: "?bs = 512 * c" using b' by (auto elim: dvdE)
  define doff where "doff = unat (mp_start_block (mac_entry disk k)) * (?bs div 512)"
  have start: "doff * 512 = ?start" unfolding boot_start_product doff_def c by simp
  have "sb_loop disk ?bs 1 1 = Inr (k, doff)"
    using sb_loop_finds [of disk ?bs n 1 1] b' by (simp add: map_sector_entry doff_def)
  then have r: "read_sb device ?h0 = (Inr (k, doff, ?bs), ?h0)"
    using superblock_read [of ?h0 device disk k doff] dev b' e(5,6) by simp
  have s: "install_stage device name (Some p) doff ?h0 = (Inr (length img), ?h1)"
    using staged [of ?h0 device disk name code p script img doff] dev code script img at(2) start by simp
  have "map_sector ?d1 ?bs k = mac_entry disk k"
    using kb at(2) by (simp add: map_sector_def mac_entry_def slice_put_other)
  then have m: "make_bootable device ?bs k (length img) IQUIK_BASE ?h1 =
      (Inr (), ?h1\<lparr>files := (files h)(device \<mapsto> installed_disk disk k img)\<rparr>)"
    using marked [of ?h1 device ?d1 k ?bs "length img" IQUIK_BASE] k kb l1 at(2) by (simp add: installed_disk_def)
  show ?thesis
    using opts code r s m
    by (simp add: install_main_def opts(1) [symmetric] bnd_def ret_def modify_def open_file_def Let_def)
qed

text \<open>
  Property C20: a run of the installer with a preboot script, from its options on: the bootstrap
  partition's first bytes become the boot code up to its magic word, then the script, then a zero
  byte, as the loader's start-up code expects it, and apart from them and the partition's map
  entry no byte of the disk and no other file changes.
\<close>

theorem installed:
  assumes "files h device = Some disk" and "files h name = Some code" and "files h p = Some script"
    and "o' = parse_opts as" and "o_device o' = Some device" and "o_preboot o' = Some p"
    and "\<not> o_usage o'" and "\<not> o_version o'" and "\<not> o_test o'"
    and "name = chrootcpy (case o_root o' of Some r \<Rightarrow> Some r | None \<Rightarrow> root_env) (o_name o')"
    and "4 < length code" and "be32 code (length code - 4) = PREBOOT_MAGIC" and "script \<noteq> []"
    and "img = take (length code - 4) code @ script @ [0]"
    and "boot_disk disk n k" and "Suc n * unat (md_block_size disk) \<le> boot_start disk k" and "boot_start disk k + length img \<le> length disk"
  shows "\<exists>h' disk'. install_main dev_of names stat root_env as False h = (Inr 0, h')
    \<and> files h' = (files h)(device \<mapsto> disk') \<and> length disk' = length disk
    \<and> slice (boot_start disk k) (length img) disk' = img
    \<and> (\<forall>i < length disk. (i < k * unat (md_block_size disk) \<or> k * unat (md_block_size disk) + 512 \<le> i)
        \<and> (i < boot_start disk k \<or> boot_start disk k + length img \<le> i) \<longrightarrow> disk' ! i = disk ! i)"
proof -
  have "stage_image code (Some script) = Inr img" using assms(11-14) by (simp add: stage_image_def Let_def)
  note run = install_run [OF assms(1-10) this assms(15-17)]
  show ?thesis using run installed_disk_parts(1,2,7) [OF assms(15-17)]
    by (intro exI [of _ "h\<lparr>test_mode := False, files := (files h)(device \<mapsto> installed_disk disk k img)\<rparr>"]
        exI [of _ "installed_disk disk k img"]) simp
qed

definition demo_host :: host where
  "demo_host = \<lparr>files = [''/dev/sda'' \<mapsto> demo_boot_map, ''iquik.b'' \<mapsto> [1, 2, 0x00, 0xB0, 0x07, 0xED], ''script'' \<mapsto> map byte ''go''],
     test_mode = False\<rparr>"

definition demo_args :: "(char \<times> string) list" where
  "demo_args = [(CHR ''d'', ''/dev/sda''), (CHR ''b'', ''iquik.b''), (CHR ''p'', ''script'')]"

lemma demo_install_ready:
  "files demo_host ''/dev/sda'' = Some demo_boot_map" "files demo_host ''iquik.b'' = Some [1, 2, 0x00, 0xB0, 0x07, 0xED]"
  "files demo_host ''script'' = Some (map byte ''go'')"
  "o_device (parse_opts demo_args) = Some ''/dev/sda''" "o_preboot (parse_opts demo_args) = Some ''script''"
  "\<not> o_usage (parse_opts demo_args)" "\<not> o_version (parse_opts demo_args)" "\<not> o_test (parse_opts demo_args)"
  "''iquik.b'' = chrootcpy (case o_root (parse_opts demo_args) of Some r \<Rightarrow> Some r | None \<Rightarrow> None) (o_name (parse_opts demo_args))"
  "be32 [1, 2, 0x00, 0xB0, 0x07, 0xED] 2 = PREBOOT_MAGIC"
  by (simp_all add: demo_host_def demo_args_def parse_opts_def set_opt_def opts0_def chrootcpy_def
      be32_def be_nat_def slice_def PREBOOT_MAGIC_def)

lemma demo_image:
  "4 < length ([1, 2, 0x00, 0xB0, 0x07, 0xED] :: bytes)"
  "be32 [1, 2, 0x00, 0xB0, 0x07, 0xED] (length ([1, 2, 0x00, 0xB0, 0x07, 0xED] :: bytes) - 4) = PREBOOT_MAGIC"
  "map byte ''go'' \<noteq> []"
  "[1, 2] @ map byte ''go'' @ [0] = take (length ([1, 2, 0x00, 0xB0, 0x07, 0xED] :: bytes) - 4) [1, 2, 0x00, 0xB0, 0x07, 0xED] @ map byte ''go'' @ [0]"
  "Suc 2 * unat (md_block_size demo_boot_map) \<le> boot_start demo_boot_map 2"
  "boot_start demo_boot_map 2 + length ([1, 2] @ map byte ''go'' @ [0 :: u8]) \<le> length demo_boot_map"
  using demo_install_ready(10) [unfolded numeral_2_eq_2] by (simp_all add: demo_boot_map_facts)

theorem installed_witness:
  "\<exists>h' disk'. install_main (\<lambda>_. 0) None (\<lambda>_. None) None demo_args False demo_host = (Inr 0, h')
    \<and> files h' = (files demo_host)(''/dev/sda'' \<mapsto> disk') \<and> slice 1536 5 disk' = [1, 2] @ map byte ''go'' @ [0]"
proof -
  note r = demo_install_ready and c = demo_image
  have "length ([1, 2] @ map byte ''go'' @ [0 :: u8]) = 5" by simp
  moreover obtain h' disk' where "install_main (\<lambda>_. 0) None (\<lambda>_. None) None demo_args False demo_host = (Inr 0, h')"
    "files h' = (files demo_host)(''/dev/sda'' \<mapsto> disk')"
    "slice (boot_start demo_boot_map 2) (length ([1, 2] @ map byte ''go'' @ [0])) disk' = [1, 2] @ map byte ''go'' @ [0]"
    using installed [where dev_of = "\<lambda>_. 0" and names = None and stat = "\<lambda>_. None", OF r(1-3) refl r(4-9) c(1-4) demo_boot_disk c(5,6)]
    by blast
  ultimately show ?thesis unfolding demo_boot_map_facts(6) by metis
qed

section \<open>From the installer to the loader\<close>

lemma find_append_None: "find P xs = None \<Longrightarrow> find P (xs @ ys) = find P ys"
  by (induction xs) (auto split: if_splits)

lemma installed_map:
  assumes b: "boot_disk disk n k" and at: "Suc n * unat (md_block_size disk) \<le> boot_start disk k" "boot_start disk k + length img \<le> length disk"
    and first: "\<forall>i. 1 \<le> i \<and> i < k \<longrightarrow> \<not> mac_bootable (mac_entry disk i)"
  shows "mac_map (installed_disk disk k img) n" and "mac_find (installed_disk disk k img) n 0 = Some (mac_place disk k)"
proof -
  let ?d = "installed_disk disk k img"
  note parts = installed_disk_parts [OF b at] and e = boot_disk_entry [OF b] and b' = b [unfolded boot_disk_def disk_map_def map_sector_entry]
  have le: "length (mac_entry disk i) = 512" if "1 \<le> i" "i \<le> n" for i using e(3) [OF _ that] at by simp
  note m = marked_entry [OF le, of k "length img" IQUIK_BASE, unfolded Let_def]
  have entry: "length (mac_entry ?d i) = 512 \<and> mp_signature (mac_entry ?d i) = MAC_PARTITION_MAGIC
      \<and> sint (mp_map_count (mac_entry ?d i)) = int n" if "1 \<le> i" "i \<le> n" for i
    using parts(5) parts(6) [OF that] m e(1) le [OF that] b' that by (cases "i = k") auto
  have n: "1 \<le> n" using e(1) by simp
  then have c: "sint (mp_map_count (mac_entry ?d 1)) = int n" using entry by simp
  then have lt: "n < 2 ^ 31" using sint_lt [of "mp_map_count (mac_entry ?d 1)"] by simp
  have "unat (mp_map_count (mac_entry ?d 1)) = n"
  proof -
    have "mp_map_count (mac_entry ?d 1) = word_of_int (int n)" unfolding c [symmetric] by simp
    then show ?thesis using lt by (simp add: unat_word_of_nat_small)
  qed
  then show "mac_map ?d n" using entry n lt parts(1,4) b' by (simp add: mac_map_def)
  have k: "1 \<le> k" "k \<le> n" using e(1) by simp_all
  have split: "[1..<Suc n] = [1..<k] @ k # [Suc k..<Suc n]"
    using k upt_add_eq_append [of 1 k "Suc n - k"] upt_conv_Cons [of k "Suc n"] by simp
  have "mac_bootable (mac_entry ?d k)" using m k parts(5) by simp
  moreover have "\<not> mac_bootable (mac_entry ?d i)" if "i \<in> set [1..<k]" for i using first parts(6) [of i] that k by simp
  then have "find (\<lambda>i. mac_bootable (mac_entry ?d i)) [1..<k] = None" by (simp add: find_None_iff)
  ultimately have "find (\<lambda>i. mac_bootable (mac_entry ?d i)) ([1..<k] @ k # [Suc k..<Suc n]) = Some k"
    by (simp add: find_append_None)
  then show "mac_find ?d n 0 = Some (mac_place disk k)"
    unfolding mac_find_def split using m k parts(3,5) by (simp add: mac_place_def Let_def)
qed

text \<open>
  Property C29: the disk the installer leaves is one the loader finds its partition on: asked for
  partition 0, which it is when the firmware names none, it takes the bootstrap partition that
  was written, unless the map had an entry before it that was bootable already.
\<close>

theorem installed_disk_boots:
  assumes "files h device = Some disk" and "files h name = Some code" and "files h p = Some script"
    and "o' = parse_opts as" and "o_device o' = Some device" and "o_preboot o' = Some p"
    and "\<not> o_usage o'" and "\<not> o_version o'" and "\<not> o_test o'"
    and "name = chrootcpy (case o_root o' of Some r \<Rightarrow> Some r | None \<Rightarrow> root_env) (o_name o')"
    and "4 < length code" and "be32 code (length code - 4) = PREBOOT_MAGIC" and "script \<noteq> []"
    and "img = take (length code - 4) code @ script @ [0]"
    and "boot_disk disk n k" and "Suc n * unat (md_block_size disk) \<le> boot_start disk k" and "boot_start disk k + length img \<le> length disk"
    and "\<forall>i. 1 \<le> i \<and> i < k \<longrightarrow> \<not> mac_bootable (mac_entry disk i)"
  shows "\<exists>h' disk'. install_main dev_of names stat root_env as False h = (Inr 0, h') \<and> files h' device = Some disk'
    \<and> (\<forall>(fw :: 's firmware) dev pos (w :: ('s, 'z) machine_scheme). block_device fw dev disk' pos \<longrightarrow> Suc n \<le> budget w \<longrightarrow>
        (\<exists>s'. read_mac_partition fw dev 0 w = (Inr (mac_place disk k), w\<lparr>fws := s'\<rparr>)))"
proof -
  have "stage_image code (Some script) = Inr img" using assms(11-14) by (simp add: stage_image_def Let_def)
  note run = install_run [OF assms(1-10) this assms(15-17)] and map = installed_map [OF assms(15-18)]
  show ?thesis
  proof (rule exI, rule exI, intro conjI allI impI)
    show "install_main dev_of names stat root_env as False h
      = (Inr 0, h\<lparr>test_mode := False, files := (files h)(device \<mapsto> installed_disk disk k img)\<rparr>)" by (rule run)
  next
    show "files (h\<lparr>test_mode := False, files := (files h)(device \<mapsto> installed_disk disk k img)\<rparr>) device
        = Some (installed_disk disk k img)" by simp
  next
    fix fw :: "'s firmware" and dev pos and w :: "('s, 'z) machine_scheme"
    assume "block_device fw dev (installed_disk disk k img) pos" "Suc n \<le> budget w"
    from read_mac_finds [OF this(1) map(1) this(2), of 0] map(2)
    show "\<exists>s'. read_mac_partition fw dev 0 w = (Inr (mac_place disk k), w\<lparr>fws := s'\<rparr>)" by simp
  qed
qed
lemma demo_boot_place: "mac_place demo_boot_map 2 = (1536, 0)"
proof -
  have "mp_block_count (demo_entry 3 ''Apple_Bootstrap'') = 0"
    by (simp add: demo_entry_def mp_block_count_def be32_def be_nat_def slice_def bytes32_def) (simp add: numeral_eq_Suc)
  then show ?thesis by (simp add: mac_place_def Let_def demo_boot_map_facts demo_entry_fields)
qed

theorem installed_disk_boots_witness:
  "\<exists>h' disk'. install_main (\<lambda>_. 0) None (\<lambda>_. None) None demo_args False demo_host = (Inr 0, h') \<and> files h' ''/dev/sda'' = Some disk'
    \<and> (\<exists>s'. read_mac_partition (ram_disk disk') 7 0 (demo_machine 0) = (Inr (1536, 0), (demo_machine 0)\<lparr>fws := s'\<rparr>))"
proof -
  note r = demo_install_ready and c = demo_image
  have "mp_status (demo_entry 1 ''Apple_partition_map'') = 0"
    by (simp add: demo_entry_def mp_status_def be32_def be_nat_def slice_def bytes32_def) (simp add: numeral_eq_Suc)
  then have "\<not> mac_bootable (mac_entry demo_boot_map 1)" unfolding mac_bootable_def demo_boot_map_facts(4) by simp
  then have first: "\<forall>i. 1 \<le> i \<and> i < 2 \<longrightarrow> \<not> mac_bootable (mac_entry demo_boot_map i)"
    by (metis One_nat_def less_2_cases not_one_le_zero)
  obtain h' disk' where i: "install_main (\<lambda>_. 0) None (\<lambda>_. None) None demo_args False demo_host = (Inr 0, h')"
    "files h' ''/dev/sda'' = Some disk'"
    and b: "\<forall>(fw :: nat firmware) dev pos (w :: nat machine). block_device fw dev disk' pos \<longrightarrow> Suc 2 \<le> budget w \<longrightarrow>
      (\<exists>s'. read_mac_partition fw dev 0 w = (Inr (mac_place demo_boot_map 2), w\<lparr>fws := s'\<rparr>))"
    using installed_disk_boots [where ?'s = nat and ?'z = unit and dev_of = "\<lambda>_. 0" and names = None and stat = "\<lambda>_. None",
      OF r(1-3) refl r(4-9) c(1-4) demo_boot_disk c(5,6) first] by blast
  have "Suc 2 \<le> budget (demo_machine 0)" by (simp add: demo_machine_def)
  with b ram_disk_device [of disk' 7] i show ?thesis unfolding demo_boot_place by blast
qed
section \<open>The path of a device\<close>

lemma first_slash_bound: "first_slash b p = Some k \<Longrightarrow> p \<le> k \<and> k < length b \<and> b ! k = CHR ''/''"
proof -
  assume q: "first_slash b p = Some k"
  then have m: "CHR ''/'' \<in> set (drop p b)" and k: "k = p + length (takeWhile (\<lambda>c. c \<noteq> CHR ''/'') (drop p b))"
    by (auto simp: first_slash_def split: if_splits)
  have "length (takeWhile (\<lambda>c. c \<noteq> CHR ''/'') (drop p b)) < length (drop p b)"
    using m by (metis (mono_tags, lifting) length_takeWhile_le le_neq_implies_less set_takeWhileD takeWhile_eq_take take_all_iff order_refl)
  moreover from this have "drop p b ! length (takeWhile (\<lambda>c. c \<noteq> CHR ''/'') (drop p b)) = CHR ''/''"
    using nth_length_takeWhile by blast
  ultimately show ?thesis using k by simp
qed

text \<open>
  Without links a search of \<open>resolve_to_dev\<close> that ends well gives the end of the path behind the
  first component that is on the device, from its slash on, and one as many steps long as the
  path has characters ends.
\<close>

lemma resolve_plain:
  assumes "\<And>f d l. lstat f = Some (d, l) \<Longrightarrow> \<not> l" and "p \<le> length b" "length b < n + p"
  shows "\<exists>r. resolve_to_dev lstat readlink dev b p n = Some r \<and> (case r of
      Inl e \<Rightarrow> True
    | Inr s \<Rightarrow> \<exists>k l. p \<le> k \<and> k < length b \<and> b ! k = CHR ''/'' \<and> s = drop k b
        \<and> lstat (if take k b = [] then ''/'' else take k b) = Some (dev, l))"
  using assms(2,3)
proof (induction n arbitrary: p)
  case (Suc n)
  note step = resolve_to_dev.simps(2) [of lstat readlink dev b p n, unfolded Let_def]
    and cases = option.case prod.case if_True if_False simp_thms
  show ?case
  proof (cases "first_slash b p")
    case q: None
    show ?thesis
    proof (cases "lstat (if b = [] then ''/'' else b)")
      case None
      have "resolve_to_dev lstat readlink dev b p (Suc n) = Some (Inl ''Cannot stat'')"
        by (simp only: step q None cases)
      then show ?thesis by simp
    next
      case st: (Some dl)
      obtain d l where dl: "dl = (d, l)" by (cases dl)
      then have l: "\<not> l" using assms(1) st by blast
      have "resolve_to_dev lstat readlink dev b p (Suc n) = Some (Inl ''store through null'')"
        by (simp only: step q st dl l cases if_cancel)
      then show ?thesis by simp
    qed
  next
    case q: (Some k)
    note k = first_slash_bound [OF q]
    show ?thesis
    proof (cases "lstat (if take k b = [] then ''/'' else take k b)")
      case None
      have "resolve_to_dev lstat readlink dev b p (Suc n) = Some (Inl ''Cannot stat'')"
        by (simp only: step q None cases)
      then show ?thesis by simp
    next
      case st: (Some dl)
      obtain d l where dl: "dl = (d, l)" by (cases dl)
      then have l: "\<not> l" using assms(1) st by blast
      show ?thesis
      proof (cases "d = dev")
        case True
        have "resolve_to_dev lstat readlink dev b p (Suc n) = Some (Inr (drop k b))"
          by (simp only: step q st dl True cases)
        then show ?thesis using k st [unfolded dl True] by (simp only: option.inject sum.case simp_thms) blast
      next
        case False
        have "k + 1 \<le> length b" "length b < n + (k + 1)" using Suc.prems k by simp_all
        from Suc.IH [OF this] obtain r where r: "resolve_to_dev lstat readlink dev b (k + 1) n = Some r"
          "case r of Inl e \<Rightarrow> True | Inr s \<Rightarrow> \<exists>k' l. k + 1 \<le> k' \<and> k' < length b \<and> b ! k' = CHR ''/'' \<and> s = drop k' b
             \<and> lstat (if take k' b = [] then ''/'' else take k' b) = Some (dev, l)"
          by blast
        have "resolve_to_dev lstat readlink dev b p (Suc n) = Some r"
          by (simp only: step q st dl l False r(1) cases)
        moreover have "case r of Inl e \<Rightarrow> True | Inr s \<Rightarrow> \<exists>k' l. p \<le> k' \<and> k' < length b \<and> b ! k' = CHR ''/'' \<and> s = drop k' b
             \<and> lstat (if take k' b = [] then ''/'' else take k' b) = Some (dev, l)"
        proof (cases r)
          case (Inr s)
          have "p \<le> k'" if "k + 1 \<le> k'" for k' using k that by simp
          with r(2) Inr show ?thesis by (simp only: sum.case) blast
        qed simp
        ultimately show ?thesis by blast
      qed
    qed
  qed
qed simp

section \<open>Test mode\<close>

named_theorems quiet \<open>steps that write nothing in test mode\<close>

definition writes_nothing :: "(string \<Rightarrow> bytes option) \<Rightarrow> 'a hostprog \<Rightarrow> bool" where
  "writes_nothing F m \<longleftrightarrow> keeps (\<lambda>h. test_mode h \<and> files h = F) m"

lemma quiet_basic [quiet]:
  "writes_nothing F (ret x)" "writes_nothing F (fatal msg)" "writes_nothing F (open_file nm msg)" "writes_nothing F (do_write d off data)"
  by (auto simp: writes_nothing_def keeps_def ret_def fatal_def throw_def open_file_def do_write_def split: option.split)

lemma quiet_bnd [quiet]: "writes_nothing F m \<Longrightarrow> (\<And>x. writes_nothing F (k x)) \<Longrightarrow> writes_nothing F (bnd m k)"
  unfolding writes_nothing_def by (rule keeps_bnd)

lemma quiet_cases [quiet]:
  "writes_nothing F m \<Longrightarrow> writes_nothing F n \<Longrightarrow> writes_nothing F (if b then m else n)"
  "writes_nothing F f \<Longrightarrow> (\<And>y. writes_nothing F (g y)) \<Longrightarrow> writes_nothing F (case x of None \<Rightarrow> f | Some y \<Rightarrow> g y)"
  "(\<And>e. writes_nothing F (f' e)) \<Longrightarrow> (\<And>y. writes_nothing F (g' y)) \<Longrightarrow> writes_nothing F (case r of Inl e \<Rightarrow> f' e | Inr y \<Rightarrow> g' y)"
  "(\<And>a b. writes_nothing F (h a b)) \<Longrightarrow> writes_nothing F (case p of (a, b) \<Rightarrow> h a b)"
  by (simp_all split: option.split sum.split prod.split)

lemma quiet_parts [quiet]:
  "writes_nothing F (read_sb device)" "writes_nothing F (install_stage device name preboot doff)"
  "writes_nothing F (make_bootable device secsize part stage_size base)" "writes_nothing F am_i_newworld"
  unfolding read_sb_def install_stage_def make_bootable_def am_i_newworld_def Let_def
  by (rule quiet)+

lemma quiet_start:
  assumes "writes_nothing F m" and "files h = F"
  shows "files (snd (bnd (modify (\<lambda>h. h\<lparr>test_mode := True\<rparr>)) (\<lambda>_. m) h)) = F"
  using assms keepsD [of "\<lambda>h. test_mode h \<and> files h = F" m "h\<lparr>test_mode := True\<rparr>"]
  by (simp add: writes_nothing_def bnd_def modify_def)

text \<open>
  Property C32: with the option for a test run the installer writes to no file and no device, whatever
  else is asked for and whether it ends well or not.
\<close>

theorem test_run_writes_nothing:
  assumes "o_test (parse_opts as)"
  shows "files (snd (install_main dev_of names stat root_env as rest h)) = files h"
proof (cases "o_usage (parse_opts as) \<or> o_version (parse_opts as) \<or> rest")
  case True
  then show ?thesis by (auto simp: install_main_def usage_def Let_def ret_def)
next
  case False
  then have f: "\<not> o_usage (parse_opts as)" "\<not> o_version (parse_opts as)" "\<not> rest" by simp_all
  have t: "o_test (parse_opts as) = True" using assms by simp
  show ?thesis
    unfolding install_main_def Let_def t if_not_P [OF f(1)] if_not_P [OF f(2)] if_not_P [OF f(3)] by (rule quiet_start) (rule quiet refl)+
qed

theorem test_run_writes_nothing_witness:
  "files (snd (install_main (\<lambda>_. 2048) None (\<lambda>_. None) None [(CHR ''T'', []), (CHR ''d'', ''/dev/sda'')] False demo_host)) = files demo_host"
  by (rule test_run_writes_nothing) (simp add: parse_opts_def set_opt_def opts0_def)

end
