(* ===== verification/Elfextract.thy ===== *)
theory Elfextract
  imports Elf
begin

unbundle bit_operations_syntax

text \<open>
  The build tool that cuts the loadable part out of the linked loader
  (\<^verbatim>\<open>util/elfextract.c\<close>).  The input is a byte string; the result is what was written, or the error.
  \<open>unsigned long\<close> has 64 bits.
\<close>

text \<open>\<open>rd\<close>: exactly \<open>len\<close> bytes from a position, or the program ends.\<close>

definition rd :: "bytes \<Rightarrow> nat \<Rightarrow> nat \<Rightarrow> string + bytes" where
  "rd file pos len =
     (if length (slice pos len file) = len then Inr (slice pos len file) else Inl ''short file'')"

definition sizeof_ehdr :: nat where "sizeof_ehdr = 52"

text \<open>The loop over program headers: offset, size and address of the last loadable one.\<close>

fun x_segments :: "bytes \<Rightarrow> nat \<Rightarrow> nat \<Rightarrow> u64 \<times> u64 \<times> u32 \<Rightarrow> string + (u64 \<times> u64)" where
  "x_segments file pos 0 (phoffset, phsize, prevaddr) = Inr (phoffset, phsize)"
| "x_segments file pos (Suc n) (phoffset, phsize, prevaddr) =
     (case rd file pos 32 of
        Inl e \<Rightarrow> Inl e
      | Inr ph \<Rightarrow>
          x_segments file (pos + 32) n
            (if be32 ph 0 \<noteq> PT_LOAD then (phoffset, phsize, prevaddr)
             else if phsize = 0 \<or> prevaddr = 0 then (ucast (be32 ph 4), ucast (be32 ph 16), be32 ph 8)
             else (phoffset, ucast (be32 ph 4 + be32 ph 16) - phoffset, be32 ph 8)))"

definition COPY_BUF :: nat where "COPY_BUF = 65536"

text \<open>The copy, at most a buffer at a time; what was written before a short read stays written.\<close>

function x_copy :: "bytes \<Rightarrow> nat \<Rightarrow> nat \<Rightarrow> string + bytes" where
  "x_copy file pos len =
     (if len = 0 then Inr []
      else
        (let nb = min len COPY_BUF in
         case rd file pos nb of
           Inl e \<Rightarrow> Inl e
         | Inr d \<Rightarrow> map_sum id (\<lambda>r. d @ r) (x_copy file (pos + nb) (len - nb))))"
  by pat_completeness auto
termination by (relation "measure (\<lambda>(file, pos, len). len)") (auto simp: COPY_BUF_def)

declare x_copy.simps [simp del]

definition elfextract :: "bytes \<Rightarrow> string + bytes" where
  "elfextract file =
     (case rd file 0 sizeof_ehdr of
        Inl e \<Rightarrow> Inl e
      | Inr eh \<Rightarrow>
          if slice 0 4 eh \<noteq> [0x7f, 0x45, 0x4c, 0x46] then Inl ''not an ELF file''
          else
            (case x_segments file (unat (be32 eh 28)) (unat (be16 eh 44)) (0, 0, 0) of
               Inl e \<Rightarrow> Inl e
             | Inr (phoffset, phsize) \<Rightarrow>
                 if phsize = 0 then Inl ''no loadable segment''
                 else if phsize > ucast IQUIK_SIZE then Inl ''grew beyond IQUIK_SIZE''
                 else x_copy file (unat phoffset) (unat phsize)))"

end
