(* ===== verification/Extract_Spec.thy ===== *)
theory Extract_Spec
  imports Elfextract
begin

unbundle bit_operations_syntax

text \<open>
  What the extraction tool writes: the slice of the linked file from the start of the first
  loadable segment to the end of the last one.
\<close>

section \<open>The copy\<close>

lemma x_copy_slice:
  "x_copy bs pos n = (if n = 0 \<or> pos + n \<le> length bs then Inr (slice pos n bs) else Inl ''short file'')"
proof (induction n arbitrary: pos rule: less_induct)
  case (less n)
  show ?case
  proof (cases "n = 0")
    case False
    let ?b = "min n COPY_BUF"
    have b: "0 < ?b" "?b \<le> n" using False by (simp_all add: COPY_BUF_def)
    show ?thesis
    proof (cases "pos + ?b \<le> length bs")
      case True
      then have "rd bs pos ?b = Inr (slice pos ?b bs)" by (simp add: rd_def)
      moreover have "slice pos n bs = slice pos ?b bs @ slice (pos + ?b) (n - ?b) bs"
        using slice_append [of pos ?b "n - ?b" bs] b by simp
      ultimately show ?thesis using less [of "n - ?b" "pos + ?b"] False True b
        by (simp add: x_copy.simps [of bs pos n] Let_def) linarith
    next
      case short: False
      then have "rd bs pos ?b = Inl ''short file''" using b by (auto simp: rd_def)
      then show ?thesis using False short b by (simp add: x_copy.simps [of bs pos n] Let_def)
    qed
  qed (simp add: x_copy.simps [of bs pos 0])
qed


section \<open>The program headers\<close>

definition x_headers :: "bytes \<Rightarrow> nat \<Rightarrow> nat \<Rightarrow> bytes list" where
  "x_headers file pos n = map (\<lambda>i. slice (pos + 32 * i) 32 file) [0..<n]"

definition x_loadable :: "bytes \<Rightarrow> nat \<Rightarrow> nat \<Rightarrow> bytes list" where
  "x_loadable file pos n = filter (\<lambda>ph. be32 ph 0 = PT_LOAD) (x_headers file pos n)"

definition x_start :: "bytes \<Rightarrow> nat" where "x_start ph = unat (be32 ph 4)"
definition x_end :: "bytes \<Rightarrow> nat" where "x_end ph = unat (be32 ph 4) + unat (be32 ph 16)"

fun x_step :: "bytes \<Rightarrow> u64 \<times> u64 \<times> u32 \<Rightarrow> u64 \<times> u64 \<times> u32" where
  "x_step ph (phoffset, phsize, prevaddr) =
     (if phsize = 0 \<or> prevaddr = 0 then (ucast (be32 ph 4), ucast (be32 ph 16), be32 ph 8)
      else (phoffset, ucast (be32 ph 4 + be32 ph 16) - phoffset, be32 ph 8))"

lemma x_headers_Suc: "x_headers file pos (Suc n) = slice pos 32 file # x_headers file (pos + 32) n"
  unfolding x_headers_def upt_conv_Cons [OF zero_less_Suc] map_Suc_upt [symmetric]
  by (simp add: algebra_simps)

lemma x_segments_fold:
  assumes "pos + 32 * n \<le> length file"
  shows "x_segments file pos n st = Inr (case fold x_step (x_loadable file pos n) st of (a, b, c) \<Rightarrow> (a, b))"
  using assms
proof (induction n arbitrary: pos st)
  case 0
  then show ?case by (cases st) (simp add: x_loadable_def x_headers_def)
next
  case (Suc n)
  have "rd file pos 32 = Inr (slice pos 32 file)" using Suc.prems by (simp add: rd_def)
  then show ?case using Suc.IH [of "pos + 32"] Suc.prems
    by (cases st) (simp add: x_loadable_def x_headers_Suc)
qed

text \<open>
  Segments with some content at an address other than 0, none of which ends before the first begins.
\<close>

definition x_ordered :: "bytes list \<Rightarrow> bool" where
  "x_ordered ss \<longleftrightarrow> ss \<noteq> [] \<and>
     (\<forall>ph \<in> set ss. be32 ph 16 \<noteq> 0 \<and> be32 ph 8 \<noteq> 0 \<and> x_end ph < 2 ^ 32 \<and> x_start (hd ss) < x_end ph)"

lemma unat_of_size: "n < 2 ^ 32 \<Longrightarrow> unat (word_of_nat n :: u64) = n"
  by (rule unat_word_of_nat_small) simp

lemma x_end_word:
  assumes "x_end ph < 2 ^ 32"
  shows "(ucast (be32 ph 4 + be32 ph 16) :: u64) = word_of_nat (x_end ph)"
proof -
  have "x_end ph = unat (be32 ph 4 + be32 ph 16)" using assms by (simp add: x_end_def unat_word_ariths)
  then show ?thesis by simp
qed

lemma fold_x_step:
  assumes "x_ordered ss"
  shows "fold x_step ss (0, 0, 0)
    = (word_of_nat (x_start (hd ss)), word_of_nat (x_end (last ss) - x_start (hd ss)), be32 (last ss) 8)"
  using assms
proof (induction ss rule: rev_induct)
  case (snoc ph ss)
  show ?case
  proof (cases "ss = []")
    case True
    then show ?thesis by (simp add: x_start_def x_end_def)
  next
    case False
    let ?off = "x_start (hd ss)" and ?stop = "x_end (last ss)"
    have ord: "x_ordered ss" using snoc.prems False by (auto simp: x_ordered_def)
    have last: "be32 (last ss) 8 \<noteq> 0" "?off < ?stop" "?stop < 2 ^ 32"
      using ord False by (auto simp: x_ordered_def)
    have ph: "x_end ph < 2 ^ 32" "?off < x_end ph" using snoc.prems False by (auto simp: x_ordered_def)
    have "(word_of_nat (?stop - ?off) :: u64) \<noteq> 0"
      using unat_of_size [of "?stop - ?off"] last by (metis less_imp_diff_less not_less_zero unat_0 zero_less_diff)
    then show ?thesis
      using snoc.IH [OF ord] False last ph by (simp add: x_end_word)
  qed
qed (simp add: x_ordered_def)

section \<open>The whole tool\<close>

definition x_program :: "bytes \<Rightarrow> bytes list" where
  "x_program file = x_loadable file (unat (be32 file 28)) (unat (be16 file 44))"

text \<open>
  Property C21: for an ELF file whose loadable segments have some content and an address, none
  ending before the first begins, the tool writes exactly the file's bytes from the start of the
  first segment to the end of the last one, if there are at most \<open>IQUIK_SIZE\<close> of them and the
  file has them all, and fails otherwise.
\<close>

theorem elfextract_output:
  assumes "52 \<le> length file" and "slice 0 4 file = [0x7f, 0x45, 0x4c, 0x46]"
    and "unat (be32 file 28) + 32 * unat (be16 file 44) \<le> length file" and "x_ordered (x_program file)"
    and "start = x_start (hd (x_program file))" and "stop = x_end (last (x_program file))"
  shows "elfextract file =
    (if unat IQUIK_SIZE < stop - start then Inl ''grew beyond IQUIK_SIZE''
     else if length file < stop then Inl ''short file'' else Inr (slice start (stop - start) file))"
proof -
  let ?eh = "slice 0 52 file"
  have eh: "rd file 0 sizeof_ehdr = Inr ?eh" using assms(1) by (simp add: rd_def sizeof_ehdr_def)
  have fields: "slice 0 4 ?eh = slice 0 4 file" "be32 ?eh 28 = be32 file 28" "be16 ?eh 44 = be16 file 44"
    by (simp_all add: slice_slice be32_def be16_def)
  have st: "start < stop" "stop < 2 ^ 32" using assms(4-6) by (auto simp: x_ordered_def)
  obtain a b :: u64 where ab: "a = word_of_nat start" "b = word_of_nat (stop - start)" by blast
  have len: "unat b = stop - start" "unat a = start" unfolding ab using st by (intro unat_of_size; simp)+
  have "x_segments file (unat (be32 file 28)) (unat (be16 file 44)) (0, 0, 0) = Inr (a, b)"
    unfolding x_segments_fold [OF assms(3)] x_program_def [symmetric] fold_x_step [OF assms(4)] assms(5,6) ab by simp
  moreover have "b \<noteq> 0" using len(1) st by auto
  moreover have "ucast IQUIK_SIZE < b \<longleftrightarrow> unat IQUIK_SIZE < stop - start"
    by (simp add: word_less_nat_alt len)
  ultimately show ?thesis
    using st assms(2) by (simp add: elfextract_def eh fields x_copy_slice len)
qed

text \<open>A file with two loadable segments, the second one 4 bytes from the end of the first.\<close>

definition demo_linked :: bytes where
  "demo_linked = [0x7f, 0x45, 0x4c, 0x46] @ replicate 24 0 @ bytes32 52 @ replicate 12 0 @ [0, 2] @ replicate 6 0
     @ bytes32 1 @ bytes32 116 @ bytes32 0x3e0000 @ bytes32 0 @ bytes32 4 @ replicate 12 0
     @ bytes32 1 @ bytes32 124 @ bytes32 0x3e0008 @ bytes32 0 @ bytes32 2 @ replicate 12 0
     @ [1, 2, 3, 4, 0, 0, 0, 0, 5, 6]"

theorem elfextract_output_witness: "elfextract demo_linked = Inr [1, 2, 3, 4, 0, 0, 0, 0, 5, 6]"
proof -
  let ?f = demo_linked
  have len: "length ?f = 126" by (simp add: demo_linked_def bytes32_def)
  have f: "slice 0 4 ?f = [0x7f, 0x45, 0x4c, 0x46]" "be32 ?f 28 = 52" "be16 ?f 44 = 2"
    "be32 ?f 52 = 1" "be32 ?f 56 = 116" "be32 ?f 60 = 0x3e0000" "be32 ?f 68 = 4"
    "be32 ?f 84 = 1" "be32 ?f 88 = 124" "be32 ?f 92 = 0x3e0008" "be32 ?f 100 = 2"
    by (simp_all add: demo_linked_def bytes32_def be32_def be16_def be_nat_def slice_def)
  have at: "be32 (slice off 32 ?f) k = be32 ?f (off + k)" if "k \<le> 28" for off k
    using that by (simp add: be32_def slice_slice)
  have "[0..<2] = [0, 1 :: nat]" by (simp add: upt_rec)
  then have p: "x_program ?f = [slice 52 32 ?f, slice 84 32 ?f]"
    by (simp add: x_program_def x_loadable_def x_headers_def f at PT_LOAD_def)
  have ord: "x_ordered (x_program ?f)" by (simp add: x_ordered_def p at f x_end_def x_start_def)
  have "52 \<le> length ?f" "unat (be32 ?f 28) + 32 * unat (be16 ?f 44) \<le> length ?f" by (simp_all add: len f)
  note out = elfextract_output [OF this(1) f(1) this(2) ord refl refl]
  have "slice 116 10 ?f = [1, 2, 3, 4, 0, 0, 0, 0, 5, 6]" by (simp add: demo_linked_def bytes32_def slice_def)
  then show ?thesis using out by (simp add: p at f x_end_def x_start_def len IQUIK_SIZE_def)
qed

end
