(* ===== verification/Mount_Spec.thy ===== *)
theory Mount_Spec
  imports Ext2frame
begin

unbundle bit_operations_syntax

text \<open>What a failed mount leaves behind.\<close>

lemma fw_only_part_read_into [simp]: "fw_only (part_read_into fw sector off n)"
proof -
  have "fw_only (\<lambda>w. (if push_bit SECTOR_BITS sector + off + ucast n \<ge> p_len (the_part w) then ret (Some ERR_PART_BEYOND, [])
        else bnd (disk_read fw (p_dev (the_part w)) n (push_bit SECTOR_BITS sector + (p_start (the_part w) + off))) (\<lambda>(len, data).
            ret (if len \<noteq> n then Some ERR_DEV_SHORT_READ else None, data))) w)"
    by (rule fw_only_state) (auto intro!: fw_only_if fw_only_bnd split: prod.split)
  then show ?thesis by (simp add: part_read_into_def Let_def ret_def if_distrib [of "\<lambda>f. f _"] cong: if_cong)
qed

lemma fw_only_part_read [simp]: "fw_only (part_read fw sector off n)"
  unfolding part_read_def by (rule fw_only_bnd) (auto split: prod.split option.split)

lemma fw_only_read_inode [simp]: "fw_only (ext2fs_read_inode fw sb ino)"
proof -
  have "fw_only (\<lambda>w. part_read fw (f w) (g w) n w)" for f g n by (rule fw_only_state) simp
  then show ?thesis unfolding ext2fs_read_inode_def ext2fs_blockgroup_def Let_def by (intro fw_only_bnd) simp_all
qed

lemma catch_fw_only:
  assumes "fw_only m"
  obtains r s' where "catch m w = (Inr r, w\<lparr>fws := s'\<rparr>)" "r = Inl e \<Longrightarrow> m w = (Inl (Err e), w\<lparr>fws := s'\<rparr>)"
    | s' where "catch m w = (Inl Hang, w\<lparr>fws := s'\<rparr>)"
proof -
  obtain q s' where "m w = (q, w\<lparr>fws := s'\<rparr>)" using assms by (rule fw_onlyE)
  then show thesis using that by (cases q; cases "projl q") (auto simp: catch_def)
qed



end
