(* ===== verification/Memtest_Spec.thy ===== *)
theory Memtest_Spec
  imports Memtest Part
begin

unbundle bit_operations_syntax

text \<open>The memory test on sound memory.\<close>

section \<open>The memory test\<close>

lemma load32_store32: "load32 (store32 a v m) a = v"
proof -
  have ne: "a \<noteq> a + k" "a + k \<noteq> a" if "k \<noteq> 0" for k :: u32 using that by simp_all
  have "[store32 a v m a, store32 a v m (a + 1), store32 a v m (a + 2), store32 a v m (a + 3)] = bytes32 v"
    by (simp add: store32_def bytes32_def)
  then have "load32 (store32 a v m) a = be32 (bytes32 v) 0" by (simp add: load32_def)
  also have "slice 0 4 (bytes32 v) = bytes32 v" by (simp add: slice_def)
  then have "be32 (bytes32 v) 0 = v" by (rule be32_slice_bytes32)
  finally show ?thesis .
qed

text \<open>\<open>c\<close> words from \<open>p\<close> up to \<open>stop\<close>.\<close>

definition words_upto :: "u32 \<Rightarrow> nat \<Rightarrow> u32 \<Rightarrow> bool" where
  "words_upto p c stop \<longleftrightarrow> unat p + 4 * c = unat stop"

lemma words_step:
  assumes "words_upto p (Suc c) stop"
  shows "unat (p + 4) = unat p + 4" "words_upto (p + 4) c stop" "p < stop"
proof -
  have "unat p + 4 < 2 ^ 32 \<or> unat stop = unat p + 4" using assms unat_lt_u32 [of stop] by (simp add: words_upto_def)
  then have "unat p + unat (4 :: u32) < 2 ^ LENGTH(32)" using assms unat_lt_u32 [of stop] by (simp add: words_upto_def)
  then show u: "unat (p + 4) = unat p + 4" using unat_plus_no_wrap [of p 4] by simp
  show "words_upto (p + 4) c stop" using assms u by (simp add: words_upto_def)
  show "p < stop" using assms by (simp add: words_upto_def word_less_nat_alt)
qed

lemma when_printk: "\<exists>s'. whenM c (printk fw fmt as) w = (Inr (), w\<lparr>fws := s'\<rparr>)"
proof (cases c)
  case True
  then show ?thesis using printk_ok [of fw fmt as w] by (simp add: whenM_def)
next
  case False
  then show ?thesis by (intro exI [of _ "fws w"]) (simp add: whenM_def ret_def)
qed

lemma load32_cong:
  assumes "\<And>k. k \<in> {0, 1, 2, 3} \<Longrightarrow> m (a + k) = m' (a + k)"
  shows "load32 m a = load32 m' a"
  using assms [of 0] assms [of 1] assms [of 2] assms [of 3] by (simp add: load32_def)

lemma write_words_ok:
  assumes "words_upto p c stop" and "c < n"
  shows "\<exists>s' m'. write_words fw stop p n w = (Inr (), w\<lparr>fws := s', mem := (mem w)\<lparr>ram := m'\<rparr>\<rparr>)
    \<and> (\<forall>i < c. load32 m' (p + 4 * word_of_nat i) = p + 4 * word_of_nat i) \<and> (\<forall>a. unat a < unat p \<longrightarrow> m' a = ram (mem w) a)"
  using assms
proof (induction c arbitrary: p n w)
  case 0
  then obtain k where n: "n = Suc k" by (cases n) auto
  have "\<not> p < stop" using 0 by (simp add: words_upto_def word_less_nat_alt)
  then show ?case by (intro exI [of _ "fws w"] exI [of _ "ram (mem w)"]) (simp add: n ret_def)
next
  case (Suc c)
  then obtain k where n: "n = Suc k" and k: "c < k" by (cases n) auto
  note st = words_step [OF Suc.prems(1)]
  obtain s1 where s1: "whenM (p mod SIZE_1M = 0) (printk fw (''Writing 0x%x...'' @ [LF]) [Va_u p]) w = (Inr (), w\<lparr>fws := s1\<rparr>)"
    using when_printk [of _ fw _ _ w] by blast
  let ?m1 = "store32 p p (ram (mem w))"
  let ?w1 = "w\<lparr>fws := s1, mem := (mem w)\<lparr>ram := ?m1\<rparr>\<rparr>"
  obtain s2 m2 where r: "write_words fw stop (p + 4) k ?w1 = (Inr (), ?w1\<lparr>fws := s2, mem := (mem ?w1)\<lparr>ram := m2\<rparr>\<rparr>)"
    and f: "\<forall>i < c. load32 m2 (p + 4 + 4 * word_of_nat i) = p + 4 + 4 * word_of_nat i" "\<forall>a. unat a < unat (p + 4) \<longrightarrow> m2 a = ram (mem ?w1) a"
    using Suc.IH [OF st(2) k, of ?w1] by blast
  have eq: "write_words fw stop p n w = (Inr (), w\<lparr>fws := s2, mem := (mem w)\<lparr>ram := m2\<rparr>\<rparr>)"
    using st(3) s1 r by (simp add: n bnd_def poke32_def modify_def)
  have old: "m2 a = ram (mem w) a" if "unat a < unat p" for a
  proof -
    have "a \<noteq> p" "a \<noteq> p + 1" "a \<noteq> p + 2" "a \<noteq> p + 3"
      using that st(1) unat_plus_no_wrap [of p 1] unat_plus_no_wrap [of p 2] unat_plus_no_wrap [of p 3] unat_lt_u32 [of "p + 4"]
      by auto
    then show ?thesis using f(2) that st(1) by (simp add: store32_def)
  qed
  have u: "unat (p + k) = unat p + unat k" if "k \<in> {0, 1, 2, 3}" for k :: u32
    using that st(1) unat_lt_u32 [of "p + 4"] by (intro unat_plus_no_wrap) auto
  have "load32 m2 p = load32 ?m1 p"
  proof (rule load32_cong)
    fix k :: u32 assume k: "k \<in> {0, 1, 2, 3}"
    then have "unat k < 4" by auto
    then show "m2 (p + k) = ?m1 (p + k)" using f(2) u [OF k] st(1) by simp
  qed
  then have here: "load32 m2 p = p" by (simp add: load32_store32)
  have all: "load32 m2 (p + 4 * word_of_nat i) = p + 4 * word_of_nat i" if "i < Suc c" for i
  proof (cases i)
    case 0
    then show ?thesis using here by simp
  next
    case (Suc j)
    then have "j < c" using that by simp
    then have "load32 m2 (p + 4 + 4 * word_of_nat j) = p + 4 + 4 * word_of_nat j" using f(1) by simp
    then show ?thesis by (simp add: Suc algebra_simps)
  qed
  show ?case using eq all old by (intro exI [of _ s2] exI [of _ m2]) simp
qed

text \<open>What the reading pass prints when nothing is wrong.\<close>

fun progress :: "'s firmware \<Rightarrow> u32 \<Rightarrow> u32 \<Rightarrow> nat \<Rightarrow> ('s, 'z, unit) prog" where
  "progress fw buf_end p 0 = throw Hang"
| "progress fw buf_end p (Suc n) =
     (if p < buf_end then
        bnd (whenM (p mod SIZE_1M = 0) (printk fw (''Reading 0x%x...'' @ [LF]) [Va_u p])) (\<lambda>_. progress fw buf_end (p + 4) n)
      else ret ())"

lemma read_words_silent:
  assumes "words_upto p c stop" and "\<forall>i < c. load32 (ram (mem w)) (p + 4 * word_of_nat i) = p + 4 * word_of_nat i"
  shows "read_words fw load32 stop p n w = progress fw stop p n w"
  using assms
proof (induction n arbitrary: p c w)
  case (Suc n)
  show ?case
  proof (cases c)
    case 0
    then have "\<not> p < stop" using Suc.prems(1) by (simp add: words_upto_def word_less_nat_alt)
    then show ?thesis by simp
  next
    case c: (Suc c')
    note st = words_step [OF Suc.prems(1) [unfolded c]]
    obtain s1 where s1: "whenM (p mod SIZE_1M = 0) (printk fw (''Reading 0x%x...'' @ [LF]) [Va_u p]) w = (Inr (), w\<lparr>fws := s1\<rparr>)"
      using when_printk [of _ fw _ _ w] by blast
    have p: "load32 (ram (mem w)) p = p" using Suc.prems(2) c by (auto dest: spec [of _ 0])
    have nx: "\<forall>i < c'. load32 (ram (mem (w\<lparr>fws := s1\<rparr>))) (p + 4 + 4 * word_of_nat i) = p + 4 + 4 * word_of_nat i"
    proof (intro allI impI)
      fix i assume "i < c'"
      then have "load32 (ram (mem w)) (p + 4 * word_of_nat (Suc i)) = p + 4 * word_of_nat (Suc i)" using Suc.prems(2) c by blast
      then show "load32 (ram (mem (w\<lparr>fws := s1\<rparr>))) (p + 4 + 4 * word_of_nat i) = p + 4 + 4 * word_of_nat i"
        by (simp add: algebra_simps)
    qed
    show ?thesis using st(3) s1 p Suc.IH [OF st(2) nx] by (simp add: bnd_def whenM_def ret_def)
  qed
qed simp

text \<open>
  Property C30: on sound memory, where a word reads back as it was written, the memory test reports
  nothing: every word of the range still holds its address when all of them have been written.
\<close>

theorem memtest_silent:
  assumes "words_upto buf c stop" and "c < budget w"
  shows "\<exists>w'. write_words fw stop buf (budget w) w = (Inr (), w')
    \<and> read_words fw load32 stop buf (budget w') w' = progress fw stop buf (budget w') w'"
proof -
  obtain s' m' where "write_words fw stop buf (budget w) w = (Inr (), w\<lparr>fws := s', mem := (mem w)\<lparr>ram := m'\<rparr>\<rparr>)"
    and "\<forall>i < c. load32 m' (buf + 4 * word_of_nat i) = buf + 4 * word_of_nat i"
    using write_words_ok [OF assms, of fw w] by blast
  then show ?thesis
    using read_words_silent [OF assms(1), of "w\<lparr>fws := s', mem := (mem w)\<lparr>ram := m'\<rparr>\<rparr>" fw] by auto
qed

theorem memtest_silent_witness:
  "\<exists>w'. write_words demo_firmware 0x100010 0x100000 (budget (demo_machine ([] :: (u32 \<times> u32) list))) (demo_machine []) = (Inr (), w')
    \<and> read_words demo_firmware load32 0x100010 0x100000 (budget w') w' = progress demo_firmware 0x100010 0x100000 (budget w') w'"
  by (rule memtest_silent [where c = 4]) (simp_all add: words_upto_def demo_machine_def)

end
