(* ===== verification/Util_Spec.thy ===== *)
theory Util_Spec
  imports Util "HOL-Library.Sublist"
begin

text \<open>The search for a substring.\<close>

lemma strstr_loop_spec:
  "case strstr_loop s1 s2 of
     None \<Rightarrow> \<not> sublist s2 s1
   | Some r \<Rightarrow> \<exists>p. s1 = p @ r \<and> prefix s2 r \<and> (\<forall>q r'. s1 = q @ r' \<and> prefix s2 r' \<longrightarrow> length p \<le> length q)"
proof (induction s1 s2 rule: strstr_loop.induct)
  case (1 s1 s2)
  show ?case
  proof (cases "length s2 \<le> length s1")
    case False
    then have "\<not> sublist s2 s1" using sublist_length_le by auto
    then show ?thesis using False by (simp add: strstr_loop.simps [of s1])
  next
    case le: True
    show ?thesis
    proof (cases "take (length s2) s1 = s2")
      case True
      then have "prefix s2 s1" by (metis take_is_prefix)
      then show ?thesis using le True by (auto simp: strstr_loop.simps [of s1])
    next
      case no: False
      then have np: "\<not> prefix s2 s1" by (auto simp: prefix_def)
      show ?thesis
      proof (cases s1)
        case Nil
        then show ?thesis using le no by simp
      next
        case (Cons c r)
        have eq: "strstr_loop s1 s2 = strstr_loop r s2" using le no unfolding Cons by (subst strstr_loop.simps) simp
        have IH: "case strstr_loop r s2 of None \<Rightarrow> \<not> sublist s2 r
           | Some x \<Rightarrow> \<exists>p. r = p @ x \<and> prefix s2 x \<and> (\<forall>q r'. r = q @ r' \<and> prefix s2 r' \<longrightarrow> length p \<le> length q)"
          using 1 [OF le no Cons] .
        show ?thesis
        proof (cases "strstr_loop r s2")
          case None
          then show ?thesis using IH np eq Cons by (simp add: sublist_Cons_right)
        next
          case (Some x)
          then obtain p where p: "r = p @ x" "prefix s2 x" "\<forall>q r'. r = q @ r' \<and> prefix s2 r' \<longrightarrow> length p \<le> length q"
            using IH by auto
          have "length (c # p) \<le> length q" if "s1 = q @ r'" "prefix s2 r'" for q r'
            using that np p(3) Cons by (cases q) auto
          then show ?thesis using eq Some p Cons by (auto intro!: exI [of _ "c # p"])
        qed
      qed
    qed
  qed
qed

text \<open>
  Property C35: \<open>strstr\<close> gives the text from the first place on where the second string occurs in the
  first, and null exactly where it does not occur.
\<close>

theorem strstr_first:
  "case strstr s1 s2 of
     None \<Rightarrow> \<not> sublist s2 s1
   | Some r \<Rightarrow> \<exists>p. s1 = p @ r \<and> prefix s2 r \<and> (\<forall>q r'. s1 = q @ r' \<and> prefix s2 r' \<longrightarrow> length p \<le> length q)"
  using strstr_loop_spec [of s2 s1] by (cases "s2 = []") (auto simp: strstr_def)

theorem strstr_first_witness:
  "strstr ''aaab'' ''ab'' = Some ''ab'' \<and> (\<exists>p. ''aaab'' = p @ ''ab'' \<and> prefix ''ab'' ''ab'' \<and> length p = 2)"
proof -
  have s: "strstr ''aaab'' ''ab'' = Some ''ab''" by (simp add: strstr_def strstr_loop.simps)
  show ?thesis using strstr_first [of "''aaab''" "''ab''"] s by auto
qed

end
